(* ===== verification/Sentinel_Prelude.thy ===== *)
theory Sentinel_Prelude
  imports Main "HOL-Library.Word" "HOL-Library.Char_ord" "HOL-Library.AList"
begin

unbundle bit_operations_syntax

text \<open>
  Shared vocabulary of the development: the machine integer types of the C++ code, thrown
  exceptions as values, \<open>std::to_string\<close> on unsigned integers, big-endian byte
  strings read as numbers, and the association lists that stand for the code's
  \<open>std::unordered_map\<close>s.  The lemma collections \<open>be_simps\<close> (big-endian values)
  and \<open>err_simps\<close> (sequencing of fallible steps) carry the component proofs.
\<close>

named_theorems be_simps \<open>big-endian byte strings as numbers\<close>
named_theorems err_simps \<open>sequencing of computations that may throw\<close>

section \<open>Machine integers and exceptions\<close>

type_synonym u8 = "8 word"
type_synonym u32 = "32 word"
type_synonym u64 = "64 word"
type_synonym bytes = "u8 list"

text \<open>
  The exceptions the code throws, with the text \<open>what()\<close> returns: \<open>std::runtime_error\<close>,
  the two that \<open>std::stoull\<close> and \<open>std::stoi\<close> raise, the bare string literals thrown by
  the \<open>constexpr\<close> parser, and the exceptions of the JSON library, which carry the name of
  their class in place of the library's text.
\<close>

datatype exn =
    RuntimeError string
  | InvalidArgument string
  | OutOfRange string
  | LiteralThrown string
  | JsonError string

primrec what :: "exn \<Rightarrow> string" where
  "what (RuntimeError s) = s"
| "what (InvalidArgument s) = s"
| "what (OutOfRange s) = s"
| "what (LiteralThrown s) = s"
| "what (JsonError s) = s"

type_synonym 'a result = "exn + 'a"

definition bindE :: "'e + 'a \<Rightarrow> ('a \<Rightarrow> 'e + 'b) \<Rightarrow> 'e + 'b" where
  "bindE m f = (case m of Inl e \<Rightarrow> Inl e | Inr x \<Rightarrow> f x)"

lemma bindE_simps [simp, err_simps]:
  "bindE (Inl e) f = Inl e" "bindE (Inr x) f = f x"
  by (simp_all add: bindE_def)

lemma bindE_eq_Inr [err_simps]: "bindE m f = Inr y \<longleftrightarrow> (\<exists>x. m = Inr x \<and> f x = Inr y)"
  by (cases m) auto

lemma bindE_eq_Inl [err_simps]:
  "bindE m f = Inl e \<longleftrightarrow> m = Inl e \<or> (\<exists>x. m = Inr x \<and> f x = Inl e)"
  by (cases m) auto

lemma bindE_assoc: "bindE (bindE m f) g = bindE m (\<lambda>x. bindE (f x) g)"
  by (cases m) auto

lemma Inl_Inr_cases: "(\<forall>e. r \<noteq> Inl e) \<longleftrightarrow> (\<exists>x. r = Inr x)"
  by (cases r) auto

text \<open>A \<open>for\<close> loop whose body may throw: the results in order, or the first exception.\<close>

primrec mapE :: "('a \<Rightarrow> 'e + 'b) \<Rightarrow> 'a list \<Rightarrow> 'e + 'b list" where
  "mapE f [] = Inr []"
| "mapE f (x # xs) = bindE (f x) (\<lambda>y. bindE (mapE f xs) (\<lambda>ys. Inr (y # ys)))"

lemma mapE_eq_Inr: "mapE f xs = Inr ys \<longleftrightarrow> list_all2 (\<lambda>x y. f x = Inr y) xs ys"
proof (induction xs arbitrary: ys)
  case Nil
  show ?case by auto
next
  case (Cons x xs)
  show ?case by (cases ys) (auto simp: bindE_eq_Inr Cons.IH)
qed

lemma mapE_length: "mapE f xs = Inr ys \<Longrightarrow> length ys = length xs"
  by (auto simp: mapE_eq_Inr dest: list_all2_lengthD)

lemma mapE_total: "(\<forall>x\<in>set xs. \<exists>y. f x = Inr y) \<Longrightarrow> \<exists>ys. mapE f xs = Inr ys"
  by (induction xs) (auto simp: bindE_eq_Inr)

section \<open>Decimal text: std::to_string on unsigned integers\<close>

definition digit_char :: "nat \<Rightarrow> char" where
  "digit_char d = char_of (48 + d)"

fun dec_digits :: "nat \<Rightarrow> string" where
  "dec_digits n =
     (if n < 10 then [digit_char n] else dec_digits (n div 10) @ [digit_char (n mod 10)])"

declare dec_digits.simps [simp del]

definition to_string :: "'a::len word \<Rightarrow> string" where
  "to_string w = dec_digits (unat w)"

definition is_dec_digit :: "char \<Rightarrow> bool" where
  "is_dec_digit c \<longleftrightarrow> CHR ''0'' \<le> c \<and> c \<le> CHR ''9''"

definition digit_val :: "char \<Rightarrow> nat" where
  "digit_val c = of_char c - 48"

definition dec_value :: "string \<Rightarrow> nat" where
  "dec_value s = foldl (\<lambda>v c. v * 10 + digit_val c) 0 s"

lemma is_dec_digit_nat: "is_dec_digit c \<longleftrightarrow> 48 \<le> (of_char c :: nat) \<and> (of_char c :: nat) \<le> 57"
  by (simp add: is_dec_digit_def less_eq_char_def)

lemma digit_val_less: "is_dec_digit c \<Longrightarrow> digit_val c < 10"
  by (auto simp: is_dec_digit_nat digit_val_def)

lemma of_char_digit_char [simp]: "d < 10 \<Longrightarrow> of_char (digit_char d) = (48 + d :: nat)"
  by (simp add: digit_char_def)

lemma digit_char_digit [simp]:
  assumes "d < 10"
  shows "is_dec_digit (digit_char d)" and "digit_val (digit_char d) = d"
  using assms by (simp_all add: is_dec_digit_nat digit_val_def)

lemma dec_value_snoc: "dec_value (s @ [c]) = dec_value s * 10 + digit_val c"
  by (simp add: dec_value_def)

lemma dec_value_Nil [simp]: "dec_value [] = 0"
  by (simp add: dec_value_def)

lemma dec_value_append: "dec_value (s @ t) = dec_value s * 10 ^ length t + dec_value t"
  by (induction t rule: rev_induct) (simp_all add: dec_value_snoc append_assoc [symmetric]
      algebra_simps del: append_assoc)

lemma dec_digits_digits: "c \<in> set (dec_digits n) \<Longrightarrow> is_dec_digit c"
proof (induction n rule: dec_digits.induct)
  case (1 n)
  then show ?case
    by (cases "n < 10") (auto simp: dec_digits.simps [of n])
qed

lemma dec_digits_nonempty [simp]: "dec_digits n \<noteq> []"
  by (subst dec_digits.simps) simp

lemma dec_value_digits [simp]: "dec_value (dec_digits n) = n"
proof (induction n rule: dec_digits.induct)
  case (1 n)
  then show ?case
    by (cases "n < 10")
       (simp_all add: dec_digits.simps [of n] dec_value_snoc dec_value_snoc [of "[]", simplified])
qed

lemma dec_digits_inj: "dec_digits m = dec_digits n \<longleftrightarrow> m = n"
  by (metis dec_value_digits)

lemma to_string_inj [simp]: "to_string v = to_string w \<longleftrightarrow> v = w"
  by (simp add: to_string_def dec_digits_inj word_unat_eq_iff)

lemma to_string_digits: "c \<in> set (to_string w) \<Longrightarrow> is_dec_digit c"
  by (auto simp: to_string_def dest: dec_digits_digits)

lemma to_string_nonempty [simp]: "to_string w \<noteq> []"
  by (simp add: to_string_def)

text \<open>
  \<open>std::stoull\<close> in base ten, as \<open>strtoull\<close> reads it: leading white space, an optional sign, the
  longest run of digits; a minus sign negates modulo \<open>2 ^ 64\<close>, and trailing text is ignored.
\<close>

definition is_space :: "char \<Rightarrow> bool" where
  "is_space c \<longleftrightarrow> (of_char c :: nat) = 32 \<or> 9 \<le> (of_char c :: nat) \<and> (of_char c :: nat) \<le> 13"

definition stoull :: "string \<Rightarrow> u64 result" where
  "stoull s =
     (let t = dropWhile is_space s;
          neg = (take 1 t = ''-'');
          digits = takeWhile is_dec_digit (if take 1 t = ''-'' \<or> take 1 t = ''+'' then drop 1 t else t) in
      if digits = [] then Inl (InvalidArgument ''stoull'')
      else if dec_value digits \<ge> 2 ^ 64 then Inl (OutOfRange ''stoull'')
      else Inr (if neg then - word_of_nat (dec_value digits) else word_of_nat (dec_value digits)))"

lemma digit_not_special:
  assumes "is_dec_digit c"
  shows "\<not> is_space c" and "c \<noteq> CHR ''-''" and "c \<noteq> CHR ''+''"
  using assms by (auto simp: is_dec_digit_nat is_space_def)

lemma stoull_to_string: "stoull (to_string (w :: u64)) = Inr w"
proof -
  obtain c cs where s: "to_string w = c # cs" by (cases "to_string w") (auto dest: to_string_nonempty [THEN notE])
  have digits: "list_all is_dec_digit (c # cs)"
    using to_string_digits [of _ w] by (auto simp: s list_all_iff)
  have "dec_value (c # cs) = unat w"
    by (simp flip: s add: to_string_def)
  moreover have "unat w < 2 ^ 64" using unsigned_less [of w] by simp
  moreover have run: "takeWhile is_dec_digit cs = cs"
    using digits by (simp add: takeWhile_eq_all_conv list_all_iff)
  ultimately show ?thesis
    using digits digit_not_special [of c] unfolding s by (simp add: stoull_def Let_def run)
qed

section \<open>Big-endian byte strings\<close>

definition be_value :: "bytes \<Rightarrow> nat" where
  "be_value bs = foldl (\<lambda>v b. v * 256 + unat b) 0 bs"

lemma be_value_Nil [simp]: "be_value [] = 0"
  by (simp add: be_value_def)

lemma be_value_snoc: "be_value (bs @ [b]) = be_value bs * 256 + unat b"
  by (simp add: be_value_def)

lemma be_value_append [be_simps]: "be_value (as @ bs) = be_value as * 256 ^ length bs + be_value bs"
  by (induction bs rule: rev_induct) (simp_all add: be_value_snoc append_assoc [symmetric]
      algebra_simps del: append_assoc)

lemma be_value_Cons [be_simps]: "be_value (b # bs) = unat b * 256 ^ length bs + be_value bs"
  using be_value_append [of "[b]" bs] by (simp add: be_value_def)

lemma unat_u8_less: "unat (b :: u8) < 256"
  using unsigned_less [of b] by simp

lemma be_value_bound: "be_value bs < 256 ^ length bs"
proof (induction bs)
  case Nil
  show ?case by simp
next
  case (Cons b bs)
  have "unat b * 256 ^ length bs + be_value bs < unat b * 256 ^ length bs + 256 ^ length bs"
    using Cons.IH by simp
  also have "\<dots> = Suc (unat b) * 256 ^ length bs" by simp
  also have "\<dots> \<le> 256 * 256 ^ length bs"
    using unat_u8_less [of b] by (intro mult_right_mono) simp_all
  finally show ?case by (simp add: be_value_Cons)
qed

lemma be_value_less_iff:
  assumes "length as = length bs"
  shows "be_value (a # as) < be_value (b # bs) \<longleftrightarrow>
    a < b \<or> a = b \<and> be_value as < be_value bs"
proof -
  let ?p = "256 ^ length bs :: nat"
  have A: "be_value as < ?p" and B: "be_value bs < ?p"
    using be_value_bound [of as] be_value_bound [of bs] assms by simp_all
  have step: "m * ?p + x < n * ?p + y" if "m < n" "x < ?p" for m n x y :: nat
  proof -
    have "m * ?p + x < Suc m * ?p" using that(2) by simp
    also have "\<dots> \<le> n * ?p" using that(1) by (intro mult_right_mono) simp_all
    finally show ?thesis by simp
  qed
  consider "unat a < unat b" | "unat a = unat b" | "unat b < unat a" by linarith
  then show ?thesis
  proof cases
    case 1
    with step [OF 1 A, of "be_value bs"] show ?thesis
      by (simp add: be_value_Cons word_less_nat_alt assms)
  next
    case 2
    then show ?thesis
      by (simp add: be_value_Cons word_less_nat_alt word_unat_eq_iff assms)
  next
    case 3
    with step [OF 3 B, of "be_value as"] show ?thesis
      by (simp add: be_value_Cons word_less_nat_alt word_unat_eq_iff assms)
  qed
qed

lemma be_value_inj: "length as = length bs \<Longrightarrow> be_value as = be_value bs \<longleftrightarrow> as = bs"
proof (induction as bs rule: list_induct2)
  case Nil
  show ?case by simp
next
  case (Cons a as b bs)
  then show ?case
    using be_value_less_iff [of as bs a b] be_value_less_iff [of bs as b a]
    by (auto simp: linorder_neq_iff)
qed

lemma be_value_zero_iff: "be_value bs = 0 \<longleftrightarrow> (\<forall>b\<in>set bs. b = 0)"
  by (induction bs) (auto simp: be_value_Cons unat_eq_0)

lemma be_value_replicate_0 [simp]: "be_value (replicate n 0) = 0"
  by (simp add: be_value_zero_iff)

section \<open>Lists\<close>

lemma map_upt_nth: "map (\<lambda>i. f (xs ! i)) [0..<length xs] = map f xs"
  by (rule nth_equalityI) simp_all

lemma ex_less_Suc_iff: "(\<exists>j<Suc n. P j) \<longleftrightarrow> (\<exists>j<n. P j) \<or> P n"
  by (auto simp: less_Suc_eq)

lemma concat_filter_if: "concat (map f (filter P xs)) = concat (map (\<lambda>x. if P x then f x else []) xs)"
  by (induction xs) simp_all

section \<open>Association lists as unordered maps\<close>

text \<open>
  \<open>m[key].push_back(v)\<close> on an \<open>unordered_map<K, vector<V>>\<close>: the subscript creates an empty
  bucket for a new key.
\<close>

definition bucket :: "('k \<times> 'v list) list \<Rightarrow> 'k \<Rightarrow> 'v list" where
  "bucket m k = (case map_of m k of None \<Rightarrow> [] | Some vs \<Rightarrow> vs)"

definition push_bucket :: "'k \<Rightarrow> 'v \<Rightarrow> ('k \<times> 'v list) list \<Rightarrow> ('k \<times> 'v list) list" where
  "push_bucket k v m = AList.update k (bucket m k @ [v]) m"

lemma map_of_AList_update [simp]: "map_of (AList.update k v m) k' = (if k' = k then Some v else map_of m k')"
  by (simp add: update_conv' fun_upd_def)

lemma bucket_push [simp]:
  "bucket (push_bucket k v m) k' = (if k' = k then bucket m k @ [v] else bucket m k')"
  by (simp add: push_bucket_def bucket_def)

text \<open>Every bucket filtered, no key removed.\<close>

definition filter_buckets :: "('v \<Rightarrow> bool) \<Rightarrow> ('k \<times> 'v list) list \<Rightarrow> ('k \<times> 'v list) list" where
  "filter_buckets P m = map (\<lambda>(k, vs). (k, filter P vs)) m"

lemma map_of_filter_buckets: "map_of (filter_buckets P m) k = map_option (filter P) (map_of m k)"
  by (induction m) (auto simp: filter_buckets_def)

lemma bucket_filter_buckets [simp]: "bucket (filter_buckets P m) k = filter P (bucket m k)"
  by (simp add: bucket_def map_of_filter_buckets split: option.splits)

lemma distinct_push_bucket [simp]: "distinct (map fst m) \<Longrightarrow> distinct (map fst (push_bucket k v m))"
  by (simp add: push_bucket_def distinct_update)

lemma length_update_le: "length (AList.update k v m) \<le> Suc (length m)"
  by (induction m) auto

end
