(* ===== verification/Hex.thy ===== *)
theory Hex
  imports Sentinel_Prelude
begin

text \<open>
  The hexadecimal and 256-bit helpers of \<open>include/sentinel/events/utils/hex.hpp\<close>: one
  definition per function, exceptions as values of \<open>exn + 'a\<close>, the \<open>uint32_t\<close> digit
  arithmetic kept at its width.  The lemmas read every routine against the number its
  bytes or digits denote: parsing truncates modulo \<open>2 ^ 64\<close>, comparison is the order of
  the denoted numbers, decimal printing and parsing are exact inverses, and printing an
  address inverts parsing up to letter case.
\<close>

section \<open>Definitions\<close>

subsection \<open>Nibbles\<close>

definition hex_nibble :: "char \<Rightarrow> u8 result" where
  "hex_nibble c =
     (if CHR ''0'' \<le> c \<and> c \<le> CHR ''9'' then Inr (word_of_nat (of_char c - 48))
      else if CHR ''a'' \<le> c \<and> c \<le> CHR ''f'' then Inr (word_of_nat (of_char c - 97 + 10))
      else if CHR ''A'' \<le> c \<and> c \<le> CHR ''F'' then Inr (word_of_nat (of_char c - 65 + 10))
      else Inl (RuntimeError ''invalid hex character''))"

definition const_hex_nibble :: "char \<Rightarrow> u8 result" where
  "const_hex_nibble c =
     (if CHR ''0'' \<le> c \<and> c \<le> CHR ''9'' then Inr (word_of_nat (of_char c - 48))
      else if CHR ''a'' \<le> c \<and> c \<le> CHR ''f'' then Inr (word_of_nat (of_char c - 97 + 10))
      else if CHR ''A'' \<le> c \<and> c \<le> CHR ''F'' then Inr (word_of_nat (of_char c - 65 + 10))
      else Inl (LiteralThrown ''invalid hex character''))"

subsection \<open>Byte strings from hexadecimal text\<close>

text \<open>
  The loop shared by the byte parsers: \<open>n\<close> bytes, each from two digits,
  \<open>(nibble(s[2i]) << 4) | nibble(s[2i+1])\<close>.  The callers guarantee that the text holds
  \<open>2 * n\<close> characters, so the last equation is never reached from them.
\<close>

fun hex_pairs :: "(char \<Rightarrow> u8 result) \<Rightarrow> nat \<Rightarrow> string \<Rightarrow> bytes result" where
  "hex_pairs nib 0 cs = Inr []"
| "hex_pairs nib (Suc n) (h # l # cs) =
     bindE (nib h) (\<lambda>hi. bindE (nib l) (\<lambda>lo.
       bindE (hex_pairs nib n cs) (\<lambda>bs. Inr ((push_bit 4 hi OR lo) # bs))))"
| "hex_pairs nib (Suc n) cs = Inr []"

definition parse_topic_literal :: "string \<Rightarrow> bytes result" where
  "parse_topic_literal s =
     (if length s \<noteq> 66 then
        Inl (LiteralThrown ''Topic literal must be exactly 66 characters long (plus null terminator)'')
      else if s ! 0 \<noteq> CHR ''0'' \<or> s ! 1 \<noteq> CHR ''x'' then
        Inl (LiteralThrown ''Topic literal must start with 0x'')
      else hex_pairs const_hex_nibble 32 (drop 2 s))"

definition parse_hex_bytes :: "nat \<Rightarrow> string \<Rightarrow> bytes \<Rightarrow> bytes result" where
  "parse_hex_bytes N hex out =
     (if length hex < 2 \<or> take 2 hex \<noteq> ''0x'' then Inl (RuntimeError ''invalid hex bytes'')
      else if (length hex - 2) mod 2 \<noteq> 0 then Inl (RuntimeError ''hex string has odd length'')
      else let hex_len = length hex - 2; byte_len = min (hex_len div 2) N in
        bindE (hex_pairs hex_nibble byte_len (drop 2 hex)) (\<lambda>bs. Inr (bs @ drop byte_len out)))"

primrec check_nibbles :: "string \<Rightarrow> unit result" where
  "check_nibbles [] = Inr ()"
| "check_nibbles (c # cs) = bindE (hex_nibble c) (\<lambda>_. check_nibbles cs)"

definition validate_hex :: "string \<Rightarrow> unit result" where
  "validate_hex hex =
     (if length hex < 2 \<or> take 2 hex \<noteq> ''0x'' then
        Inl (RuntimeError ''Expected 0x-prefixed hex string'')
      else if (length hex - 2) mod 2 \<noteq> 0 then Inl (RuntimeError ''Hex string has odd length'')
      else check_nibbles (drop 2 hex))"

subsection \<open>64-bit quantities\<close>

primrec parse_hex_u64_loop :: "u64 \<Rightarrow> string \<Rightarrow> u64 result" where
  "parse_hex_u64_loop val [] = Inr val"
| "parse_hex_u64_loop val (c # cs) =
     bindE (hex_nibble c) (\<lambda>n. parse_hex_u64_loop (push_bit 4 val OR ucast n) cs)"

definition parse_hex_uint64 :: "string \<Rightarrow> u64 result" where
  "parse_hex_uint64 hex =
     (if length hex < 3 \<or> take 2 hex \<noteq> ''0x'' then Inl (RuntimeError ''invalid hex uint64'')
      else parse_hex_u64_loop 0 (drop 2 hex))"

definition hex_char :: "nat \<Rightarrow> char" where
  "hex_char d = char_of (if d < 10 then 48 + d else 87 + d)"

fun hex_digits :: "nat \<Rightarrow> string" where
  "hex_digits n =
     (if n < 16 then [hex_char n] else hex_digits (n div 16) @ [hex_char (n mod 16)])"

declare hex_digits.simps [simp del]

text \<open>\<open>std::format("{:#x}", value)\<close>: lower case, no padding.\<close>

definition to_hex_quantity :: "u64 \<Rightarrow> string" where
  "to_hex_quantity value = ''0x'' @ hex_digits (unat value)"

text \<open>\<open>snprintf(buf, 3, "%02x", b)\<close>, and the loop that renders an address with it.\<close>

definition hex_byte :: "u8 \<Rightarrow> string" where
  "hex_byte b = [hex_char (unat b div 16), hex_char (unat b mod 16)]"

definition bytes_to_hex :: "bytes \<Rightarrow> string" where
  "bytes_to_hex bs = concat (map hex_byte bs)"

definition address_to_hex :: "bytes \<Rightarrow> string" where
  "address_to_hex bs = ''0x'' @ bytes_to_hex bs"

text \<open>\<open>::tolower\<close> of the C locale, applied to a whole string.\<close>

definition tolower :: "char \<Rightarrow> char" where
  "tolower c = (if CHR ''A'' \<le> c \<and> c \<le> CHR ''Z'' then char_of (of_char c + 32 :: nat) else c)"

definition lower :: "string \<Rightarrow> string" where
  "lower s = map tolower s"

subsection \<open>256-bit big-endian values\<close>

definition to_be_256 :: "u64 \<Rightarrow> bytes" where
  "to_be_256 value =
     foldl (\<lambda>result i. result[31 - i := ucast (drop_bit (i * 8) value AND 0xFF)])
       (replicate 32 0) [0..<8]"

fun memcmp :: "bytes \<Rightarrow> bytes \<Rightarrow> nat \<Rightarrow> int" where
  "memcmp (a # as) (b # bs) (Suc n) =
     (if a < b then -1 else if b < a then 1 else memcmp as bs n)"
| "memcmp as bs n = 0"

definition greater_be_256 :: "bytes \<Rightarrow> bytes \<Rightarrow> bool" where
  "greater_be_256 lhs rhs \<longleftrightarrow> memcmp lhs rhs 32 > 0"

text \<open>One pass of the division loop: the buffer divided by ten, most significant byte first.\<close>

fun div10_pass :: "u32 \<Rightarrow> bytes \<Rightarrow> bytes \<times> u32" where
  "div10_pass rem [] = ([], rem)"
| "div10_pass rem (b # bs) =
     (let num = push_bit 8 rem OR ucast b;
          rest = div10_pass (num mod 10) bs
      in (ucast (num div 10) # fst rest, snd rest))"

text \<open>One pass of \<open>result = result * 10 + digit\<close>, least significant byte first.\<close>

fun mul10_pass :: "bytes \<Rightarrow> u32 \<Rightarrow> bytes \<times> u32" where
  "mul10_pass [] carry = ([], carry)"
| "mul10_pass (b # bs) carry =
     (let rest = mul10_pass bs carry;
          val = ucast b * 10 + snd rest
      in (ucast (val AND 0xFF) # fst rest, drop_bit 8 val))"

primrec decimal_loop :: "bytes \<Rightarrow> string \<Rightarrow> bytes result" where
  "decimal_loop result [] = Inr result"
| "decimal_loop result (c # cs) =
     (if c < CHR ''0'' \<or> CHR ''9'' < c then Inl (RuntimeError ''invalid decimal digit'')
      else let digit = word_of_nat (of_char c - 48);
               pass = mul10_pass result digit
           in if 0 < snd pass
              then Inl (RuntimeError ''decimal string too large for 256-bit int'')
              else decimal_loop (fst pass) cs)"

definition decimal_to_be_256 :: "string \<Rightarrow> bytes result" where
  "decimal_to_be_256 decimal = decimal_loop (replicate 32 0) decimal"

text \<open>The loop \<open>v = (v << 8) | b\<close> that reads a big-endian \<open>uint64_t\<close>.\<close>

definition be_u64 :: "bytes \<Rightarrow> u64" where
  "be_u64 bs = foldl (\<lambda>v b. push_bit 8 v OR ucast b) 0 bs"

section \<open>Word arithmetic of the loops\<close>

lemma shift_or_eq:
  fixes w b :: "'a::len word"
  assumes "unat b < 2 ^ k"
  shows "push_bit k w OR b = w * 2 ^ k + b"
proof -
  have b: "take_bit k b = b"
  proof (rule word_unat_eq_iff [THEN iffD2])
    show "unat (take_bit k b) = unat b"
      using assms by (simp add: unsigned_take_bit_eq take_bit_nat_eq_self_iff)
  qed
  have "push_bit k w AND take_bit k b = 0"
    by (rule bit_word_eqI) (simp add: bit_simps)
  with b have "push_bit k w AND b = 0" by simp
  then have "push_bit k w + b = push_bit k w OR b"
    by (rule disjunctive_add_eq_or)
  then show ?thesis by (simp add: push_bit_eq_mult)
qed

lemma unat_ucast_u8_u32 [simp]: "unat (ucast (b :: u8) :: u32) = unat b"
  by (simp add: unsigned_ucast_eq take_bit_nat_eq_self_iff less_trans [OF unat_u8_less])

lemma unat_ucast_u8_u64 [simp]: "unat (ucast (b :: u8) :: u64) = unat b"
  by (simp add: unsigned_ucast_eq take_bit_nat_eq_self_iff less_trans [OF unat_u8_less])

lemma unat_ucast_to_u8: "unat (ucast (w :: u32) :: u8) = unat w mod 256"
  by (simp add: unsigned_ucast_eq take_bit_eq_mod)

lemma div10_step:
  fixes rem :: u32 and b :: u8
  assumes "unat rem < 10"
  defines "num \<equiv> push_bit 8 rem OR ucast b"
  shows "unat num = unat rem * 256 + unat b"
    and "unat (ucast (num div 10) :: u8) = (unat rem * 256 + unat b) div 10"
    and "unat (num mod 10) = (unat rem * 256 + unat b) mod 10"
proof -
  have num: "num = rem * 2 ^ 8 + ucast b"
    unfolding num_def using unat_u8_less [of b] by (intro shift_or_eq) simp
  have bnd: "unat rem * 256 + unat b < 2560"
    using assms(1) unat_u8_less [of b] by linarith
  show u: "unat num = unat rem * 256 + unat b"
    using bnd by (simp add: num unat_word_ariths)
  show "unat (num mod 10) = (unat rem * 256 + unat b) mod 10"
    by (simp add: unat_mod u)
  show "unat (ucast (num div 10) :: u8) = (unat rem * 256 + unat b) div 10"
    using bnd by (simp add: unat_ucast_to_u8 unat_div u)
qed

lemma mul10_step:
  fixes b :: u8 and c :: u32
  assumes "unat c < 10"
  defines "val \<equiv> ucast b * 10 + c"
  shows "unat val = unat b * 10 + unat c"
    and "unat (ucast (val AND 0xFF) :: u8) = (unat b * 10 + unat c) mod 256"
    and "unat (drop_bit 8 val) = (unat b * 10 + unat c) div 256"
    and "unat (drop_bit 8 val) < 10"
proof -
  have bnd: "unat b * 10 + unat c < 2560"
    using assms(1) unat_u8_less [of b] by linarith
  show u: "unat val = unat b * 10 + unat c"
    using bnd by (simp add: val_def unat_word_ariths)
  have "val AND 0xFF = take_bit 8 val"
    by (simp add: take_bit_eq_mask mask_eq_exp_minus_1)
  then show "unat (ucast (val AND 0xFF) :: u8) = (unat b * 10 + unat c) mod 256"
    by (simp add: unat_ucast_to_u8 take_bit_eq_mod unat_mod u)
  show d: "unat (drop_bit 8 val) = (unat b * 10 + unat c) div 256"
    by (simp add: drop_bit_eq_div unat_div u)
  show "unat (drop_bit 8 val) < 10"
    unfolding d using bnd by linarith
qed

lemma scaled_div_mod: "n * p = d * (n div d * p) + (n mod d) * (p :: nat)"
proof -
  have "n * p = (d * (n div d) + n mod d) * p" by (simp only: mult_div_mod_eq)
  then show ?thesis by (simp only: add_mult_distrib mult.assoc)
qed

lemma div10_pass_spec:
  assumes "unat rem < 10"
  shows "be_value (fst (div10_pass rem bs)) = (unat rem * 256 ^ length bs + be_value bs) div 10
    \<and> unat (snd (div10_pass rem bs)) = (unat rem * 256 ^ length bs + be_value bs) mod 10
    \<and> length (fst (div10_pass rem bs)) = length bs"
  using assms
proof (induction bs arbitrary: rem)
  case Nil
  then show ?case by simp
next
  case (Cons b bs)
  define num where "num = push_bit 8 rem OR ucast b"
  define n where "n = unat rem * 256 + unat b"
  let ?p = "256 ^ length bs :: nat"
  note step = div10_step [OF Cons.prems, of b, folded num_def n_def]
  have r: "unat (num mod 10) < 10" by (simp add: step)
  note IH = Cons.IH [OF r]
  have "unat rem * 256 ^ length (b # bs) + be_value (b # bs) = n * ?p + be_value bs"
    by (simp add: n_def be_value_Cons algebra_simps)
  also have "n * ?p = 10 * (n div 10 * ?p) + (n mod 10) * ?p"
    by (rule scaled_div_mod)
  finally have split: "unat rem * 256 ^ length (b # bs) + be_value (b # bs)
      = 10 * (n div 10 * ?p) + ((n mod 10) * ?p + be_value bs)"
    by (simp only: add.assoc)
  show ?case
    unfolding split using IH by (simp add: Let_def be_value_Cons step flip: num_def)
qed

lemmas div10_pass_correct =
  div10_pass_spec [THEN conjunct1] div10_pass_spec [THEN conjunct2, THEN conjunct1]
  div10_pass_spec [THEN conjunct2, THEN conjunct2]

lemma mul10_pass_spec:
  assumes "unat carry < 10"
  shows "unat (snd (mul10_pass bs carry)) * 256 ^ length bs + be_value (fst (mul10_pass bs carry))
      = be_value bs * 10 + unat carry
    \<and> unat (snd (mul10_pass bs carry)) < 10
    \<and> length (fst (mul10_pass bs carry)) = length bs"
proof (induction bs)
  case Nil
  show ?case using assms by simp
next
  case (Cons b bs)
  define c where "c = snd (mul10_pass bs carry)"
  define val where "val = ucast b * 10 + c"
  define n where "n = unat b * 10 + unat c"
  let ?p = "256 ^ length bs :: nat"
  note IH = Cons.IH [folded c_def]
  note step = mul10_step [OF IH [THEN conjunct2, THEN conjunct1], of b, folded val_def n_def]
  have "unat (drop_bit 8 val) * 256 ^ length (b # bs)
      + be_value (ucast (val AND 0xFF) # fst (mul10_pass bs carry))
      = 256 * (n div 256 * ?p) + (n mod 256) * ?p + be_value (fst (mul10_pass bs carry))"
    using IH by (simp add: be_value_Cons step)
  also have "\<dots> = n * ?p + be_value (fst (mul10_pass bs carry))"
    by (simp only: scaled_div_mod [of n ?p 256])
  also have "\<dots> = be_value (b # bs) * 10 + unat carry"
    using IH by (simp add: n_def be_value_Cons algebra_simps)
  finally show ?case
    using step(4) IH by (simp add: Let_def flip: c_def val_def)
qed

lemmas mul10_pass_correct =
  mul10_pass_spec [THEN conjunct1] mul10_pass_spec [THEN conjunct2, THEN conjunct1]
  mul10_pass_spec [THEN conjunct2, THEN conjunct2]

section \<open>Decimal printing\<close>

text \<open>
  The \<open>while (!is_zero)\<close> loop of \<open>uint256_be_to_decimal\<close>, least significant digit first; it
  ends because each pass divides the denoted number by ten.
\<close>

function decimal_passes :: "bytes \<Rightarrow> string" where
  "decimal_passes buffer =
     (let pass = div10_pass 0 buffer;
          digit = char_of (48 + unat (snd pass))
      in if \<forall>b\<in>set (fst pass). b = 0 then [digit] else digit # decimal_passes (fst pass))"
  by pat_completeness auto
termination
proof (relation "measure be_value", goal_cases)
  case (2 buffer pass digit)
  have "be_value pass1 = be_value buffer div 10" if "pass1 = fst (div10_pass 0 buffer)" for pass1
    using div10_pass_correct(1) [of 0 buffer] that by simp
  with 2 have "be_value buffer div 10 \<noteq> 0"
    using be_value_zero_iff [of "fst pass"] by auto
  then have "be_value buffer div 10 < be_value buffer" by simp
  with 2 div10_pass_correct(1) [of 0 buffer] show ?case by simp
qed simp

declare decimal_passes.simps [simp del]

definition uint256_be_to_decimal :: "bytes \<Rightarrow> string" where
  "uint256_be_to_decimal data =
     (let buffer = take 32 data in
      if \<forall>b\<in>set buffer. b = 0 then ''0'' else rev (decimal_passes buffer))"

lemma decimal_passes_correct: "rev (decimal_passes buffer) = dec_digits (be_value buffer)"
proof (induction buffer rule: decimal_passes.induct)
  case (1 buffer)
  define bs where "bs = fst (div10_pass 0 buffer)"
  define r where "r = unat (snd (div10_pass 0 buffer))"
  have bs: "be_value bs = be_value buffer div 10" and r: "r = be_value buffer mod 10"
    using div10_pass_correct [of 0 buffer] by (simp_all add: bs_def r_def)
  show ?case
  proof (cases "\<forall>b\<in>set bs. b = 0")
    case True
    then have "be_value buffer div 10 = 0" using bs be_value_zero_iff [of bs] by simp
    then have "be_value buffer < 10" by simp
    with True r show ?thesis
      by (simp add: decimal_passes.simps [of buffer] dec_digits.simps [of "be_value buffer"]
          Let_def digit_char_def flip: bs_def r_def)
  next
    case False
    then have nz: "\<not> be_value buffer < 10" using bs be_value_zero_iff [of bs] by auto
    have "rev (decimal_passes bs) = dec_digits (be_value buffer div 10)"
      using "1.IH" [OF refl refl] False bs by (simp add: bs_def)
    with False nz r show ?thesis
      by (simp add: decimal_passes.simps [of buffer] dec_digits.simps [of "be_value buffer"]
          Let_def digit_char_def flip: bs_def r_def)
  qed
qed

lemma uint256_be_to_decimal_eq:
  "uint256_be_to_decimal data = dec_digits (be_value (take 32 data))"
proof (cases "\<forall>b\<in>set (take 32 data). b = 0")
  case True
  then have "be_value (take 32 data) = 0" by (simp add: be_value_zero_iff)
  moreover have "digit_char 0 = CHR ''0''" by code_simp
  ultimately show ?thesis
    using True by (simp add: uint256_be_to_decimal_def Let_def dec_digits.simps [of 0])
next
  case False
  then show ?thesis
    by (auto simp: uint256_be_to_decimal_def Let_def decimal_passes_correct)
qed

section \<open>Comparison\<close>

lemma memcmp_be_value:
  assumes "n \<le> length as" and "n \<le> length bs"
  shows "0 < memcmp as bs n \<longleftrightarrow> be_value (take n bs) < be_value (take n as)"
  using assms
proof (induction as bs n rule: memcmp.induct)
  case (1 a as b bs n)
  then have len: "length (take n as) = length (take n bs)" by simp
  show ?case
    using 1 be_value_less_iff [OF len [symmetric], of b a] by (auto simp: linorder_neq_iff)
qed auto

lemma greater_be_256_iff:
  "32 \<le> length lhs \<Longrightarrow> 32 \<le> length rhs \<Longrightarrow>
   greater_be_256 lhs rhs \<longleftrightarrow> be_value (take 32 rhs) < be_value (take 32 lhs)"
  by (simp add: greater_be_256_def memcmp_be_value)

section \<open>Decimal parsing\<close>

lemma dec_value_Cons: "dec_value (c # cs) = digit_val c * 10 ^ length cs + dec_value cs"
  using dec_value_append [of "[c]" cs] by (simp add: dec_value_def)

lemma not_digit_iff: "(c < CHR ''0'' \<or> CHR ''9'' < c) \<longleftrightarrow> \<not> is_dec_digit c"
  by (auto simp: is_dec_digit_def not_le)

lemma unat_digit: "is_dec_digit c \<Longrightarrow> unat (word_of_nat (of_char c - 48) :: u32) = digit_val c"
  by (auto simp: is_dec_digit_nat digit_val_def unsigned_of_nat take_bit_eq_mod simp del: of_nat_diff)

lemma decimal_step:
  fixes result :: bytes
  assumes d: "is_dec_digit c" and pass: "pass = mul10_pass result (word_of_nat (of_char c - 48))"
  shows "snd pass = 0 \<longleftrightarrow> be_value result * 10 + digit_val c < 256 ^ length result"
    and "snd pass = 0 \<Longrightarrow> be_value (fst pass) = be_value result * 10 + digit_val c"
    and "length (fst pass) = length result"
proof -
  have lt: "unat (word_of_nat (of_char c - 48) :: u32) < 10"
    using d by (simp add: unat_digit digit_val_less)
  note spec = mul10_pass_spec [OF lt, of result, folded pass, unfolded unat_digit [OF d]]
  show len: "length (fst pass) = length result" using spec by simp
  show eq: "be_value (fst pass) = be_value result * 10 + digit_val c" if "snd pass = 0"
    using that spec by simp
  show "snd pass = 0 \<longleftrightarrow> be_value result * 10 + digit_val c < 256 ^ length result"
  proof
    assume "snd pass = 0"
    then show "be_value result * 10 + digit_val c < 256 ^ length result"
      using eq be_value_bound [of "fst pass"] len by simp
  next
    assume small: "be_value result * 10 + digit_val c < 256 ^ length result"
    show "snd pass = 0"
    proof (rule ccontr)
      assume "snd pass \<noteq> 0"
      then have "1 * 256 ^ length result \<le> unat (snd pass) * 256 ^ length result"
        by (intro mult_right_mono) (simp_all add: Suc_le_eq unat_gt_0)
      with spec small show False by simp
    qed
  qed
qed

lemma decimal_loop_iff:
  "decimal_loop result s = Inr r \<longleftrightarrow>
     (\<forall>c\<in>set s. is_dec_digit c) \<and> length r = length result \<and>
     be_value r = be_value result * 10 ^ length s + dec_value s"
proof (induction s arbitrary: result)
  case Nil
  show ?case by (auto simp: be_value_inj)
next
  case (Cons c cs)
  show ?case
  proof (cases "is_dec_digit c")
    case False
    then show ?thesis by (simp add: not_digit_iff)
  next
    case True
    define pass where "pass = mul10_pass result (word_of_nat (of_char c - 48) :: u32)"
    note step = decimal_step [OF True pass_def]
    have val: "be_value result * 10 ^ length (c # cs) + dec_value (c # cs)
        = (be_value result * 10 + digit_val c) * 10 ^ length cs + dec_value cs"
      by (simp add: dec_value_Cons algebra_simps)
    show ?thesis
    proof (cases "snd pass = 0")
      case True
      have "decimal_loop result (c # cs) = decimal_loop (fst pass) cs"
        using \<open>is_dec_digit c\<close> True by (simp add: not_digit_iff Let_def flip: pass_def)
      with \<open>is_dec_digit c\<close> show ?thesis
        unfolding val by (simp add: Cons.IH step(2) [OF True] step(3))
    next
      case False
      have "be_value r \<noteq> be_value result * 10 ^ length (c # cs) + dec_value (c # cs)"
        if "length r = length result"
      proof -
        have "256 ^ length result \<le> be_value result * 10 + digit_val c"
          using step(1) False by simp
        also have "\<dots> \<le> (be_value result * 10 + digit_val c) * 10 ^ length cs" by simp
        finally show ?thesis
          unfolding val using be_value_bound [of r] that by simp
      qed
      with False \<open>is_dec_digit c\<close> show ?thesis
        by (auto simp: not_digit_iff Let_def word_greater_zero_iff simp flip: pass_def)
    qed
  qed
qed

lemma decimal_to_be_256_iff:
  "decimal_to_be_256 s = Inr r \<longleftrightarrow>
     (\<forall>c\<in>set s. is_dec_digit c) \<and> length r = 32 \<and> be_value r = dec_value s"
  by (simp add: decimal_to_be_256_def decimal_loop_iff)

lemma be_value_surj:
  "n < 256 ^ k \<Longrightarrow> \<exists>bs. length bs = k \<and> be_value bs = n"
proof (induction k arbitrary: n)
  case 0
  then show ?case by simp
next
  case (Suc k)
  have "n div 256 < 256 ^ k" using Suc.prems by (simp add: less_mult_imp_div_less mult.commute)
  then obtain bs where bs: "length bs = k" "be_value bs = n div 256" using Suc.IH by blast
  have "be_value (bs @ [word_of_nat (n mod 256)]) = n"
    by (simp add: be_value_snoc bs unsigned_of_nat take_bit_eq_mod)
  with bs show ?case by (intro exI [of _ "bs @ [word_of_nat (n mod 256)]"]) simp
qed

lemma decimal_to_be_256_total:
  "(\<exists>r. decimal_to_be_256 s = Inr r) \<longleftrightarrow> (\<forall>c\<in>set s. is_dec_digit c) \<and> dec_value s < 2 ^ 256"
proof
  assume "\<exists>r. decimal_to_be_256 s = Inr r"
  then obtain r where r: "\<forall>c\<in>set s. is_dec_digit c" "length r = 32" "be_value r = dec_value s"
    by (auto simp: decimal_to_be_256_iff)
  with be_value_bound [of r] show "(\<forall>c\<in>set s. is_dec_digit c) \<and> dec_value s < 2 ^ 256" by simp
next
  assume "(\<forall>c\<in>set s. is_dec_digit c) \<and> dec_value s < 2 ^ 256"
  with be_value_surj [of "dec_value s" 32] show "\<exists>r. decimal_to_be_256 s = Inr r"
    by (auto simp: decimal_to_be_256_iff)
qed

lemma decimal_round_trip:
  assumes "length bs = 32"
  shows "decimal_to_be_256 (uint256_be_to_decimal bs) = Inr bs"
  using assms by (auto simp: decimal_to_be_256_iff uint256_be_to_decimal_eq dest: dec_digits_digits)

section \<open>Hexadecimal text\<close>

definition is_hex_digit :: "char \<Rightarrow> bool" where
  "is_hex_digit c \<longleftrightarrow> (case hex_nibble c of Inl e \<Rightarrow> False | Inr n \<Rightarrow> True)"

definition nibble_val :: "char \<Rightarrow> nat" where
  "nibble_val c = (case hex_nibble c of Inl e \<Rightarrow> 0 | Inr n \<Rightarrow> unat n)"

definition hex_value :: "string \<Rightarrow> nat" where
  "hex_value s = foldl (\<lambda>v c. v * 16 + nibble_val c) 0 s"

lemma hex_nibble_cases:
  obtains (digit) n where "hex_nibble c = Inr n" "unat n < 16" "hex_char (unat n) = tolower c"
  | (other) "hex_nibble c = Inl (RuntimeError ''invalid hex character'')"
proof -
  define m :: nat where "m = of_char c"
  have c: "c = char_of m" by (simp add: m_def)
  consider "48 \<le> m" "m \<le> 57" | "97 \<le> m" "m \<le> 102" | "65 \<le> m" "m \<le> 70"
    | "\<not> (48 \<le> m \<and> m \<le> 57)" "\<not> (97 \<le> m \<and> m \<le> 102)" "\<not> (65 \<le> m \<and> m \<le> 70)"
    by blast
  then show thesis
  proof cases
    case 1
    then show thesis
      by (intro digit [of "word_of_nat (m - 48)"])
         (auto simp: hex_nibble_def less_eq_char_def unsigned_of_nat take_bit_eq_mod hex_char_def
            tolower_def c simp del: of_nat_diff simp flip: m_def)
  next
    case 2
    then show thesis
      by (intro digit [of "word_of_nat (m - 97 + 10)"])
         (auto simp: hex_nibble_def less_eq_char_def unsigned_of_nat take_bit_eq_mod hex_char_def
            tolower_def c simp del: of_nat_diff of_nat_add simp flip: m_def)
  next
    case 3
    then show thesis
      by (intro digit [of "word_of_nat (m - 65 + 10)"])
         (auto simp: hex_nibble_def less_eq_char_def unsigned_of_nat take_bit_eq_mod hex_char_def
            tolower_def c simp del: of_nat_diff of_nat_add simp flip: m_def)
  next
    case 4
    then show thesis
      by (intro other) (auto simp: hex_nibble_def less_eq_char_def simp flip: m_def)
  qed
qed

lemma hex_char_facts:
  assumes "d < 16"
  shows "hex_nibble (hex_char d) = Inr (word_of_nat d)" and "tolower (hex_char d) = hex_char d"
    and "unat (word_of_nat d :: u8) = d"
proof -
  have c: "(of_char (hex_char d) :: nat) = (if d < 10 then 48 + d else 87 + d)"
    using assms by (simp add: hex_char_def)
  show "hex_nibble (hex_char d) = Inr (word_of_nat d)"
    using assms by (auto simp: hex_nibble_def less_eq_char_def c)
  show "tolower (hex_char d) = hex_char d"
    by (auto simp: tolower_def less_eq_char_def c)
  show "unat (word_of_nat d :: u8) = d"
    using assms by (simp add: unsigned_of_nat take_bit_eq_mod)
qed

lemma is_hex_digit_ex: "is_hex_digit c \<longleftrightarrow> (\<exists>n. hex_nibble c = Inr n)"
  by (simp add: is_hex_digit_def split: sum.splits)

lemma is_hex_digit_iff:
  "is_hex_digit c \<longleftrightarrow> hex_nibble c = Inr (word_of_nat (nibble_val c))"
  by (cases c rule: hex_nibble_cases) (auto simp: is_hex_digit_ex nibble_val_def)

lemma nibble_val_less: "nibble_val c < 16"
  by (cases c rule: hex_nibble_cases) (auto simp: nibble_val_def)

lemma hex_char_nibble_val: "is_hex_digit c \<Longrightarrow> hex_char (nibble_val c) = tolower c"
  by (cases c rule: hex_nibble_cases) (auto simp: nibble_val_def is_hex_digit_ex)

lemma hex_char_digit [simp]:
  assumes "d < 16"
  shows "is_hex_digit (hex_char d)" and "nibble_val (hex_char d) = d"
  using hex_char_facts [OF assms] by (auto simp: is_hex_digit_ex nibble_val_def)

lemma hex_nibble_error: "\<not> is_hex_digit c \<Longrightarrow> hex_nibble c = Inl (RuntimeError ''invalid hex character'')"
  by (cases c rule: hex_nibble_cases) (auto simp: is_hex_digit_ex)

subsection \<open>Quantities\<close>

lemma hex_value_Nil [simp]: "hex_value [] = 0"
  by (simp add: hex_value_def)

lemma hex_value_snoc: "hex_value (s @ [c]) = hex_value s * 16 + nibble_val c"
  by (simp add: hex_value_def)

lemma u64_shift_nibble:
  assumes "d < 16"
  shows "push_bit 4 val OR ucast (word_of_nat d :: u8) = val * 16 + (word_of_nat d :: u64)"
proof -
  have d: "(ucast (word_of_nat d :: u8) :: u64) = word_of_nat d"
    using assms by (simp add: word_unat_eq_iff unsigned_of_nat take_bit_eq_mod)
  have "unat (word_of_nat d :: u64) < 2 ^ 4"
    using assms by (simp add: unsigned_of_nat take_bit_eq_mod)
  from shift_or_eq [OF this, of val] show ?thesis unfolding d by simp
qed

lemma parse_hex_u64_loop_correct:
  "parse_hex_u64_loop val cs =
     (if \<forall>c\<in>set cs. is_hex_digit c
      then Inr (word_of_nat (foldl (\<lambda>v c. v * 16 + nibble_val c) (unat val) cs))
      else Inl (RuntimeError ''invalid hex character''))"
proof (induction cs arbitrary: val)
  case Nil
  show ?case by simp
next
  case (Cons c cs)
  show ?case
  proof (cases "is_hex_digit c")
    case False
    then show ?thesis by (simp add: hex_nibble_error)
  next
    case True
    let ?v = "val * 16 + word_of_nat (nibble_val c) :: u64"
    have shift: "push_bit 4 val OR ucast (word_of_nat (nibble_val c) :: u8) = ?v"
      by (rule u64_shift_nibble [OF nibble_val_less])
    have fold_mod: "(word_of_nat (foldl (\<lambda>v c. v * 16 + nibble_val c) a ds) :: u64)
        = word_of_nat (foldl (\<lambda>v c. v * 16 + nibble_val c) b ds)"
      if "(word_of_nat a :: u64) = word_of_nat b" for a b ds
      using that by (induction ds arbitrary: a b) simp_all
    have "(word_of_nat (unat ?v) :: u64) = word_of_nat (unat val * 16 + nibble_val c)"
      by simp
    from fold_mod [OF this] True show ?thesis
      by (simp add: is_hex_digit_iff shift Cons.IH)
  qed
qed

lemma parse_hex_uint64_correct:
  assumes "ds \<noteq> []"
  shows "parse_hex_uint64 (''0x'' @ ds) =
     (if \<forall>c\<in>set ds. is_hex_digit c then Inr (word_of_nat (hex_value ds))
      else Inl (RuntimeError ''invalid hex character''))"
  using assms
  by (cases ds) (simp_all add: parse_hex_uint64_def parse_hex_u64_loop_correct hex_value_def)

lemma hex_digits_digits: "c \<in> set (hex_digits n) \<Longrightarrow> is_hex_digit c"
proof (induction n rule: hex_digits.induct)
  case (1 n)
  then show ?case
    by (cases "n < 16") (auto simp: hex_digits.simps [of n])
qed

lemma hex_value_digits [simp]: "hex_value (hex_digits n) = n"
proof (induction n rule: hex_digits.induct)
  case (1 n)
  then show ?case
    by (cases "n < 16")
       (simp_all add: hex_digits.simps [of n] hex_value_snoc hex_value_snoc [of "[]", simplified])
qed

lemma hex_digits_nonempty [simp]: "hex_digits n \<noteq> []"
  by (subst hex_digits.simps) simp

lemma hex_quantity_round_trip: "parse_hex_uint64 (to_hex_quantity v) = Inr v"
  using parse_hex_uint64_correct [of "hex_digits (unat v)"] hex_digits_digits
  by (auto simp: to_hex_quantity_def)

subsection \<open>Byte strings\<close>

text \<open>The bytes that a text of hexadecimal digit pairs denotes.\<close>

fun pair_bytes :: "string \<Rightarrow> bytes" where
  "pair_bytes (h # l # cs) = word_of_nat (nibble_val h * 16 + nibble_val l) # pair_bytes cs"
| "pair_bytes _ = []"

lemma nibble_pair:
  assumes "a < 16" and "b < 16"
  shows "push_bit 4 (word_of_nat a) OR word_of_nat b = (word_of_nat (a * 16 + b) :: u8)"
proof -
  have "unat (word_of_nat b :: u8) < 2 ^ 4" using assms(2) by (simp add: hex_char_facts)
  from shift_or_eq [OF this] show ?thesis by simp
qed

lemma length_pair_bytes: "length (pair_bytes cs) = length cs div 2"
  by (induction cs rule: pair_bytes.induct) auto

lemma hex_pairs_correct:
  "2 * n \<le> length cs \<Longrightarrow> hex_pairs hex_nibble n cs =
     (if \<forall>c\<in>set (take (2 * n) cs). is_hex_digit c then Inr (pair_bytes (take (2 * n) cs))
      else Inl (RuntimeError ''invalid hex character''))"
proof (induction hex_nibble n cs rule: hex_pairs.induct)
  case (2 n h l cs)
  show ?case
  proof (cases "is_hex_digit h \<and> is_hex_digit l")
    case True
    with 2 show ?thesis
      by (auto simp: is_hex_digit_iff nibble_pair nibble_val_less)
  next
    case False
    then show ?thesis
      by (cases "is_hex_digit h") (auto simp: hex_nibble_error is_hex_digit_iff)
  qed
qed auto

lemma parse_hex_bytes_correct:
  assumes "even (length ds)"
  shows "parse_hex_bytes N (''0x'' @ ds) out =
     (if \<forall>c\<in>set (take (2 * N) ds). is_hex_digit c
      then Inr (pair_bytes (take (2 * N) ds) @ drop (min (length ds div 2) N) out)
      else Inl (RuntimeError ''invalid hex character''))"
proof -
  define k where "k = min (length ds div 2) N"
  have k2: "2 * k \<le> length ds" by (simp add: k_def)
  have "take (2 * k) ds = take (2 * N) ds"
  proof (cases "length ds div 2 \<le> N")
    case True
    then have "2 * k = length ds" "length ds \<le> 2 * N"
      using assms by (auto simp: k_def min_def)
    then show ?thesis by simp
  next
    case False
    then show ?thesis by (simp add: k_def min_def)
  qed
  moreover have "length ds mod 2 = 0" using assms by presburger
  ultimately show ?thesis
    using hex_pairs_correct [OF k2] by (simp add: parse_hex_bytes_def Let_def flip: k_def)
qed

lemma set_hex_byte: "c \<in> set (hex_byte b) \<Longrightarrow> is_hex_digit c"
  using unat_u8_less [of b] by (auto simp: hex_byte_def)

lemma bytes_to_hex_digits: "c \<in> set (bytes_to_hex bs) \<Longrightarrow> is_hex_digit c"
  by (auto simp: bytes_to_hex_def dest: set_hex_byte)

lemma length_bytes_to_hex [simp]: "length (bytes_to_hex bs) = 2 * length bs"
  by (induction bs) (simp_all add: bytes_to_hex_def hex_byte_def)

lemma pair_bytes_to_hex [simp]: "pair_bytes (bytes_to_hex bs) = bs"
proof (induction bs)
  case Nil
  show ?case by (simp add: bytes_to_hex_def)
next
  case (Cons b bs)
  have "unat b div 16 < 16" using unat_u8_less [of b] by simp
  with Cons show ?case by (simp add: bytes_to_hex_def hex_byte_def)
qed

lemma bytes_to_hex_pair:
  "even (length cs) \<Longrightarrow> \<forall>c\<in>set cs. is_hex_digit c \<Longrightarrow> bytes_to_hex (pair_bytes cs) = lower cs"
proof (induction cs rule: pair_bytes.induct)
  case (1 h l cs)
  have "nibble_val h * 16 + nibble_val l < 256"
    using nibble_val_less [of h] nibble_val_less [of l] by linarith
  then have "unat (word_of_nat (nibble_val h * 16 + nibble_val l) :: u8)
      = nibble_val h * 16 + nibble_val l"
    by (simp add: unsigned_of_nat take_bit_eq_mod del: of_nat_add of_nat_mult)
  with 1 show ?case
    using nibble_val_less [of l]
    by (simp add: bytes_to_hex_def hex_byte_def lower_def hex_char_nibble_val
        del: of_nat_add of_nat_mult)
qed (simp_all add: bytes_to_hex_def lower_def)

lemma parse_address_to_hex:
  "length bs = N \<Longrightarrow> length out = N \<Longrightarrow> parse_hex_bytes N (address_to_hex bs) out = Inr bs"
  using parse_hex_bytes_correct [of "bytes_to_hex bs" N out]
  by (auto simp: address_to_hex_def dest: bytes_to_hex_digits)

lemma address_to_hex_parse:
  assumes "length s = 2 + 2 * N" and "length out = N" and "parse_hex_bytes N s out = Inr bs"
  shows "address_to_hex bs = lower s" and "length bs = N"
proof -
  obtain ds where s: "s = ''0x'' @ ds"
    using assms(1,3) by (cases s rule: remdups_adj.cases)
      (auto simp: parse_hex_bytes_def split: if_splits)
  have ds: "length ds = 2 * N" "even (length ds)" using assms(1) s by auto
  have hex: "\<forall>c\<in>set ds. is_hex_digit c" and bs: "bs = pair_bytes ds"
    using assms(2,3) parse_hex_bytes_correct [OF ds(2), of N out]
    unfolding s by (auto simp: ds split: if_splits)
  have "lower ''0x'' = ''0x''" by code_simp
  then show "address_to_hex bs = lower s"
    using bytes_to_hex_pair [OF ds(2) hex]
    by (simp add: s bs address_to_hex_def lower_def)
  show "length bs = N" by (simp add: bs length_pair_bytes ds)
qed

lemma lower_address_to_hex: "lower (address_to_hex bs) = address_to_hex bs"
  using address_to_hex_parse(1) [of "address_to_hex bs" "length bs" bs bs]
    parse_address_to_hex [of bs "length bs" bs]
  by (simp add: address_to_hex_def)

lemma address_to_hex_inj [simp]: "address_to_hex as = address_to_hex bs \<longleftrightarrow> as = bs"
  by (metis address_to_hex_def append_eq_append_conv pair_bytes_to_hex)

lemma check_nibbles_correct:
  "check_nibbles cs = (if \<forall>c\<in>set cs. is_hex_digit c then Inr ()
     else Inl (RuntimeError ''invalid hex character''))"
proof (induction cs)
  case Nil
  show ?case by simp
next
  case (Cons c cs)
  then show ?case
    by (cases "is_hex_digit c") (auto simp: hex_nibble_error is_hex_digit_iff)
qed

section \<open>64-bit big-endian values\<close>

lemma unat_be_u64: "length bs \<le> 8 \<Longrightarrow> unat (be_u64 bs) = be_value bs"
proof (induction bs rule: rev_induct)
  case Nil
  show ?case by (simp add: be_u64_def)
next
  case (snoc b bs)
  have "be_value bs < 256 ^ 7"
    using snoc.prems by (intro less_le_trans [OF be_value_bound] power_increasing) simp_all
  then have small: "be_value bs * 256 + unat b < 2 ^ 64"
    using unat_u8_less [of b] by simp
  have b: "unat (ucast b :: u64) < 2 ^ 8" using unat_u8_less [of b] by simp
  have "be_u64 (bs @ [b]) = be_u64 bs * 2 ^ 8 + ucast b"
    using shift_or_eq [OF b] by (simp add: be_u64_def)
  then show ?case
    using snoc small by (simp add: unat_word_ariths be_value_snoc)
qed

lemma to_be_256_eq:
  "to_be_256 v = replicate 24 0 @ map (\<lambda>i. ucast (drop_bit (i * 8) v)) (rev [0..<8])"
proof -
  have cut: "(ucast (w AND 0xFF) :: u8) = ucast w" for w :: u64
  proof -
    have "w AND 0xFF = take_bit 8 w" by (simp add: take_bit_eq_mask mask_eq_exp_minus_1)
    then show ?thesis by (simp only:) (rule bit_word_eqI, simp add: bit_simps)
  qed
  have r: "replicate 32 (0 :: u8) = replicate 24 0 @ [0, 0, 0, 0, 0, 0, 0, 0]"
    by code_simp
  show ?thesis
    unfolding cut to_be_256_def r by (simp add: upt_rec list_update_append)
qed

lemma be_value_digits:
  "be_value (map (\<lambda>i. ucast (drop_bit (i * 8) (v :: u64))) (rev [0..<k])) = unat v mod 256 ^ k"
proof (induction k)
  case 0
  show ?case by simp
next
  case (Suc k)
  have "(unat (ucast (drop_bit (k * 8) v) :: u8)) = unat v div 256 ^ k mod 256"
    by (simp only: unsigned_ucast_eq unat_drop_bit_eq)
       (simp add: take_bit_eq_mod drop_bit_eq_div mult.commute [of k] power_mult)
  with Suc show ?case
    using mod_mult2_eq [of "unat v" "256 ^ k" 256] by (simp add: be_value_Cons mult.commute)
qed

lemma to_be_256_correct: "length (to_be_256 v) = 32" "be_value (to_be_256 v) = unat v"
proof -
  show "length (to_be_256 v) = 32" by (simp add: to_be_256_eq)
  have "unat v < 256 ^ 8" using unsigned_less [of v] by simp
  then show "be_value (to_be_256 v) = unat v"
    by (simp only: to_be_256_eq be_value_append be_value_digits be_value_replicate_0) simp
qed

section \<open>When the parsers succeed\<close>

definition quantity_ok :: "string \<Rightarrow> bool" where
  "quantity_ok s \<longleftrightarrow> 3 \<le> length s \<and> take 2 s = ''0x'' \<and> list_all is_hex_digit (drop 2 s)"

definition hex_bytes_ok :: "nat \<Rightarrow> string \<Rightarrow> bool" where
  "hex_bytes_ok N s \<longleftrightarrow> take 2 s = ''0x'' \<and> even (length s) \<and>
     list_all is_hex_digit (take (2 * N) (drop 2 s))"

definition hex_ok :: "string \<Rightarrow> bool" where
  "hex_ok s \<longleftrightarrow> take 2 s = ''0x'' \<and> even (length s) \<and> list_all is_hex_digit (drop 2 s)"

lemma prefix_0x: "take 2 s = ''0x'' \<Longrightarrow> s = ''0x'' @ drop 2 s \<and> 2 \<le> length s"
  by (metis append_take_drop_id le_add1 length_append length_Cons list.size(3) numeral_2_eq_2)

lemma parse_hex_uint64_eq:
  "parse_hex_uint64 s = Inr v \<longleftrightarrow> quantity_ok s \<and> v = word_of_nat (hex_value (drop 2 s))"
proof (cases "3 \<le> length s \<and> take 2 s = ''0x''")
  case True
  then have s: "s = ''0x'' @ drop 2 s" and ne: "drop 2 s \<noteq> []"
    using prefix_0x [of s] by auto
  then have "parse_hex_uint64 s = (if \<forall>c\<in>set (drop 2 s). is_hex_digit c
      then Inr (word_of_nat (hex_value (drop 2 s))) else Inl (RuntimeError ''invalid hex character''))"
    using parse_hex_uint64_correct [OF ne] by metis
  with True show ?thesis by (auto simp: quantity_ok_def list_all_iff)
next
  case False
  then show ?thesis by (auto simp: parse_hex_uint64_def quantity_ok_def not_le)
qed

lemma parse_hex_bytes_eq:
  "parse_hex_bytes N s out = Inr bs \<longleftrightarrow> hex_bytes_ok N s \<and>
     bs = pair_bytes (take (2 * N) (drop 2 s)) @ drop (min ((length s - 2) div 2) N) out"
proof (cases "take 2 s = ''0x'' \<and> even (length s)")
  case True
  then have s: "s = ''0x'' @ drop 2 s" and even: "even (length (drop 2 s))"
    using prefix_0x [of s] by auto
  have "parse_hex_bytes N s out = parse_hex_bytes N (''0x'' @ drop 2 s) out" using s by simp
  also have "\<dots> = (if \<forall>c\<in>set (take (2 * N) (drop 2 s)). is_hex_digit c
      then Inr (pair_bytes (take (2 * N) (drop 2 s)) @ drop (min ((length s - 2) div 2) N) out)
      else Inl (RuntimeError ''invalid hex character''))"
    using parse_hex_bytes_correct [OF even] by simp
  finally show ?thesis using True by (auto simp: hex_bytes_ok_def list_all_iff)
next
  case False
  then show ?thesis by (auto simp: parse_hex_bytes_def hex_bytes_ok_def Let_def)
qed

lemma validate_hex_eq: "validate_hex s = Inr u \<longleftrightarrow> hex_ok s"
proof (cases "take 2 s = ''0x'' \<and> even (length s)")
  case True
  with prefix_0x [of s] show ?thesis
    by (auto simp: validate_hex_def hex_ok_def check_nibbles_correct list_all_iff)
next
  case False
  then show ?thesis by (auto simp: validate_hex_def hex_ok_def)
qed

lemma hex_ok_bytes_ok: "hex_ok s \<Longrightarrow> hex_bytes_ok N s"
  by (auto simp: hex_ok_def hex_bytes_ok_def list_all_iff dest: in_set_takeD)

lemma parse_hex_bytes_length: "parse_hex_bytes N s out = Inr bs \<Longrightarrow> length out = N \<Longrightarrow> length bs = N"
  by (auto simp: parse_hex_bytes_eq length_pair_bytes hex_bytes_ok_def min_def)

text \<open>With at least \<open>2 * N\<close> digits, nothing of the previous array content survives.\<close>

lemma parse_hex_bytes_full:
  assumes "2 + 2 * N \<le> length s" and "length out = N" and "length out' = N"
  shows "parse_hex_bytes N s out = parse_hex_bytes N s out'"
proof -
  have "drop (min ((length s - 2) div 2) N) out = []" "drop (min ((length s - 2) div 2) N) out' = []"
    using assms by auto
  then show ?thesis by (simp add: parse_hex_bytes_def Let_def)
qed

section \<open>Properties\<close>

text \<open>
  Decimal thresholds are read exactly.  \<open>decimal_to_be_256\<close> succeeds on the digit strings
  whose value is below \<open>2 ^ 256\<close> and on nothing else, and the 32 bytes it returns denote the
  value of the text.
\<close>

theorem threshold_parse_exact:
  "(decimal_to_be_256 s = Inr r \<longleftrightarrow>
      list_all is_dec_digit s \<and> length r = 32 \<and> be_value r = dec_value s) \<and>
   ((\<exists>r. decimal_to_be_256 s = Inr r) \<longleftrightarrow> list_all is_dec_digit s \<and> dec_value s < 2 ^ 256)"
  unfolding decimal_to_be_256_total by (simp add: decimal_to_be_256_iff list_all_iff)

text \<open>
  C38: printing a 256-bit amount by repeated division and parsing it back by repeated
  multiplication is the identity, and the text is the canonical decimal of the amount.
\<close>

theorem amount_print_parse:
  assumes "length bs = 32"
  shows "uint256_be_to_decimal bs = dec_digits (be_value bs) \<and>
     decimal_to_be_256 (uint256_be_to_decimal bs) = Inr bs"
  using assms decimal_round_trip by (simp_all add: uint256_be_to_decimal_eq)

theorem amount_print_parse_witness:
  "decimal_to_be_256 (uint256_be_to_decimal (replicate 30 0 @ [1, 2])) = Inr (replicate 30 0 @ [1, 2])"
  by (rule amount_print_parse [THEN conjunct2]) simp

text \<open>
  JSON-RPC quantities.  \<open>parse_hex_uint64\<close> accepts exactly the \<open>0x\<close>-prefixed non-empty
  hexadecimal texts and returns their value modulo \<open>2 ^ 64\<close> (longer texts wrap silently);
  it inverts \<open>to_hex_quantity\<close>.
\<close>

theorem quantity_parse_exact:
  "(parse_hex_uint64 s = Inr v \<longleftrightarrow> quantity_ok s \<and> unat v = hex_value (drop 2 s) mod 2 ^ 64) \<and>
   parse_hex_uint64 (to_hex_quantity w) = Inr w"
  by (auto simp: parse_hex_uint64_eq hex_quantity_round_trip word_unat_eq_iff unsigned_of_nat
      take_bit_eq_mod)

text \<open>
  Addresses.  Parsing a 42-character address and printing it gives the lower-case text, so
  the string keys built by the configuration loaders and by the rules agree; printing and
  parsing back is the identity.
\<close>

theorem address_parse_print:
  assumes "length s = 42" and "length out = 20" and "parse_hex_bytes 20 s out = Inr bs"
  shows "address_to_hex bs = lower s \<and> length bs = 20 \<and> parse_hex_bytes 20 (address_to_hex bs) out = Inr bs"
  using address_to_hex_parse [of s 20 out bs] parse_address_to_hex [of bs 20 out] assms by simp

theorem address_parse_print_witness:
  "address_to_hex (pair_bytes ''AABBccdd00112233445566778899aAbBcCdDeEfF'') =
     lower ''0xAABBccdd00112233445566778899aAbBcCdDeEfF''"
proof -
  let ?s = "''0xAABBccdd00112233445566778899aAbBcCdDeEfF''"
  have "parse_hex_bytes 20 ?s (replicate 20 0) = Inr (pair_bytes (drop 2 ?s))"
    by code_simp
  from address_parse_print [OF _ _ this] show ?thesis by simp
qed

end
