(* ===== verification/Signal.thy ===== *)
theory Signal
  imports Hex
begin

text \<open>
  The data that flows through the pipeline: the JSON-RPC log as received
  (\<open>events/RawLog.hpp\<close>), the normalized \<open>Signal\<close> with its payload variant
  (\<open>risk/signal.hpp\<close>), and the \<open>Alert\<close> a rule emits (\<open>risk/alert_dispatcher.hpp\<close>).
  A \<open>std::array<uint8_t, N>\<close> is a byte list; the predicate \<open>wf_evm\<close> records the lengths
  the array types fix, and that the fields written by the normalizer agree with them.
\<close>

section \<open>Raw logs\<close>

record RawLog =
  rl_address :: string
  rl_topics :: "string list"
  rl_data :: string
  rl_blockNumber :: string
  rl_transactionHash :: string
  rl_logIndex :: string
  rl_transactionIndex :: string
  rl_removed :: bool

section \<open>Signals\<close>

datatype SignalType =
    ST_Unknown
  | ST_Swap
  | ST_Transfer
  | ST_MintBurn
  | ST_LiquidityChange
  | ST_PriceTick
  | ST_PoolSnapshot
  | ST_Governance
  | ST_Approval
  | ST_OracleUpdate
  | ST_Control

definition SignalTypeCount :: nat where
  "SignalTypeCount = 11"

text \<open>\<open>static_cast<uint8_t>(type)\<close>: the enumerators are numbered in their order.\<close>

primrec type_idx :: "SignalType \<Rightarrow> nat" where
  "type_idx ST_Unknown = 0"
| "type_idx ST_Swap = 1"
| "type_idx ST_Transfer = 2"
| "type_idx ST_MintBurn = 3"
| "type_idx ST_LiquidityChange = 4"
| "type_idx ST_PriceTick = 5"
| "type_idx ST_PoolSnapshot = 6"
| "type_idx ST_Governance = 7"
| "type_idx ST_Approval = 8"
| "type_idx ST_OracleUpdate = 9"
| "type_idx ST_Control = 10"

text \<open>The enumeration order is a linear order, as the C++ comparison of scoped enums is.\<close>

instantiation SignalType :: linorder
begin

definition less_eq_SignalType :: "SignalType \<Rightarrow> SignalType \<Rightarrow> bool" where
  "less_eq_SignalType s t \<longleftrightarrow> type_idx s \<le> type_idx t"

definition less_SignalType :: "SignalType \<Rightarrow> SignalType \<Rightarrow> bool" where
  "less_SignalType s t \<longleftrightarrow> type_idx s < type_idx t"

instance
proof
  fix s t :: SignalType
  assume "s \<le> t" "t \<le> s"
  then have "type_idx s = type_idx t" by (simp add: less_eq_SignalType_def)
  then show "s = t" by (cases s; cases t) simp_all
qed (auto simp: less_eq_SignalType_def less_SignalType_def)

end

record SignalMeta =
  sm_timestamp_ms :: u64
  sm_internal_ingress_time_ms :: u64
  sm_block_number :: "u64 option"
  sm_tx_hash :: "bytes option"
  sm_is_final :: bool
  sm_source_id :: u32

record EvmLogEvent =
  evm_chain_id :: u64
  evm_tx_index :: u32
  evm_log_index :: u32
  evm_removed :: bool
  evm_address :: bytes
  evm_topic_count :: u8
  evm_topics :: "bytes list"
  evm_data_size :: u32
  evm_data :: bytes
  evm_truncated :: bool

datatype GovernanceAction =
    GA_Unknown
  | GA_OwnershipTransferred
  | GA_Paused
  | GA_Unpaused
  | GA_RoleGranted
  | GA_RoleRevoked
  | GA_Upgraded

record GovernanceEvent =
  gov_action :: GovernanceAction
  gov_chain_id :: u64
  gov_contract_address :: bytes

datatype MintBurnDirection = MB_Unknown | MB_Mint | MB_Burn

record MintBurnEvent =
  mb_direction :: MintBurnDirection
  mb_chain_id :: u64
  mb_token_address :: bytes
  mb_amount :: bytes
  mb_from :: bytes
  mb_to :: bytes

record OracleUpdateEvent =
  or_chain_id :: u64
  or_aggregator_address :: bytes
  or_current_answer :: bytes
  or_round_id :: bytes
  or_updated_at :: u64

datatype ControlCommand = Cmd_Stop | Cmd_Sync

datatype SignalPayload =
    P_monostate
  | P_EvmLogEvent EvmLogEvent
  | P_PriceTick u64
  | P_PoolSnapshot "u64 list"
  | P_GovernanceEvent GovernanceEvent
  | P_ControlSignal ControlCommand
  | P_MintBurnEvent MintBurnEvent
  | P_OracleUpdateEvent OracleUpdateEvent

record Signal =
  sig_type :: SignalType
  sig_meta :: SignalMeta
  sig_payload :: SignalPayload

text \<open>Value initialization, \<open>Signal{}\<close> and \<open>EvmLogEvent{}\<close>.\<close>

definition zero_meta :: SignalMeta where
  "zero_meta = \<lparr>sm_timestamp_ms = 0, sm_internal_ingress_time_ms = 0, sm_block_number = None,
     sm_tx_hash = None, sm_is_final = False, sm_source_id = 0\<rparr>"

definition zero_signal :: Signal where
  "zero_signal = \<lparr>sig_type = ST_Unknown, sig_meta = zero_meta, sig_payload = P_monostate\<rparr>"

definition zero_evm :: EvmLogEvent where
  "zero_evm = \<lparr>evm_chain_id = 0, evm_tx_index = 0, evm_log_index = 0, evm_removed = False,
     evm_address = replicate 20 0, evm_topic_count = 0, evm_topics = replicate 4 (replicate 32 0),
     evm_data_size = 0, evm_data = replicate 256 0, evm_truncated = False\<rparr>"

definition get_evm :: "Signal \<Rightarrow> EvmLogEvent option" where
  "get_evm s = (case sig_payload s of P_EvmLogEvent e \<Rightarrow> Some e | _ \<Rightarrow> None)"

definition make_mask :: "SignalType \<Rightarrow> u32" where
  "make_mask type = push_bit (type_idx type) 1"

definition wf_evm :: "EvmLogEvent \<Rightarrow> bool" where
  "wf_evm e \<longleftrightarrow> length (evm_address e) = 20 \<and> length (evm_topics e) = 4 \<and>
     (\<forall>t\<in>set (evm_topics e). length t = 32) \<and> length (evm_data e) = 256 \<and>
     unat (evm_topic_count e) \<le> 4 \<and> unat (evm_data_size e) \<le> 256"

section \<open>Alerts\<close>

record Alert =
  al_customer_id :: u64
  al_rule_type :: string
  al_message :: string
  al_timestamp_ms :: u64
  al_internal_ingress_time_ms :: u64
  al_amount_decimal :: "string option"
  al_token_address :: "string option"
  al_chain_id :: "u64 option"

definition zero_alert :: Alert where
  "zero_alert = \<lparr>al_customer_id = 0, al_rule_type = [], al_message = [], al_timestamp_ms = 0,
     al_internal_ingress_time_ms = 0, al_amount_decimal = None, al_token_address = None,
     al_chain_id = None\<rparr>"

section \<open>Facts about the data\<close>

lemma type_idx_less: "type_idx t < SignalTypeCount"
  by (cases t) (simp_all add: SignalTypeCount_def)

lemma type_idx_inj [simp]: "type_idx s = type_idx t \<longleftrightarrow> s = t"
  by (cases s; cases t) simp_all

lemma bit_make_mask: "bit (make_mask t) i \<longleftrightarrow> i = type_idx t"
  using type_idx_less [of t]
  by (auto simp: make_mask_def SignalTypeCount_def bit_simps)

lemma get_evm_Some: "get_evm s = Some e \<longleftrightarrow> sig_payload s = P_EvmLogEvent e"
  by (auto simp: get_evm_def split: SignalPayload.splits)

lemma wf_zero_evm: "wf_evm zero_evm"
  by (simp add: wf_evm_def zero_evm_def)

end
