(* ===== verification/Normalize.thy ===== *)
theory Normalize
  imports Signal
begin

text \<open>
  \<open>src/events/normalize.cpp\<close>: from a raw JSON-RPC log to a typed \<open>Signal\<close>.  The topic
  constants are parsed from their literals, as the \<open>constexpr\<close> initializers do.  The array
  \<open>tx_hash\<close> is declared without an initializer in the code, so its previous content is an
  argument (\<open>tx_hash0\<close>) of \<open>normalize_log\<close>.  The lemmas give the exact condition under
  which normalization throws, the agreement of the signal type with the payload variant, the
  lengths of all arrays, and what each class of log becomes.
\<close>

section \<open>Definitions\<close>

definition topic :: "string \<Rightarrow> bytes" where
  "topic s = (case parse_topic_literal s of Inr t \<Rightarrow> t | Inl _ \<Rightarrow> [])"

definition TOPIC_TRANSFER :: bytes where
  "TOPIC_TRANSFER = topic ''0xddf252ad1be2c89b69c2b068fc378daa952ba7f163c4a11628f55a4df523b3ef''"

definition TOPIC_SWAP_V2 :: bytes where
  "TOPIC_SWAP_V2 = topic ''0xd78ad95fa46c994b6551d0da85fc275fe613ce37657fb8d5e3d130840159d822''"

definition TOPIC_SWAP_V3 :: bytes where
  "TOPIC_SWAP_V3 = topic ''0xc42079f94a6350d7e5735f2a153e368fc95153e172ee90824036511a8fb417b3''"

definition TOPIC_MINT :: bytes where
  "TOPIC_MINT = topic ''0x4c209b5fc8ad50758f13e2e1088ba56a560dff694af163234d7f6c31034c568d''"

definition TOPIC_BURN :: bytes where
  "TOPIC_BURN = topic ''0xdccd28e36055d506992d9d40a08e08d6691c9569707248066f2c2f82998396e9''"

definition TOPIC_OWNERSHIP_TRANSFERRED :: bytes where
  "TOPIC_OWNERSHIP_TRANSFERRED =
     topic ''0x8be0079c531659141344cd1fd0a4f28419497f9722a3daafe3b4186f6b6457e0''"

definition TOPIC_PAUSED :: bytes where
  "TOPIC_PAUSED = topic ''0x62e78cea01bee320cd4e420270b5ea74000d11b0c9f74754ebdbfc544b05a258''"

definition TOPIC_UNPAUSED :: bytes where
  "TOPIC_UNPAUSED = topic ''0x5db9ee0a495bf2e6ff9c91a7834c1ba4fdd244a5e8aa4e537bd38aeae4b073aa''"

definition TOPIC_ROLE_GRANTED :: bytes where
  "TOPIC_ROLE_GRANTED =
     topic ''0x2f8788117e7eff1d82e926ec794901d17c78024a50270940304540a733656f0d''"

definition TOPIC_ROLE_REVOKED :: bytes where
  "TOPIC_ROLE_REVOKED =
     topic ''0xf6391f5c32d9c69d2a47ea670b442974b53935d1edc7fd64eb21e047a839171b''"

definition TOPIC_UPGRADED :: bytes where
  "TOPIC_UPGRADED = topic ''0xbc7cd75a20ee27fd9adebab32041f755214dbc6bffa90cc0225b39da2e5c2d3b''"

definition TOPIC_APPROVAL :: bytes where
  "TOPIC_APPROVAL = topic ''0x8c5be1e5ebec7d5bd14f71427d1e84f3dd0314c0f7b2291e5b200ac8c7c3b925''"

definition TOPIC_ORACLE_ANSWER_UPDATED :: bytes where
  "TOPIC_ORACLE_ANSWER_UPDATED =
     topic ''0x0559884fd3a460db3073b7fc896cc77986f16e378210ded43186175bf646fc5f''"

definition classify_topic0 :: "bytes \<Rightarrow> SignalType" where
  "classify_topic0 topic0 =
     (if topic0 = TOPIC_TRANSFER then ST_Transfer
      else if topic0 = TOPIC_SWAP_V2 then ST_Swap
      else if topic0 = TOPIC_SWAP_V3 then ST_Swap
      else if topic0 = TOPIC_MINT then ST_LiquidityChange
      else if topic0 = TOPIC_BURN then ST_LiquidityChange
      else if topic0 = TOPIC_OWNERSHIP_TRANSFERRED \<or> topic0 = TOPIC_PAUSED \<or>
              topic0 = TOPIC_UNPAUSED \<or> topic0 = TOPIC_ROLE_GRANTED \<or>
              topic0 = TOPIC_ROLE_REVOKED \<or> topic0 = TOPIC_UPGRADED then ST_Governance
      else if topic0 = TOPIC_APPROVAL then ST_Approval
      else if topic0 = TOPIC_ORACLE_ANSWER_UPDATED then ST_OracleUpdate
      else ST_Unknown)"

subsection \<open>The EVM payload\<close>

definition fill_evm ::
  "RawLog \<Rightarrow> u64 \<Rightarrow> u64 \<Rightarrow> u64 \<Rightarrow> bytes \<Rightarrow> bytes list \<Rightarrow> bytes \<Rightarrow> EvmLogEvent" where
  "fill_evm raw chain_id txi lgi address ts data =
     (let byte_len = (length (rl_data raw) - 2) div 2 in
      \<lparr>evm_chain_id = chain_id, evm_tx_index = ucast txi, evm_log_index = ucast lgi,
       evm_removed = rl_removed raw, evm_address = address,
       evm_topic_count = word_of_nat (min (length (rl_topics raw)) 4),
       evm_topics = ts @ drop (length ts) (evm_topics zero_evm),
       evm_data_size = word_of_nat (if byte_len > 256 then 256 else byte_len),
       evm_data = data, evm_truncated = (byte_len > 256)\<rparr>)"

definition evm_of_raw :: "RawLog \<Rightarrow> u64 \<Rightarrow> EvmLogEvent result" where
  "evm_of_raw raw chain_id =
     bindE (parse_hex_uint64 (rl_transactionIndex raw)) (\<lambda>txi.
     bindE (parse_hex_uint64 (rl_logIndex raw)) (\<lambda>lgi.
     if txi > 0xFFFFFFFF \<or> lgi > 0xFFFFFFFF then
       Inl (RuntimeError ''tx_index/log_index out of range'')
     else
     bindE (parse_hex_bytes 20 (rl_address raw) (evm_address zero_evm)) (\<lambda>address.
     bindE (mapE (\<lambda>t. parse_hex_bytes 32 t (replicate 32 0)) (take 4 (rl_topics raw))) (\<lambda>ts.
     bindE (validate_hex (rl_data raw)) (\<lambda>_.
     bindE (parse_hex_bytes 256 (rl_data raw) (evm_data zero_evm)) (\<lambda>data.
       Inr (fill_evm raw chain_id txi lgi address ts data)))))))"

subsection \<open>Classification\<close>

definition governance_action :: "bytes \<Rightarrow> GovernanceAction" where
  "governance_action topic0 =
     (if topic0 = TOPIC_OWNERSHIP_TRANSFERRED then GA_OwnershipTransferred
      else if topic0 = TOPIC_PAUSED then GA_Paused
      else if topic0 = TOPIC_UNPAUSED then GA_Unpaused
      else if topic0 = TOPIC_ROLE_GRANTED then GA_RoleGranted
      else if topic0 = TOPIC_ROLE_REVOKED then GA_RoleRevoked
      else if topic0 = TOPIC_UPGRADED then GA_Upgraded
      else GA_Unknown)"

definition mint_burn_event :: "EvmLogEvent \<Rightarrow> bool \<Rightarrow> bool \<Rightarrow> MintBurnEvent" where
  "mint_burn_event evm is_mint is_burn =
     \<lparr>mb_direction = (if is_mint \<and> is_burn then MB_Unknown else if is_mint then MB_Mint else MB_Burn),
      mb_chain_id = evm_chain_id evm, mb_token_address = evm_address evm,
      mb_amount = take 32 (evm_data evm),
      mb_from = drop 12 (evm_topics evm ! 1), mb_to = drop 12 (evm_topics evm ! 2)\<rparr>"

definition oracle_event :: "EvmLogEvent \<Rightarrow> OracleUpdateEvent" where
  "oracle_event evm =
     \<lparr>or_chain_id = evm_chain_id evm, or_aggregator_address = evm_address evm,
      or_current_answer = evm_topics evm ! 1, or_round_id = evm_topics evm ! 2,
      or_updated_at = be_u64 (take 8 (drop 24 (evm_data evm)))\<rparr>"

definition all_zero :: "bytes \<Rightarrow> bool" where
  "all_zero bs \<longleftrightarrow> (\<forall>b\<in>set bs. b = 0)"

definition classify_log :: "EvmLogEvent \<Rightarrow> SignalType \<times> SignalPayload" where
  "classify_log evm =
     (if evm_topic_count evm > 0 then
        let ty = classify_topic0 (evm_topics evm ! 0) in
        if ty = ST_Governance then
          (ty, P_GovernanceEvent \<lparr>gov_action = governance_action (evm_topics evm ! 0),
             gov_chain_id = evm_chain_id evm, gov_contract_address = evm_address evm\<rparr>)
        else if ty = ST_Transfer \<and> evm_topic_count evm \<ge> 3 then
          let is_mint = all_zero (evm_topics evm ! 1); is_burn = all_zero (evm_topics evm ! 2) in
          if (is_mint \<or> is_burn) \<and> evm_data_size evm \<ge> 32
          then (ST_MintBurn, P_MintBurnEvent (mint_burn_event evm is_mint is_burn))
          else (ty, P_EvmLogEvent evm)
        else if ty = ST_OracleUpdate \<and> evm_topic_count evm \<ge> 3 \<and> evm_data_size evm \<ge> 32 then
          (ty, P_OracleUpdateEvent (oracle_event evm))
        else (ty, P_EvmLogEvent evm)
      else (ST_Unknown, P_EvmLogEvent evm))"

definition normalize_log :: "bytes \<Rightarrow> RawLog \<Rightarrow> u64 \<Rightarrow> u64 \<Rightarrow> Signal result" where
  "normalize_log tx_hash0 raw chain_id block_timestamp =
     bindE (parse_hex_uint64 (rl_blockNumber raw)) (\<lambda>block_number.
     bindE (parse_hex_bytes 32 (rl_transactionHash raw) tx_hash0) (\<lambda>tx_hash.
     bindE (evm_of_raw raw chain_id) (\<lambda>evm.
       Inr \<lparr>sig_type = fst (classify_log evm),
            sig_meta = zero_meta\<lparr>sm_timestamp_ms := block_timestamp,
              sm_block_number := Some block_number, sm_tx_hash := Some tx_hash,
              sm_is_final := False, sm_source_id := ucast chain_id\<rparr>,
            sig_payload = snd (classify_log evm)\<rparr>)))"

section \<open>The topic constants\<close>

lemmas topic_defs =
  TOPIC_TRANSFER_def TOPIC_SWAP_V2_def TOPIC_SWAP_V3_def TOPIC_MINT_def TOPIC_BURN_def
  TOPIC_OWNERSHIP_TRANSFERRED_def TOPIC_PAUSED_def TOPIC_UNPAUSED_def TOPIC_ROLE_GRANTED_def
  TOPIC_ROLE_REVOKED_def TOPIC_UPGRADED_def TOPIC_APPROVAL_def TOPIC_ORACLE_ANSWER_UPDATED_def

definition all_topics :: "bytes list" where
  "all_topics = [TOPIC_TRANSFER, TOPIC_SWAP_V2, TOPIC_SWAP_V3, TOPIC_MINT, TOPIC_BURN,
     TOPIC_OWNERSHIP_TRANSFERRED, TOPIC_PAUSED, TOPIC_UNPAUSED, TOPIC_ROLE_GRANTED,
     TOPIC_ROLE_REVOKED, TOPIC_UPGRADED, TOPIC_APPROVAL, TOPIC_ORACLE_ANSWER_UPDATED]"

lemma topics_first_bytes:
  "map (take 1) all_topics =
     [[0xdd], [0xd7], [0xc4], [0x4c], [0xdc], [0x8b], [0x62], [0x5d], [0x2f], [0xf6], [0xbc],
      [0x8c], [0x05]]"
  by code_simp

lemma topics_length: "map length all_topics = replicate 13 32"
  by code_simp

lemma distinct_topics: "distinct all_topics"
proof -
  have "distinct (map (take 1) all_topics)"
    unfolding topics_first_bytes by simp
  then show ?thesis by (simp add: distinct_map)
qed

lemma topics_neq [simp]:
  "TOPIC_TRANSFER \<notin> {TOPIC_SWAP_V2, TOPIC_SWAP_V3, TOPIC_MINT, TOPIC_BURN,
     TOPIC_OWNERSHIP_TRANSFERRED, TOPIC_PAUSED, TOPIC_UNPAUSED, TOPIC_ROLE_GRANTED,
     TOPIC_ROLE_REVOKED, TOPIC_UPGRADED, TOPIC_APPROVAL, TOPIC_ORACLE_ANSWER_UPDATED}"
  using distinct_topics by (simp add: all_topics_def)

definition governance_topics :: "(bytes \<times> GovernanceAction) list" where
  "governance_topics =
     [(TOPIC_OWNERSHIP_TRANSFERRED, GA_OwnershipTransferred), (TOPIC_PAUSED, GA_Paused),
      (TOPIC_UNPAUSED, GA_Unpaused), (TOPIC_ROLE_GRANTED, GA_RoleGranted),
      (TOPIC_ROLE_REVOKED, GA_RoleRevoked), (TOPIC_UPGRADED, GA_Upgraded)]"

lemma classify_transfer_iff: "classify_topic0 t = ST_Transfer \<longleftrightarrow> t = TOPIC_TRANSFER"
  by (simp add: classify_topic0_def)

lemma classify_never_derived [simp]:
  "classify_topic0 t \<noteq> ST_MintBurn" "classify_topic0 t \<noteq> ST_Control"
  "classify_topic0 t \<noteq> ST_PriceTick" "classify_topic0 t \<noteq> ST_PoolSnapshot"
  by (simp_all add: classify_topic0_def)

lemma classify_governance_iff:
  "classify_topic0 t = ST_Governance \<longleftrightarrow> map_of governance_topics t \<noteq> None"
  using distinct_topics by (auto simp: classify_topic0_def governance_topics_def all_topics_def)

lemma governance_action_eq:
  "governance_action t = (case map_of governance_topics t of None \<Rightarrow> GA_Unknown | Some a \<Rightarrow> a)"
  using distinct_topics by (auto simp: governance_action_def governance_topics_def all_topics_def)

lemma classify_approval_iff: "classify_topic0 t = ST_Approval \<longleftrightarrow> t = TOPIC_APPROVAL"
  using distinct_topics by (auto simp: classify_topic0_def all_topics_def)

lemma classify_oracle_iff: "classify_topic0 t = ST_OracleUpdate \<longleftrightarrow> t = TOPIC_ORACLE_ANSWER_UPDATED"
  using distinct_topics by (auto simp: classify_topic0_def all_topics_def)

lemma governance_action_known:
  "classify_topic0 t = ST_Governance \<Longrightarrow> governance_action t \<noteq> GA_Unknown"
  unfolding classify_governance_iff governance_action_eq
  by (auto simp: governance_topics_def split: if_splits)

section \<open>When normalization succeeds\<close>

definition raw_ok :: "RawLog \<Rightarrow> bool" where
  "raw_ok raw \<longleftrightarrow>
     quantity_ok (rl_blockNumber raw) \<and> hex_bytes_ok 32 (rl_transactionHash raw) \<and>
     quantity_ok (rl_transactionIndex raw) \<and> quantity_ok (rl_logIndex raw) \<and>
     hex_value (drop 2 (rl_transactionIndex raw)) mod 2 ^ 64 < 2 ^ 32 \<and>
     hex_value (drop 2 (rl_logIndex raw)) mod 2 ^ 64 < 2 ^ 32 \<and>
     hex_bytes_ok 20 (rl_address raw) \<and>
     list_all (hex_bytes_ok 32) (take 4 (rl_topics raw)) \<and> hex_ok (rl_data raw)"

lemma u64_le_u32_max: "\<not> (word_of_nat n :: u64) > 0xFFFFFFFF \<longleftrightarrow> n mod 2 ^ 64 < 2 ^ 32"
  by (auto simp: word_less_nat_alt unsigned_of_nat take_bit_eq_mod)

lemma mapE_topics_ok:
  "(\<exists>ts. mapE (\<lambda>t. parse_hex_bytes 32 t out) xs = Inr ts) \<longleftrightarrow> list_all (hex_bytes_ok 32) xs"
  by (induction xs) (auto simp: bindE_eq_Inr parse_hex_bytes_eq)

lemma evm_of_raw_ok:
  "(\<exists>evm. evm_of_raw raw c = Inr evm) \<longleftrightarrow>
     quantity_ok (rl_transactionIndex raw) \<and> quantity_ok (rl_logIndex raw) \<and>
     hex_value (drop 2 (rl_transactionIndex raw)) mod 2 ^ 64 < 2 ^ 32 \<and>
     hex_value (drop 2 (rl_logIndex raw)) mod 2 ^ 64 < 2 ^ 32 \<and>
     hex_bytes_ok 20 (rl_address raw) \<and>
     list_all (hex_bytes_ok 32) (take 4 (rl_topics raw)) \<and> hex_ok (rl_data raw)"
  unfolding evm_of_raw_def mapE_topics_ok [symmetric, of _ "replicate 32 0"] u64_le_u32_max [symmetric]
  by (auto simp: bindE_eq_Inr parse_hex_uint64_eq parse_hex_bytes_eq validate_hex_eq Let_def
      dest: hex_ok_bytes_ok)

lemma normalize_ok_iff: "(\<exists>s. normalize_log h raw c t = Inr s) \<longleftrightarrow> raw_ok raw"
proof -
  have "(\<exists>s. normalize_log h raw c t = Inr s) \<longleftrightarrow>
      quantity_ok (rl_blockNumber raw) \<and> hex_bytes_ok 32 (rl_transactionHash raw) \<and>
      (\<exists>evm. evm_of_raw raw c = Inr evm)"
    by (auto simp: normalize_log_def bindE_eq_Inr parse_hex_uint64_eq parse_hex_bytes_eq)
  then show ?thesis unfolding evm_of_raw_ok raw_ok_def by blast
qed

section \<open>Well-formedness of the result\<close>

lemma mapE_parse_lengths:
  assumes "mapE (\<lambda>t. parse_hex_bytes 32 t (replicate 32 0)) xs = Inr ts"
  shows "length ts = length xs" and "t \<in> set ts \<Longrightarrow> length t = 32"
proof -
  show "length ts = length xs" using assms by (rule mapE_length)
  have "list_all2 (\<lambda>x y. parse_hex_bytes 32 x (replicate 32 0) = Inr y) xs ts"
    using assms by (simp add: mapE_eq_Inr)
  then show "length t = 32" if "t \<in> set ts"
    using that by (induction) (auto dest: parse_hex_bytes_length)
qed

lemma evm_of_raw_elim:
  assumes "evm_of_raw raw c = Inr evm"
  obtains txi lgi address ts data where
    "parse_hex_bytes 20 (rl_address raw) (evm_address zero_evm) = Inr address"
    "mapE (\<lambda>t. parse_hex_bytes 32 t (replicate 32 0)) (take 4 (rl_topics raw)) = Inr ts"
    "parse_hex_bytes 256 (rl_data raw) (evm_data zero_evm) = Inr data"
    "evm = fill_evm raw c txi lgi address ts data"
  using assms unfolding evm_of_raw_def by (auto simp: bindE_eq_Inr split: if_splits)

lemma evm_of_raw_wf:
  assumes "evm_of_raw raw c = Inr evm"
  shows "wf_evm evm" and "evm_chain_id evm = c" and "evm_removed evm = rl_removed raw"
    and "unat (evm_topic_count evm) = min (length (rl_topics raw)) 4"
proof -
  from assms obtain txi lgi address ts data where
    address: "parse_hex_bytes 20 (rl_address raw) (evm_address zero_evm) = Inr address"
    and ts: "mapE (\<lambda>t. parse_hex_bytes 32 t (replicate 32 0)) (take 4 (rl_topics raw)) = Inr ts"
    and data: "parse_hex_bytes 256 (rl_data raw) (evm_data zero_evm) = Inr data"
    and evm: "evm = fill_evm raw c txi lgi address ts data"
    by (rule evm_of_raw_elim)
  note ts' = mapE_parse_lengths [OF ts]
  have count: "unat (word_of_nat (min (length (rl_topics raw)) 4) :: u8) = min (length (rl_topics raw)) 4"
    by (auto simp: unsigned_of_nat take_bit_eq_mod min_def)
  have small: "unat (word_of_nat (if n > 256 then 256 else n) :: u32) \<le> 256" for n :: nat
    by (auto simp: unsigned_of_nat take_bit_eq_mod)
  have "length address = 20" "length data = 256"
    using parse_hex_bytes_length [OF address] parse_hex_bytes_length [OF data]
    by (simp_all add: zero_evm_def)
  with ts' count small show "wf_evm evm"
    by (auto simp: wf_evm_def evm fill_evm_def Let_def zero_evm_def dest: in_set_dropD)
  show "unat (evm_topic_count evm) = min (length (rl_topics raw)) 4"
    by (simp only: evm fill_evm_def Let_def EvmLogEvent.simps count)
  show "evm_chain_id evm = c" "evm_removed evm = rl_removed raw"
    by (simp_all add: evm fill_evm_def Let_def)
qed

text \<open>
  The invariant of every signal that leaves the normalizer: the payload variant agrees with the
  signal type, and all arrays have their declared lengths.
\<close>

definition signal_wf :: "Signal \<Rightarrow> bool" where
  "signal_wf s \<longleftrightarrow>
     (case sig_payload s of
        P_EvmLogEvent e \<Rightarrow> wf_evm e \<and>
          sig_type s \<in> {ST_Unknown, ST_Swap, ST_Transfer, ST_LiquidityChange, ST_Approval, ST_OracleUpdate}
      | P_GovernanceEvent g \<Rightarrow> sig_type s = ST_Governance \<and> gov_action g \<noteq> GA_Unknown \<and>
          length (gov_contract_address g) = 20
      | P_MintBurnEvent m \<Rightarrow> sig_type s = ST_MintBurn \<and> length (mb_token_address m) = 20 \<and>
          length (mb_amount m) = 32 \<and> length (mb_from m) = 20 \<and> length (mb_to m) = 20 \<and>
          (all_zero (mb_from m) \<or> all_zero (mb_to m))
      | P_OracleUpdateEvent u \<Rightarrow> sig_type s = ST_OracleUpdate \<and>
          length (or_aggregator_address u) = 20 \<and> length (or_current_answer u) = 32 \<and>
          length (or_round_id u) = 32
      | _ \<Rightarrow> False)"

lemma wf_evm_topic: "wf_evm e \<Longrightarrow> i < 4 \<Longrightarrow> length (evm_topics e ! i) = 32"
  by (auto simp: wf_evm_def)

lemma classify_log_wf:
  assumes wf: "wf_evm evm" and s: "sig_type s = fst (classify_log evm)"
    "sig_payload s = snd (classify_log evm)"
  shows "signal_wf s"
proof -
  define t where "t i = evm_topics evm ! i" for i
  have len: "length (t i) = 32" if "i < 4" for i
    using wf_evm_topic [OF wf that] by (simp add: t_def)
  have zero: "all_zero (drop n bs)" if "all_zero bs" for n bs
    using that by (auto simp: all_zero_def dest: in_set_dropD)
  have ty: "classify_topic0 x \<in> {ST_Unknown, ST_Swap, ST_Transfer, ST_LiquidityChange, ST_Approval,
      ST_OracleUpdate, ST_Governance}" for x
    by (simp add: classify_topic0_def)
  show ?thesis
    using wf ty [of "t 0"] len [of 1] len [of 2] zero governance_action_known [of "t 0"] unfolding s
    by (auto simp: signal_wf_def s classify_log_def Let_def mint_burn_event_def oracle_event_def
        wf_evm_def simp flip: t_def split: if_splits)
qed

lemma normalize_log_elim:
  assumes "normalize_log h raw c t = Inr s"
  obtains evm block_number tx_hash where
    "evm_of_raw raw c = Inr evm"
    "parse_hex_uint64 (rl_blockNumber raw) = Inr block_number"
    "parse_hex_bytes 32 (rl_transactionHash raw) h = Inr tx_hash"
    "sig_type s = fst (classify_log evm)" "sig_payload s = snd (classify_log evm)"
    "sig_meta s = \<lparr>sm_timestamp_ms = t, sm_internal_ingress_time_ms = 0,
       sm_block_number = Some block_number, sm_tx_hash = Some tx_hash, sm_is_final = False,
       sm_source_id = ucast c\<rparr>"
  using assms unfolding normalize_log_def by (auto simp: bindE_eq_Inr zero_meta_def)

lemma normalize_log_wf: "normalize_log h raw c t = Inr s \<Longrightarrow> signal_wf s"
  by (erule normalize_log_elim) (auto intro: classify_log_wf dest: evm_of_raw_wf)

lemma normalize_log_meta:
  assumes "normalize_log h raw c t = Inr s" and "length h = 32"
  shows "sm_timestamp_ms (sig_meta s) = t" and "sm_is_final (sig_meta s) = False"
    and "\<exists>tx. sm_tx_hash (sig_meta s) = Some tx \<and> length tx = 32"
  using assms by (auto elim!: normalize_log_elim dest: parse_hex_bytes_length)

section \<open>Properties\<close>

text \<open>
  C30: normalization is total on well-formed logs and throws on all others: \<open>raw_ok\<close> lists the
  conditions on the text fields (prefixes, digits, even lengths, 32-bit indices).
\<close>

theorem normalize_succeeds_iff:
  "(\<exists>s. normalize_log tx_hash0 raw chain_id ts = Inr s) \<longleftrightarrow> raw_ok raw"
  by (rule normalize_ok_iff)


definition sample_transfer :: RawLog where
  "sample_transfer = \<lparr>rl_address = ''0xdac17f958d2ee523a2206206994597c13d831ec7'',
     rl_topics = [''0xddf252ad1be2c89b69c2b068fc378daa952ba7f163c4a11628f55a4df523b3ef'',
       ''0x0000000000000000000000000000000000000000000000000000000000000000'',
       ''0x00000000000000000000000028c6c06298d514db089934071355e5743bf21d60''],
     rl_data = ''0x00000000000000000000000000000000000000000000000000000000000003e8'',
     rl_blockNumber = ''0x10'', rl_transactionHash = ''0xab'', rl_logIndex = ''0x1'',
     rl_transactionIndex = ''0x2'', rl_removed = False\<rparr>"

lemma sample_ok: "raw_ok sample_transfer"
proof -
  have "quantity_ok ''0x10''" "quantity_ok ''0x1''" "quantity_ok ''0x2''" by code_simp+
  moreover have "hex_bytes_ok 32 ''0xab''" by code_simp
  moreover have "hex_bytes_ok 20 (rl_address sample_transfer)" by code_simp
  moreover have "list_all (hex_bytes_ok 32) (take 4 (rl_topics sample_transfer))" by code_simp
  moreover have "hex_ok (rl_data sample_transfer)" by code_simp
  moreover have "hex_value ''1'' = 1" "hex_value ''2'' = 2" by code_simp+
  ultimately show ?thesis by (simp add: raw_ok_def sample_transfer_def)
qed



text \<open>
  Classification by topic: governance, approval and price signals come from exactly their
  event signatures, and a governance signal carries the action of its signature.
\<close>

theorem classify_by_topic:
  "(fst (classify_log evm) = ST_Governance \<longleftrightarrow>
      evm_topic_count evm > 0 \<and> map_of governance_topics (evm_topics evm ! 0) \<noteq> None) \<and>
   (fst (classify_log evm) = ST_Approval \<longleftrightarrow>
      evm_topic_count evm > 0 \<and> evm_topics evm ! 0 = TOPIC_APPROVAL) \<and>
   (fst (classify_log evm) = ST_OracleUpdate \<longleftrightarrow>
      evm_topic_count evm > 0 \<and> evm_topics evm ! 0 = TOPIC_ORACLE_ANSWER_UPDATED) \<and>
   (snd (classify_log evm) = P_GovernanceEvent g \<longleftrightarrow>
      fst (classify_log evm) = ST_Governance \<and>
      map_of governance_topics (evm_topics evm ! 0) = Some (gov_action g) \<and>
      gov_chain_id g = evm_chain_id evm \<and> gov_contract_address g = evm_address evm)"
proof -
  let ?t = "evm_topics evm ! 0"
  have types: "fst (classify_log evm) = ty \<longleftrightarrow> evm_topic_count evm > 0 \<and> classify_topic0 ?t = ty"
    if "ty \<in> {ST_Governance, ST_Approval, ST_OracleUpdate}" for ty
    using that by (auto simp: classify_log_def Let_def)
  have payload: "snd (classify_log evm) = P_GovernanceEvent g \<longleftrightarrow>
      fst (classify_log evm) = ST_Governance \<and> gov_action g = governance_action ?t \<and>
      gov_chain_id g = evm_chain_id evm \<and> gov_contract_address g = evm_address evm"
    by (cases g) (auto simp: classify_log_def Let_def)
  have action: "gov_action g = governance_action ?t \<longleftrightarrow> map_of governance_topics ?t = Some (gov_action g)"
    if "fst (classify_log evm) = ST_Governance"
    using that types [of ST_Governance] by (auto simp: classify_governance_iff governance_action_eq)
  show ?thesis
    using types [of ST_Governance] types [of ST_Approval] types [of ST_OracleUpdate]
    by (simp add: payload action classify_governance_iff classify_approval_iff classify_oracle_iff
        cong: conj_cong)
qed

text \<open>
  The transaction hash.  The destination array is not initialized by the code; its previous
  content cannot influence the signal when the hash has at least 64 digits.
\<close>

theorem tx_hash_determined:
  assumes "66 \<le> length (rl_transactionHash raw)" and "length h = 32" and "length h' = 32"
  shows "normalize_log h raw chain_id ts = normalize_log h' raw chain_id ts"
  using parse_hex_bytes_full [of 32 "rl_transactionHash raw" h h'] assms by (simp add: normalize_log_def)

theorem tx_hash_determined_witness:
  "normalize_log (replicate 32 0) (sample_transfer\<lparr>rl_transactionHash :=
      ''0x1111111111111111111111111111111111111111111111111111111111111111''\<rparr>) 1 7 =
   normalize_log (replicate 32 1) (sample_transfer\<lparr>rl_transactionHash :=
      ''0x1111111111111111111111111111111111111111111111111111111111111111''\<rparr>) 1 7"
  by (rule tx_hash_determined) simp_all

end
