(* ===== verification/Rule_Interface.thy ===== *)
theory Rule_Interface
  imports Normalize
begin

text \<open>
  The interface \<open>IRiskRule\<close> of \<open>risk/rule_interface.hpp\<close> as a locale.  A rule object has an
  interest mask, a type name and an \<open>evaluate\<close> that appends alerts to a caller's vector and may
  change the object (the \<open>StateStore\<close> argument is an empty dummy class in the code).  The laws
  are what the engine relies on: evaluation only appends, what it appends does not depend on
  the vector's content, and every alert carries the rule's name, the signal's timestamp and a
  configured customer.  \<open>bucket_rule\<close> is the contract shared by the rules that look up a
  configuration bucket, filter it, and format one alert per matching entry; it implies
  \<open>risk_rule\<close> and adds that each customer's alerts depend on that customer's entries alone.
\<close>

type_synonym 'r evaluation = "'r \<Rightarrow> Signal \<Rightarrow> Alert list \<Rightarrow> 'r \<times> Alert list"

definition alert_stamped :: "string \<Rightarrow> Signal \<Rightarrow> u64 set \<Rightarrow> Alert \<Rightarrow> bool" where
  "alert_stamped name s customers a \<longleftrightarrow>
     al_rule_type a = name \<and> al_timestamp_ms a = sm_timestamp_ms (sig_meta s) \<and>
     al_internal_ingress_time_ms a = 0 \<and> al_customer_id a \<in> customers"

locale risk_rule =
  fixes interests :: "'r \<Rightarrow> u32"
    and rule_type_name :: "'r \<Rightarrow> string"
    and evaluate :: "'r evaluation"
    and customers :: "'r \<Rightarrow> u64 set"
  assumes evaluate_appends:
      "evaluate r s out = (fst (evaluate r s []), out @ snd (evaluate r s []))"
    and evaluate_stamps:
      "a \<in> set (snd (evaluate r s [])) \<Longrightarrow> alert_stamped (rule_type_name r) s (customers r) a"
    and evaluate_frame:
      "interests (fst (evaluate r s [])) = interests r"
      "rule_type_name (fst (evaluate r s [])) = rule_type_name r"
      "customers (fst (evaluate r s [])) = customers r"
begin

lemma evaluate_prefix: "out = take (length out) (snd (evaluate r s out))"
  by (subst evaluate_appends) simp

lemma evaluate_new_alerts:
  "a \<in> set (snd (evaluate r s out)) \<Longrightarrow>
   a \<in> set out \<or> alert_stamped (rule_type_name r) s (customers r) a"
  by (subst (asm) evaluate_appends) (auto intro: evaluate_stamps)

lemma evaluate_split:
  "snd (evaluate r s out) = out @ snd (evaluate r s [])"
  "fst (evaluate r s out) = fst (evaluate r s [])"
  by (subst evaluate_appends, simp)+

text \<open>A sequence of signals through one rule object: the type name and the customers stay.\<close>

primrec feed :: "'r \<Rightarrow> Signal list \<Rightarrow> 'r \<times> Alert list" where
  "feed r [] = (r, [])"
| "feed r (s # ss) =
     (let here = evaluate r s []; rest = feed (fst here) ss in (fst rest, snd here @ snd rest))"

lemma feed_frame:
  "rule_type_name (fst (feed r ss)) = rule_type_name r \<and> customers (fst (feed r ss)) = customers r \<and>
   interests (fst (feed r ss)) = interests r"
  by (induction ss arbitrary: r) (simp_all add: Let_def evaluate_frame)

lemma feed_stamped:
  "a \<in> set (snd (feed r ss)) \<Longrightarrow>
   \<exists>s\<in>set ss. alert_stamped (rule_type_name r) s (customers r) a"
proof (induction ss arbitrary: r)
  case Nil
  then show ?case by simp
next
  case (Cons s ss)
  from Cons.prems consider "a \<in> set (snd (evaluate r s []))"
    | "a \<in> set (snd (feed (fst (evaluate r s [])) ss))"
    by (auto simp: Let_def)
  then show ?case
  proof cases
    case 1
    then show ?thesis using evaluate_stamps by auto
  next
    case 2
    from Cons.IH [OF this] show ?thesis by (auto simp: evaluate_frame)
  qed
qed

end

text \<open>
  Rules without state of their own: look up the entries for the event, keep those that fire,
  format one alert for each.
\<close>

locale bucket_rule =
  fixes mask :: u32
    and name :: string
    and event_of :: "Signal \<Rightarrow> 'e option"
    and entries :: "'r \<Rightarrow> 'e \<Rightarrow> 'c list"
    and fires :: "'e \<Rightarrow> 'c \<Rightarrow> bool"
    and alert_for :: "'r \<Rightarrow> Signal \<Rightarrow> 'e \<Rightarrow> 'c \<Rightarrow> Alert"
    and customer :: "'c \<Rightarrow> u64"
    and evaluate :: "'r \<Rightarrow> Signal \<Rightarrow> Alert list \<Rightarrow> Alert list"
  assumes evaluate_eq:
      "evaluate r s out = out @ (case event_of s of None \<Rightarrow> []
         | Some e \<Rightarrow> map (alert_for r s e) (filter (fires e) (entries r e)))"
    and alert_stamps:
      "alert_stamped name s {customer c} (alert_for r s e c)"
begin

lemma alert_iff:
  "a \<in> set (evaluate r s []) \<longleftrightarrow>
     (\<exists>e c. event_of s = Some e \<and> c \<in> set (entries r e) \<and> fires e c \<and> a = alert_for r s e c)"
  by (cases "event_of s") (auto simp: evaluate_eq)

lemma alert_customer [simp]: "al_customer_id (alert_for r s e c) = customer c"
  using alert_stamps by (simp add: alert_stamped_def)

lemma customer_view:
  "filter (\<lambda>a. al_customer_id a = k) (evaluate r s []) =
     (case event_of s of None \<Rightarrow> []
      | Some e \<Rightarrow> map (alert_for r s e) (filter (fires e) (filter (\<lambda>c. customer c = k) (entries r e))))"
  by (cases "event_of s") (simp_all add: evaluate_eq filter_map comp_def conj_commute)

text \<open>
  Customer isolation: a configuration reduced to the entries of customer \<open>k\<close> (with the same
  formatting of alerts) gives exactly the alerts that \<open>k\<close> gets from the full configuration.
\<close>

lemma customer_isolation:
  assumes "\<And>e. entries r' e = filter (\<lambda>c. customer c = k) (entries r e)"
    and "\<And>e c. alert_for r' s e c = alert_for r s e c"
  shows "evaluate r' s [] = filter (\<lambda>a. al_customer_id a = k) (evaluate r s [])"
  unfolding customer_view unfolding evaluate_eq by (simp add: assms split: option.splits)

end

sublocale bucket_rule \<subseteq> as_rule: risk_rule
  "\<lambda>_. mask" "\<lambda>_. name" "\<lambda>r s out. (r, evaluate r s out)"
  "\<lambda>r. {k. \<exists>e. k \<in> customer ` set (entries r e)}"
proof unfold_locales
  fix r s a
  assume "a \<in> set (snd (r, evaluate r s []))"
  then obtain e c where "c \<in> set (entries r e)" "a = alert_for r s e c"
    by (auto simp: alert_iff)
  then show "alert_stamped name s {k. \<exists>e. k \<in> customer ` set (entries r e)} a"
    using alert_stamps [of s c r e] by (auto simp: alert_stamped_def)
qed (simp_all add: evaluate_eq)

section \<open>Sample signals\<close>

text \<open>Concrete inputs for the witnesses: a log of 32 data bytes with a small amount.\<close>

definition sample_evm :: "u8 \<Rightarrow> EvmLogEvent" where
  "sample_evm amount = zero_evm\<lparr>evm_chain_id := 1, evm_address := replicate 20 1,
     evm_topic_count := 3, evm_data_size := 32,
     evm_data := replicate 31 0 @ amount # replicate 224 0\<rparr>"

definition sample_signal :: "SignalType \<Rightarrow> SignalPayload \<Rightarrow> Signal" where
  "sample_signal ty p = zero_signal\<lparr>sig_type := ty, sig_payload := p\<rparr>"

definition small_be :: "u8 \<Rightarrow> bytes" where
  "small_be b = replicate 31 0 @ [b]"

lemma sample_evm_facts [simp]:
  "wf_evm (sample_evm b)" "evm_chain_id (sample_evm b) = 1" "evm_address (sample_evm b) = replicate 20 1"
  "evm_removed (sample_evm b) = False" "evm_truncated (sample_evm b) = False"
  "evm_topic_count (sample_evm b) = 3" "evm_data_size (sample_evm b) = 32"
  "evm_topics (sample_evm b) = replicate 4 (replicate 32 0)"
  by (simp_all add: sample_evm_def wf_evm_def zero_evm_def)

lemma sample_evm_amount [simp]: "be_value (take 32 (evm_data (sample_evm b))) = unat b"
  by (simp add: sample_evm_def be_value_append be_value_Cons)

lemma sample_signal_facts [simp]:
  "sig_type (sample_signal ty p) = ty" "sig_payload (sample_signal ty p) = p"
  by (simp_all add: sample_signal_def)

lemma small_be_facts [simp]: "length (small_be b) = 32" "be_value (small_be b) = unat b"
  by (simp_all add: small_be_def be_value_append be_value_Cons)

end
