(* ===== verification/Rule_Large_Transfer.thy ===== *)
theory Rule_Large_Transfer
  imports Rule_Interface
begin

text \<open>
  \<open>LargeTransferRule\<close> (\<open>risk/rules/large_transfer_rule.hpp\<close>): a flat list of configurations,
  scanned for every transfer log.  The lemmas read the byte comparison as the order of the
  256-bit amounts and give the emitted alerts exactly.
\<close>

record LargeTransferRuleConfig =
  lt_customer_id :: u64
  lt_chain_id :: u64
  lt_token_address :: bytes
  lt_threshold_be :: bytes

text \<open>
  The guard shared by the rules on raw EVM logs: not removed by a reorganization, both indexed
  addresses present, and a complete 32-byte amount that was not cut by truncation.
\<close>

definition unusable_log :: "EvmLogEvent \<Rightarrow> bool" where
  "unusable_log evm \<longleftrightarrow> evm_removed evm \<or> evm_topic_count evm < 3 \<or> evm_data_size evm < 32 \<or>
     evm_truncated evm"

definition large_transfer_alert :: "Signal \<Rightarrow> EvmLogEvent \<Rightarrow> LargeTransferRuleConfig \<Rightarrow> Alert" where
  "large_transfer_alert s evm config = zero_alert
     \<lparr>al_customer_id := lt_customer_id config, al_rule_type := ''large_transfer'',
      al_message := ''Large transfer detected'',
      al_timestamp_ms := sm_timestamp_ms (sig_meta s),
      al_amount_decimal := Some (uint256_be_to_decimal (evm_data evm)),
      al_token_address := Some (address_to_hex (lt_token_address config)),
      al_chain_id := Some (lt_chain_id config)\<rparr>"

primrec large_transfer_loop ::
  "Signal \<Rightarrow> EvmLogEvent \<Rightarrow> LargeTransferRuleConfig list \<Rightarrow> Alert list \<Rightarrow> Alert list" where
  "large_transfer_loop s evm [] out = out"
| "large_transfer_loop s evm (config # configs) out =
     (if evm_chain_id evm \<noteq> lt_chain_id config then large_transfer_loop s evm configs out
      else if evm_address evm \<noteq> lt_token_address config then large_transfer_loop s evm configs out
      else if greater_be_256 (evm_data evm) (lt_threshold_be config)
      then large_transfer_loop s evm configs (out @ [large_transfer_alert s evm config])
      else large_transfer_loop s evm configs out)"

definition large_transfer_evaluate ::
  "LargeTransferRuleConfig list \<Rightarrow> Signal \<Rightarrow> Alert list \<Rightarrow> Alert list" where
  "large_transfer_evaluate configs s out =
     (case get_evm s of None \<Rightarrow> out
      | Some evm \<Rightarrow> if unusable_log evm then out else large_transfer_loop s evm configs out)"

definition large_transfer_interests :: u32 where
  "large_transfer_interests = make_mask ST_Transfer"

section \<open>Contract\<close>

definition large_transfer_event :: "Signal \<Rightarrow> EvmLogEvent option" where
  "large_transfer_event s =
     (case get_evm s of None \<Rightarrow> None | Some evm \<Rightarrow> if unusable_log evm then None else Some evm)"

definition large_transfer_fires :: "EvmLogEvent \<Rightarrow> LargeTransferRuleConfig \<Rightarrow> bool" where
  "large_transfer_fires evm c \<longleftrightarrow> evm_chain_id evm = lt_chain_id c \<and>
     evm_address evm = lt_token_address c \<and> greater_be_256 (evm_data evm) (lt_threshold_be c)"

lemma large_transfer_loop_eq:
  "large_transfer_loop s evm configs out =
     out @ map (large_transfer_alert s evm) (filter (large_transfer_fires evm) configs)"
  by (induction configs arbitrary: out) (auto simp: large_transfer_fires_def)

interpretation large_transfer: bucket_rule large_transfer_interests "''large_transfer''"
  large_transfer_event "\<lambda>configs _. configs" large_transfer_fires
  "\<lambda>_. large_transfer_alert" lt_customer_id large_transfer_evaluate
  by unfold_locales
    (auto simp: large_transfer_evaluate_def large_transfer_event_def large_transfer_loop_eq
      alert_stamped_def large_transfer_alert_def zero_alert_def split: option.splits)

lemma take_32_amount: "wf_evm evm \<Longrightarrow> length (take 32 (evm_data evm)) = 32"
  by (simp add: wf_evm_def)

lemma large_transfer_fires_iff:
  assumes "wf_evm evm" and "length (lt_threshold_be c) = 32"
  shows "large_transfer_fires evm c \<longleftrightarrow> evm_chain_id evm = lt_chain_id c \<and>
     evm_address evm = lt_token_address c \<and>
     be_value (lt_threshold_be c) < be_value (take 32 (evm_data evm))"
  using assms by (simp add: large_transfer_fires_def greater_be_256_iff wf_evm_def)

section \<open>Property\<close>

text \<open>
  C25: a transfer log alerts exactly the customers who watch its token on its chain with a
  threshold strictly below the transferred 256-bit amount, one alert per entry in order, and
  the alert's amount is the decimal text of that amount.
\<close>

theorem large_transfer_exact:
  assumes "sig_payload s = P_EvmLogEvent evm" and "wf_evm evm"
    and "list_all (\<lambda>c. length (lt_threshold_be c) = 32) configs"
  shows "large_transfer_evaluate configs s out = out @ map (large_transfer_alert s evm)
       (filter (\<lambda>c. \<not> unusable_log evm \<and> lt_chain_id c = evm_chain_id evm \<and>
          lt_token_address c = evm_address evm \<and>
          be_value (lt_threshold_be c) < be_value (take 32 (evm_data evm))) configs) \<and>
     al_amount_decimal (large_transfer_alert s evm c) =
       Some (dec_digits (be_value (take 32 (evm_data evm))))"
proof -
  have "filter (large_transfer_fires evm) configs = filter (\<lambda>c. lt_chain_id c = evm_chain_id evm \<and>
      lt_token_address c = evm_address evm \<and>
      be_value (lt_threshold_be c) < be_value (take 32 (evm_data evm))) configs"
    using assms(2,3) by (auto simp: large_transfer_fires_iff list_all_iff intro!: filter_cong)
  then show ?thesis
    using assms(1)
    by (simp add: large_transfer_evaluate_def get_evm_def large_transfer_loop_eq
        large_transfer_alert_def uint256_be_to_decimal_eq)
qed

theorem large_transfer_exact_witness:
  "large_transfer_evaluate
     [\<lparr>lt_customer_id = 7, lt_chain_id = 1, lt_token_address = replicate 20 1, lt_threshold_be = small_be 5\<rparr>,
      \<lparr>lt_customer_id = 8, lt_chain_id = 1, lt_token_address = replicate 20 1, lt_threshold_be = small_be 9\<rparr>]
     (sample_signal ST_Transfer (P_EvmLogEvent (sample_evm 9))) [] =
   [large_transfer_alert (sample_signal ST_Transfer (P_EvmLogEvent (sample_evm 9))) (sample_evm 9)
     \<lparr>lt_customer_id = 7, lt_chain_id = 1, lt_token_address = replicate 20 1, lt_threshold_be = small_be 5\<rparr>]"
  by (subst large_transfer_exact [OF sample_signal_facts(2), THEN conjunct1])
     (simp_all add: unusable_log_def)

end
