(* ===== verification/Rule_Governance.thy ===== *)
theory Rule_Governance
  imports Rule_Interface
begin

text \<open>
  \<open>GovernanceRule\<close> (\<open>risk/rules/governance_rule.cpp\<close>, \<open>risk/governance_config.hpp\<close>): watch-list
  entries are bucketed by chain and lower-case contract address, with an optional filter on
  the action.
\<close>

record GovernanceRuleConfig =
  gc_customer_id :: u64
  gc_chain_id :: u64
  gc_contract_address :: string
  gc_enabled :: bool
  gc_action_filter :: "GovernanceAction option"

type_synonym contract_key = "u64 \<times> string"
type_synonym governance_map = "(contract_key \<times> GovernanceRuleConfig list) list"

primrec action_to_string :: "GovernanceAction \<Rightarrow> string" where
  "action_to_string GA_OwnershipTransferred = ''OwnershipTransferred''"
| "action_to_string GA_Paused = ''Paused''"
| "action_to_string GA_Unpaused = ''Unpaused''"
| "action_to_string GA_RoleGranted = ''RoleGranted''"
| "action_to_string GA_RoleRevoked = ''RoleRevoked''"
| "action_to_string GA_Upgraded = ''Upgraded''"
| "action_to_string GA_Unknown = ''Unknown''"

definition governance_alert :: "Signal \<Rightarrow> GovernanceEvent \<Rightarrow> GovernanceRuleConfig \<Rightarrow> Alert" where
  "governance_alert s g cfg = zero_alert
     \<lparr>al_customer_id := gc_customer_id cfg, al_rule_type := ''governance'',
      al_timestamp_ms := sm_timestamp_ms (sig_meta s),
      al_chain_id := Some (gov_chain_id g),
      al_token_address := Some (address_to_hex (gov_contract_address g)),
      al_message := ''Governance action '' @ [CHR 0x27] @ action_to_string (gov_action g) @ [CHR 0x27] @
        '' detected on contract '' @ address_to_hex (gov_contract_address g)\<rparr>"

primrec governance_loop ::
  "Signal \<Rightarrow> GovernanceEvent \<Rightarrow> GovernanceRuleConfig list \<Rightarrow> Alert list \<Rightarrow> Alert list" where
  "governance_loop s g [] out = out"
| "governance_loop s g (cfg # cfgs) out =
     (if \<not> gc_enabled cfg then governance_loop s g cfgs out
      else if gc_action_filter cfg \<noteq> None \<and> gc_action_filter cfg \<noteq> Some (gov_action g)
      then governance_loop s g cfgs out
      else governance_loop s g cfgs (out @ [governance_alert s g cfg]))"

definition governance_evaluate :: "governance_map \<Rightarrow> Signal \<Rightarrow> Alert list \<Rightarrow> Alert list" where
  "governance_evaluate config_map s out =
     (if sig_type s \<noteq> ST_Governance then out
      else case sig_payload s of
        P_GovernanceEvent g \<Rightarrow>
          (case map_of config_map (gov_chain_id g, address_to_hex (gov_contract_address g)) of
             None \<Rightarrow> out
           | Some cfgs \<Rightarrow> governance_loop s g cfgs out)
      | _ \<Rightarrow> out)"

definition governance_interests :: u32 where
  "governance_interests = make_mask ST_Governance"

section \<open>Contract\<close>

definition governance_event :: "Signal \<Rightarrow> GovernanceEvent option" where
  "governance_event s = (if sig_type s \<noteq> ST_Governance then None
     else case sig_payload s of P_GovernanceEvent g \<Rightarrow> Some g | _ \<Rightarrow> None)"

definition governance_entries :: "governance_map \<Rightarrow> GovernanceEvent \<Rightarrow> GovernanceRuleConfig list" where
  "governance_entries m g = bucket m (gov_chain_id g, address_to_hex (gov_contract_address g))"

definition governance_fires :: "GovernanceEvent \<Rightarrow> GovernanceRuleConfig \<Rightarrow> bool" where
  "governance_fires g cfg \<longleftrightarrow> gc_enabled cfg \<and>
     (gc_action_filter cfg = None \<or> gc_action_filter cfg = Some (gov_action g))"

lemma governance_loop_eq:
  "governance_loop s g cfgs out = out @ map (governance_alert s g) (filter (governance_fires g) cfgs)"
  by (induction cfgs arbitrary: out) (auto simp: governance_fires_def)

interpretation governance: bucket_rule governance_interests "''governance''"
  governance_event governance_entries governance_fires "\<lambda>_. governance_alert" gc_customer_id
  governance_evaluate
  by unfold_locales
    (auto simp: governance_evaluate_def governance_event_def governance_entries_def bucket_def
      governance_loop_eq alert_stamped_def governance_alert_def zero_alert_def
      split: option.splits SignalPayload.splits)

section \<open>Property\<close>

text \<open>
  C29: a governance event alerts exactly the enabled watchers of its contract on its chain whose
  action filter is absent or equal to the event's action, and names the action and the contract.
\<close>

theorem governance_exact:
  assumes "sig_type s = ST_Governance" and "sig_payload s = P_GovernanceEvent g"
  shows "governance_evaluate m s out = out @ map (governance_alert s g)
     (filter (\<lambda>c. gc_enabled c \<and> gc_action_filter c \<in> {None, Some (gov_action g)})
       (bucket m (gov_chain_id g, address_to_hex (gov_contract_address g))))"
  using assms governance.evaluate_eq [of m s out]
  by (simp add: governance_event_def governance_entries_def governance_fires_def [abs_def])

theorem governance_exact_witness:
  "length (governance_evaluate
     [((1, address_to_hex [0xAB]), [\<lparr>gc_customer_id = 3, gc_chain_id = 1, gc_contract_address = [],
        gc_enabled = True, gc_action_filter = Some GA_Paused\<rparr>,
       \<lparr>gc_customer_id = 4, gc_chain_id = 1, gc_contract_address = [],
        gc_enabled = True, gc_action_filter = Some GA_Upgraded\<rparr>])]
     (sample_signal ST_Governance (P_GovernanceEvent
        \<lparr>gov_action = GA_Paused, gov_chain_id = 1, gov_contract_address = [0xAB]\<rparr>)) []) = 1"
  by (subst governance_exact [OF sample_signal_facts]) (simp_all add: bucket_def)

end
