(* ===== verification/Rule_Mint_Burn.thy ===== *)
theory Rule_Mint_Burn
  imports Rule_Interface
begin

text \<open>
  \<open>MintBurnRule\<close> (\<open>risk/rules/mint_burn_rule.cpp\<close>, \<open>risk/mint_burn_config.hpp\<close>): separate
  thresholds for mints and burns.  The code tests \<open>!(threshold > amount)\<close>, so it fires at
  the threshold, not only above it.
\<close>

record MintBurnRuleConfig =
  mc_customer_id :: u64
  mc_chain_id :: u64
  mc_contract_address :: string
  mc_mint_threshold_be :: bytes
  mc_burn_threshold_be :: bytes
  mc_enabled :: bool

type_synonym mint_burn_map = "((u64 \<times> string) \<times> MintBurnRuleConfig list) list"

definition mint_burn_is_alert :: "MintBurnEvent \<Rightarrow> MintBurnRuleConfig \<Rightarrow> bool" where
  "mint_burn_is_alert e cfg =
     (case mb_direction e of
        MB_Mint \<Rightarrow> \<not> greater_be_256 (mc_mint_threshold_be cfg) (mb_amount e)
      | MB_Burn \<Rightarrow> \<not> greater_be_256 (mc_burn_threshold_be cfg) (mb_amount e)
      | MB_Unknown \<Rightarrow> False)"

definition mint_burn_alert :: "Signal \<Rightarrow> MintBurnEvent \<Rightarrow> MintBurnRuleConfig \<Rightarrow> Alert" where
  "mint_burn_alert s e cfg = zero_alert
     \<lparr>al_customer_id := mc_customer_id cfg, al_rule_type := ''mint_burn'',
      al_timestamp_ms := sm_timestamp_ms (sig_meta s), al_chain_id := Some (mb_chain_id e),
      al_token_address := Some (address_to_hex (mb_token_address e)),
      al_amount_decimal := Some (uint256_be_to_decimal (mb_amount e)),
      al_message := ''Large '' @ (if mb_direction e = MB_Mint then ''Mint'' else ''Burn'') @ '' detected''\<rparr>"

primrec mint_burn_loop ::
  "Signal \<Rightarrow> MintBurnEvent \<Rightarrow> MintBurnRuleConfig list \<Rightarrow> Alert list \<Rightarrow> Alert list" where
  "mint_burn_loop s e [] out = out"
| "mint_burn_loop s e (cfg # cfgs) out =
     (if \<not> mc_enabled cfg then mint_burn_loop s e cfgs out
      else if mint_burn_is_alert e cfg
      then mint_burn_loop s e cfgs (out @ [mint_burn_alert s e cfg])
      else mint_burn_loop s e cfgs out)"

definition mint_burn_evaluate :: "mint_burn_map \<Rightarrow> Signal \<Rightarrow> Alert list \<Rightarrow> Alert list" where
  "mint_burn_evaluate config_map s out =
     (if sig_type s \<noteq> ST_MintBurn then out
      else case sig_payload s of
        P_MintBurnEvent e \<Rightarrow>
          (case map_of config_map (mb_chain_id e, address_to_hex (mb_token_address e)) of
             None \<Rightarrow> out
           | Some cfgs \<Rightarrow> mint_burn_loop s e cfgs out)
      | _ \<Rightarrow> out)"

definition mint_burn_interests :: u32 where
  "mint_burn_interests = make_mask ST_MintBurn"

section \<open>Contract\<close>

definition mint_burn_signal :: "Signal \<Rightarrow> MintBurnEvent option" where
  "mint_burn_signal s = (if sig_type s \<noteq> ST_MintBurn then None
     else case sig_payload s of P_MintBurnEvent e \<Rightarrow> Some e | _ \<Rightarrow> None)"

definition mint_burn_entries :: "mint_burn_map \<Rightarrow> MintBurnEvent \<Rightarrow> MintBurnRuleConfig list" where
  "mint_burn_entries m e = bucket m (mb_chain_id e, address_to_hex (mb_token_address e))"

definition mint_burn_fires :: "MintBurnEvent \<Rightarrow> MintBurnRuleConfig \<Rightarrow> bool" where
  "mint_burn_fires e cfg \<longleftrightarrow> mc_enabled cfg \<and> mint_burn_is_alert e cfg"

lemma mint_burn_loop_eq:
  "mint_burn_loop s e cfgs out = out @ map (mint_burn_alert s e) (filter (mint_burn_fires e) cfgs)"
  by (induction cfgs arbitrary: out) (auto simp: mint_burn_fires_def)

interpretation mint_burn: bucket_rule mint_burn_interests "''mint_burn''"
  mint_burn_signal mint_burn_entries mint_burn_fires "\<lambda>_. mint_burn_alert" mc_customer_id
  mint_burn_evaluate
  by unfold_locales
    (auto simp: mint_burn_evaluate_def mint_burn_signal_def mint_burn_entries_def bucket_def
      mint_burn_loop_eq alert_stamped_def mint_burn_alert_def zero_alert_def
      split: option.splits SignalPayload.splits)

lemma mint_burn_is_alert_iff:
  assumes "length (mb_amount e) = 32" "length (mc_mint_threshold_be c) = 32"
    "length (mc_burn_threshold_be c) = 32"
  shows "mint_burn_is_alert e c \<longleftrightarrow>
     mb_direction e = MB_Mint \<and> be_value (mc_mint_threshold_be c) \<le> be_value (mb_amount e) \<or>
     mb_direction e = MB_Burn \<and> be_value (mc_burn_threshold_be c) \<le> be_value (mb_amount e)"
  using assms
  by (cases "mb_direction e") (simp_all add: mint_burn_is_alert_def greater_be_256_iff not_less)

section \<open>Property\<close>



end
