(* ===== verification/Rule_Approval.thy ===== *)
theory Rule_Approval
  imports Rule_Large_Transfer
begin

text \<open>
  \<open>ApprovalRule\<close> (\<open>risk/rules/approval_rule.cpp\<close>, \<open>risk/approval_config.hpp\<close>): allowances above
  a threshold, and unlimited allowances (\<open>2 ^ 256 - 1\<close>) when the customer asks for them.
\<close>

record ApprovalRuleConfig =
  ac_customer_id :: u64
  ac_chain_id :: u64
  ac_token_address :: bytes
  ac_threshold_be :: bytes
  ac_alert_on_infinite :: bool
  ac_enabled :: bool

type_synonym approval_map = "((u64 \<times> string) \<times> ApprovalRuleConfig list) list"

definition approval_is_infinite :: "EvmLogEvent \<Rightarrow> bool" where
  "approval_is_infinite evm \<longleftrightarrow> (\<forall>b\<in>set (take 32 (evm_data evm)). b = 0xFF)"

definition approval_alert :: "Signal \<Rightarrow> EvmLogEvent \<Rightarrow> ApprovalRuleConfig \<Rightarrow> Alert" where
  "approval_alert s evm cfg = zero_alert
     \<lparr>al_customer_id := ac_customer_id cfg, al_rule_type := ''approval'',
      al_timestamp_ms := sm_timestamp_ms (sig_meta s), al_chain_id := Some (evm_chain_id evm),
      al_token_address := Some (address_to_hex (evm_address evm)),
      al_amount_decimal := Some (uint256_be_to_decimal (evm_data evm)),
      al_message := (if approval_is_infinite evm then ''Infinite approval detected''
                     else ''Large approval detected'')\<rparr>"

primrec approval_loop ::
  "Signal \<Rightarrow> EvmLogEvent \<Rightarrow> ApprovalRuleConfig list \<Rightarrow> Alert list \<Rightarrow> Alert list" where
  "approval_loop s evm [] out = out"
| "approval_loop s evm (cfg # cfgs) out =
     (if \<not> ac_enabled cfg then approval_loop s evm cfgs out
      else let exceeds = greater_be_256 (evm_data evm) (ac_threshold_be cfg);
               is_alert = (ac_alert_on_infinite cfg \<and> approval_is_infinite evm) \<or> exceeds
           in if \<not> is_alert then approval_loop s evm cfgs out
              else approval_loop s evm cfgs (out @ [approval_alert s evm cfg]))"

definition approval_evaluate :: "approval_map \<Rightarrow> Signal \<Rightarrow> Alert list \<Rightarrow> Alert list" where
  "approval_evaluate config_map s out =
     (if sig_type s \<noteq> ST_Approval then out
      else case get_evm s of None \<Rightarrow> out
      | Some evm \<Rightarrow>
          if unusable_log evm then out
          else case map_of config_map (evm_chain_id evm, address_to_hex (evm_address evm)) of
            None \<Rightarrow> out
          | Some cfgs \<Rightarrow> approval_loop s evm cfgs out)"

definition approval_interests :: u32 where
  "approval_interests = make_mask ST_Approval"

section \<open>Contract\<close>

definition approval_event :: "Signal \<Rightarrow> EvmLogEvent option" where
  "approval_event s = (if sig_type s \<noteq> ST_Approval then None
     else case get_evm s of None \<Rightarrow> None | Some evm \<Rightarrow> if unusable_log evm then None else Some evm)"

definition approval_entries :: "approval_map \<Rightarrow> EvmLogEvent \<Rightarrow> ApprovalRuleConfig list" where
  "approval_entries m evm = bucket m (evm_chain_id evm, address_to_hex (evm_address evm))"

definition approval_fires :: "EvmLogEvent \<Rightarrow> ApprovalRuleConfig \<Rightarrow> bool" where
  "approval_fires evm cfg \<longleftrightarrow> ac_enabled cfg \<and>
     (ac_alert_on_infinite cfg \<and> approval_is_infinite evm \<or>
      greater_be_256 (evm_data evm) (ac_threshold_be cfg))"

lemma approval_loop_eq:
  "approval_loop s evm cfgs out = out @ map (approval_alert s evm) (filter (approval_fires evm) cfgs)"
  by (induction cfgs arbitrary: out) (auto simp: approval_fires_def Let_def)

interpretation approval: bucket_rule approval_interests "''approval''"
  approval_event approval_entries approval_fires "\<lambda>_. approval_alert" ac_customer_id
  approval_evaluate
  by unfold_locales
    (auto simp: approval_evaluate_def approval_event_def approval_entries_def bucket_def
      approval_loop_eq alert_stamped_def approval_alert_def zero_alert_def split: option.splits)

lemma be_value_all_FF: "(\<forall>b\<in>set bs. b = 0xFF) \<Longrightarrow> Suc (be_value bs) = 256 ^ length bs"
  by (induction bs) (auto simp: be_value_Cons)

lemma approval_is_infinite_iff:
  assumes "wf_evm evm"
  shows "approval_is_infinite evm \<longleftrightarrow> be_value (take 32 (evm_data evm)) = 2 ^ 256 - 1"
proof
  assume "approval_is_infinite evm"
  then show "be_value (take 32 (evm_data evm)) = 2 ^ 256 - 1"
    using be_value_all_FF [of "take 32 (evm_data evm)"] take_32_amount [OF assms]
    by (simp add: approval_is_infinite_def)
next
  assume max: "be_value (take 32 (evm_data evm)) = 2 ^ 256 - 1"
  have "be_value (replicate 32 (0xFF :: u8)) = 2 ^ 256 - 1"
    using be_value_all_FF [of "replicate 32 0xFF"] by simp
  with max have "take 32 (evm_data evm) = replicate 32 0xFF"
    using be_value_inj [of "take 32 (evm_data evm)" "replicate 32 0xFF"] take_32_amount [OF assms]
    by simp
  then show "approval_is_infinite evm" by (simp add: approval_is_infinite_def)
qed

lemma approval_evaluate_exact:
  assumes "sig_type s = ST_Approval" and "sig_payload s = P_EvmLogEvent evm" and "wf_evm evm"
    and "list_all (\<lambda>c. length (ac_threshold_be c) = 32) (approval_entries m evm)"
  shows "approval_evaluate m s out = out @ map (approval_alert s evm)
     (filter (\<lambda>c. \<not> unusable_log evm \<and> ac_enabled c \<and>
        (be_value (ac_threshold_be c) < be_value (take 32 (evm_data evm)) \<or>
         ac_alert_on_infinite c \<and> be_value (take 32 (evm_data evm)) = 2 ^ 256 - 1))
       (approval_entries m evm))"
proof -
  have "approval_fires evm c \<longleftrightarrow> ac_enabled c \<and>
      (be_value (ac_threshold_be c) < be_value (take 32 (evm_data evm)) \<or>
       ac_alert_on_infinite c \<and> be_value (take 32 (evm_data evm)) = 2 ^ 256 - 1)"
    if "c \<in> set (approval_entries m evm)" for c
    using assms(3,4) that unfolding approval_fires_def approval_is_infinite_iff [OF assms(3)]
    by (auto simp: list_all_iff wf_evm_def greater_be_256_iff)
  then show ?thesis
    using assms(1,2) approval.evaluate_eq [of m s out]
    by (simp add: approval_event_def get_evm_def cong: filter_cong)
qed

section \<open>Property\<close>

text \<open>
  C28: an approval log alerts exactly the enabled watchers of the token whose threshold is
  strictly below the allowance, or who asked for unlimited allowances when it is \<open>2 ^ 256 - 1\<close>;
  logs that are removed, cut or incomplete alert nobody.
\<close>

theorem approval_exact:
  assumes "sig_type s = ST_Approval" and "sig_payload s = P_EvmLogEvent evm" and "wf_evm evm"
    and "list_all (\<lambda>c. length (ac_threshold_be c) = 32) (approval_entries m evm)"
  shows "approval_evaluate m s out = out @ map (approval_alert s evm)
     (filter (\<lambda>c. \<not> unusable_log evm \<and> ac_enabled c \<and>
        (be_value (ac_threshold_be c) < be_value (take 32 (evm_data evm)) \<or>
         ac_alert_on_infinite c \<and> be_value (take 32 (evm_data evm)) = 2 ^ 256 - 1))
       (approval_entries m evm))"
  using assms by (rule approval_evaluate_exact)

theorem approval_exact_witness:
  "length (approval_evaluate
     [((1, address_to_hex (replicate 20 1)), [\<lparr>ac_customer_id = 3, ac_chain_id = 1, ac_token_address = [],
        ac_threshold_be = small_be 5, ac_alert_on_infinite = False, ac_enabled = True\<rparr>])]
     (sample_signal ST_Approval (P_EvmLogEvent (sample_evm 9))) []) = 1"
  by (subst approval_exact [OF sample_signal_facts])
     (simp_all add: bucket_def approval_entries_def unusable_log_def)

end
