(* ===== verification/Rule_Bridge_Transfer.thy ===== *)
theory Rule_Bridge_Transfer
  imports Rule_Large_Transfer
begin

text \<open>
  \<open>BridgeTransferRule\<close> (\<open>risk/rules/bridge_transfer_rule.cpp\<close>, \<open>risk/bridge_config.hpp\<close>):
  transfers whose recipient is a registered bridge contract.  The rule object holds the
  per-customer configurations and refers to the registry of bridge addresses and names.
\<close>

record BridgeRuleConfig =
  bc_customer_id :: u64
  bc_chain_id :: u64
  bc_token_address :: bytes
  bc_threshold_be :: bytes
  bc_enabled :: bool

type_synonym address_key = "u64 \<times> bytes"
type_synonym bridge_map = "(address_key \<times> BridgeRuleConfig list) list"

record BridgeTransferRule =
  br_configs_by_key :: bridge_map
  br_bridge_addresses :: "address_key list"
  br_bridge_names :: "(address_key \<times> string) list"

text \<open>\<open>topics[2]\<close> is the recipient, left-padded to 32 bytes.\<close>

definition bridge_key :: "EvmLogEvent \<Rightarrow> address_key" where
  "bridge_key evm = (evm_chain_id evm, drop 12 (evm_topics evm ! 2))"

definition bridge_name :: "BridgeTransferRule \<Rightarrow> EvmLogEvent \<Rightarrow> string" where
  "bridge_name r evm = (case map_of (br_bridge_names r) (bridge_key evm) of
     None \<Rightarrow> ''unknown bridge'' | Some n \<Rightarrow> n)"

definition bridge_alert ::
  "BridgeTransferRule \<Rightarrow> Signal \<Rightarrow> EvmLogEvent \<Rightarrow> BridgeRuleConfig \<Rightarrow> Alert" where
  "bridge_alert r s evm config = zero_alert
     \<lparr>al_customer_id := bc_customer_id config, al_rule_type := ''bridge_transfer'',
      al_message := ''Large transfer to bridge '' @ [CHR 0x27] @ bridge_name r evm @ [CHR 0x27] @ '' detected'',
      al_timestamp_ms := sm_timestamp_ms (sig_meta s),
      al_amount_decimal := Some (uint256_be_to_decimal (evm_data evm)),
      al_token_address := Some (address_to_hex (evm_address evm)),
      al_chain_id := Some (bc_chain_id config)\<rparr>"

primrec bridge_loop ::
  "BridgeTransferRule \<Rightarrow> Signal \<Rightarrow> EvmLogEvent \<Rightarrow> BridgeRuleConfig list \<Rightarrow> Alert list \<Rightarrow> Alert list" where
  "bridge_loop r s evm [] out = out"
| "bridge_loop r s evm (config # configs) out =
     (if \<not> bc_enabled config then bridge_loop r s evm configs out
      else if \<not> greater_be_256 (evm_data evm) (bc_threshold_be config)
      then bridge_loop r s evm configs out
      else bridge_loop r s evm configs (out @ [bridge_alert r s evm config]))"

definition bridge_evaluate :: "BridgeTransferRule \<Rightarrow> Signal \<Rightarrow> Alert list \<Rightarrow> Alert list" where
  "bridge_evaluate r s out =
     (if sig_type s \<noteq> ST_Transfer then out
      else case get_evm s of None \<Rightarrow> out
      | Some evm \<Rightarrow>
          if unusable_log evm then out
          else if bridge_key evm \<notin> set (br_bridge_addresses r) then out
          else case map_of (br_configs_by_key r) (evm_chain_id evm, evm_address evm) of
            None \<Rightarrow> out
          | Some configs \<Rightarrow> bridge_loop r s evm configs out)"

definition bridge_interests :: u32 where
  "bridge_interests = make_mask ST_Transfer"

section \<open>Contract\<close>

definition bridge_event :: "Signal \<Rightarrow> EvmLogEvent option" where
  "bridge_event s = (if sig_type s \<noteq> ST_Transfer then None
     else case get_evm s of None \<Rightarrow> None | Some evm \<Rightarrow> if unusable_log evm then None else Some evm)"

definition bridge_entries :: "BridgeTransferRule \<Rightarrow> EvmLogEvent \<Rightarrow> BridgeRuleConfig list" where
  "bridge_entries r evm = (if bridge_key evm \<in> set (br_bridge_addresses r)
     then bucket (br_configs_by_key r) (evm_chain_id evm, evm_address evm) else [])"

definition bridge_fires :: "EvmLogEvent \<Rightarrow> BridgeRuleConfig \<Rightarrow> bool" where
  "bridge_fires evm c \<longleftrightarrow> bc_enabled c \<and> greater_be_256 (evm_data evm) (bc_threshold_be c)"

lemma bridge_loop_eq:
  "bridge_loop r s evm configs out = out @ map (bridge_alert r s evm) (filter (bridge_fires evm) configs)"
  by (induction configs arbitrary: out) (auto simp: bridge_fires_def)

interpretation bridge: bucket_rule bridge_interests "''bridge_transfer''"
  bridge_event bridge_entries bridge_fires bridge_alert bc_customer_id bridge_evaluate
  by unfold_locales
    (auto simp: bridge_evaluate_def bridge_event_def bridge_entries_def bucket_def
      bridge_loop_eq alert_stamped_def bridge_alert_def zero_alert_def split: option.splits)

lemma bridge_fires_iff:
  assumes "wf_evm evm" and "length (bc_threshold_be c) = 32"
  shows "bridge_fires evm c \<longleftrightarrow> bc_enabled c \<and>
     be_value (bc_threshold_be c) < be_value (take 32 (evm_data evm))"
  using assms by (simp add: bridge_fires_def greater_be_256_iff wf_evm_def)

section \<open>Property\<close>

text \<open>
  C26: a transfer alerts through the bridge rule exactly when its recipient is a registered
  bridge of the chain, for the enabled watchers of the token with a threshold strictly below
  the amount.
\<close>

theorem bridge_exact:
  assumes "sig_type s = ST_Transfer" and "sig_payload s = P_EvmLogEvent evm" and "wf_evm evm"
    and "list_all (\<lambda>c. length (bc_threshold_be c) = 32)
      (bucket (br_configs_by_key r) (evm_chain_id evm, evm_address evm))"
  shows "bridge_evaluate r s out = out @ map (bridge_alert r s evm)
     (filter (\<lambda>c. \<not> unusable_log evm \<and>
        (evm_chain_id evm, drop 12 (evm_topics evm ! 2)) \<in> set (br_bridge_addresses r) \<and>
        bc_enabled c \<and> be_value (bc_threshold_be c) < be_value (take 32 (evm_data evm)))
       (bucket (br_configs_by_key r) (evm_chain_id evm, evm_address evm)))"
proof -
  have "bridge_fires evm c \<longleftrightarrow> bc_enabled c \<and>
      be_value (bc_threshold_be c) < be_value (take 32 (evm_data evm))"
    if "c \<in> set (bucket (br_configs_by_key r) (evm_chain_id evm, evm_address evm))" for c
    using assms(3,4) that bridge_fires_iff [of evm c] by (auto simp: list_all_iff)
  then show ?thesis
    using assms(1,2) bridge.evaluate_eq [of r s out]
    by (simp add: bridge_event_def bridge_entries_def bridge_key_def get_evm_def cong: filter_cong)
qed

theorem bridge_exact_witness:
  "length (bridge_evaluate
     \<lparr>br_configs_by_key = [((1, replicate 20 1), [\<lparr>bc_customer_id = 3, bc_chain_id = 1,
        bc_token_address = [], bc_threshold_be = small_be 5, bc_enabled = True\<rparr>])],
      br_bridge_addresses = [(1, replicate 20 0)], br_bridge_names = []\<rparr>
     (sample_signal ST_Transfer (P_EvmLogEvent (sample_evm 9))) []) = 1"
  by (subst bridge_exact [OF sample_signal_facts]) (simp_all add: bucket_def unusable_log_def)

end
