(* ===== verification/Rule_Oracle_Update.thy ===== *)
theory Rule_Oracle_Update
  imports Rule_Interface
begin

text \<open>
  \<open>OracleUpdateRule\<close> (\<open>risk/rules/oracle_update_rule.cpp\<close>, \<open>risk/oracle_config.hpp\<close>): the one
  stateful rule.  It keeps the last accepted observation per feed and alerts when the
  relative change, in basis points, exceeds a customer's threshold.  The \<open>__int128\<close>
  intermediate is computed without bound and then clamped, as the code does.  The lemmas give
  the invariant of the stored observations, the exact arithmetic condition of an alert, and
  a refinement to a machine that stores plain prices.
\<close>

section \<open>Definitions\<close>

record OracleRuleConfig =
  oc_customer_id :: u64
  oc_chain_id :: u64
  oc_aggregator_address :: bytes
  oc_feed_label :: string
  oc_spike_threshold_bps :: u32
  oc_decimals :: u8
  oc_enabled :: bool

type_synonym feed_key = "u64 \<times> bytes"
type_synonym oracle_map = "(feed_key \<times> OracleRuleConfig list) list"

record LastObservation =
  lo_answer :: bytes
  lo_updated_at :: u64

record OracleUpdateRule =
  ou_configs_by_feed :: oracle_map
  ou_last_by_feed :: "(feed_key \<times> LastObservation) list"

definition format_pct_from_bps :: "u64 \<Rightarrow> string" where
  "format_pct_from_bps delta_bps =
     (let whole = delta_bps div 100; frac = delta_bps mod 100 in
      to_string whole @ ''.'' @ (if frac < 10 then ''0'' else []) @ to_string frac)"

definition oracle_diff :: "u64 \<Rightarrow> u64 \<Rightarrow> u64" where
  "oracle_diff current_u64 prev_u64 =
     (if current_u64 > prev_u64 then current_u64 - prev_u64 else prev_u64 - current_u64)"

definition oracle_delta_bps :: "u64 \<Rightarrow> u64 \<Rightarrow> u64" where
  "oracle_delta_bps current_u64 prev_u64 =
     (let delta_i = (int (unat (oracle_diff current_u64 prev_u64)) * 10000) div int (unat prev_u64) in
      if delta_i > 2 ^ 64 - 1 then 0xFFFFFFFFFFFFFFFF else word_of_int delta_i)"

definition oracle_alert ::
  "Signal \<Rightarrow> OracleUpdateEvent \<Rightarrow> u64 \<Rightarrow> u64 \<Rightarrow> OracleRuleConfig \<Rightarrow> Alert" where
  "oracle_alert s u current_u64 delta_bps cfg = zero_alert
     \<lparr>al_customer_id := oc_customer_id cfg, al_rule_type := ''oracle_update'',
      al_message := ''Oracle spike on '' @ oc_feed_label cfg @ '': '' @
        format_pct_from_bps delta_bps @ ''% change'',
      al_timestamp_ms := sm_timestamp_ms (sig_meta s),
      al_amount_decimal := Some (to_string current_u64),
      al_token_address := Some (address_to_hex (or_aggregator_address u)),
      al_chain_id := Some (or_chain_id u)\<rparr>"

primrec oracle_loop ::
  "Signal \<Rightarrow> OracleUpdateEvent \<Rightarrow> u64 \<Rightarrow> u64 \<Rightarrow> OracleRuleConfig list \<Rightarrow> Alert list \<Rightarrow> Alert list" where
  "oracle_loop s u current_u64 delta_bps [] out = out"
| "oracle_loop s u current_u64 delta_bps (cfg # cfgs) out =
     (if \<not> oc_enabled cfg then oracle_loop s u current_u64 delta_bps cfgs out
      else if delta_bps \<le> ucast (oc_spike_threshold_bps cfg)
      then oracle_loop s u current_u64 delta_bps cfgs out
      else oracle_loop s u current_u64 delta_bps cfgs
        (out @ [oracle_alert s u current_u64 delta_bps cfg]))"

definition oracle_evaluate :: "OracleUpdateRule evaluation" where
  "oracle_evaluate r s out =
     (if sig_type s \<noteq> ST_OracleUpdate then (r, out)
      else case sig_payload s of
        P_OracleUpdateEvent u \<Rightarrow>
          (let key = (or_chain_id u, or_aggregator_address u);
               observation = \<lparr>lo_answer = or_current_answer u, lo_updated_at = or_updated_at u\<rparr>;
               store = r\<lparr>ou_last_by_feed := AList.update key observation (ou_last_by_feed r)\<rparr> in
           case map_of (ou_configs_by_feed r) key of
             None \<Rightarrow> (r, out)
           | Some cfgs \<Rightarrow>
               if (or_current_answer u ! 0) AND 0x80 \<noteq> 0 then (r, out)
               else if \<exists>b\<in>set (take 24 (or_current_answer u)). b \<noteq> 0 then (r, out)
               else
                 let current_u64 = be_u64 (take 8 (drop 24 (or_current_answer u))) in
                 case map_of (ou_last_by_feed r) key of
                   None \<Rightarrow> (store, out)
                 | Some obs \<Rightarrow>
                     let prev_u64 = be_u64 (take 8 (drop 24 (lo_answer obs))) in
                     if prev_u64 = 0 then (store, out)
                     else (store, oracle_loop s u current_u64
                                    (oracle_delta_bps current_u64 prev_u64) cfgs out))
      | _ \<Rightarrow> (r, out))"

definition oracle_interests :: u32 where
  "oracle_interests = make_mask ST_OracleUpdate"

section \<open>Contract\<close>

definition oracle_fires :: "u64 \<Rightarrow> OracleRuleConfig \<Rightarrow> bool" where
  "oracle_fires delta_bps cfg \<longleftrightarrow> oc_enabled cfg \<and> ucast (oc_spike_threshold_bps cfg) < delta_bps"

lemma oracle_loop_eq:
  "oracle_loop s u current delta cfgs out =
     out @ map (oracle_alert s u current delta) (filter (oracle_fires delta) cfgs)"
  by (induction cfgs arbitrary: out) (auto simp: oracle_fires_def not_le)

definition oracle_customers :: "OracleUpdateRule \<Rightarrow> u64 set" where
  "oracle_customers r = oc_customer_id ` (\<Union>entry\<in>set (ou_configs_by_feed r). set (snd entry))"

lemma oracle_alert_stamped:
  "cfg \<in> set cfgs \<Longrightarrow> map_of (ou_configs_by_feed r) key = Some cfgs \<Longrightarrow>
   alert_stamped ''oracle_update'' s (oracle_customers r) (oracle_alert s u current delta cfg)"
  by (force simp: alert_stamped_def oracle_alert_def zero_alert_def oracle_customers_def
      dest: map_of_SomeD)

interpretation oracle_update: risk_rule "\<lambda>_. oracle_interests" "\<lambda>_. ''oracle_update''" oracle_evaluate
  oracle_customers
proof unfold_locales
  fix r s out
  show "oracle_evaluate r s out = (fst (oracle_evaluate r s []), out @ snd (oracle_evaluate r s []))"
    by (simp add: oracle_evaluate_def oracle_loop_eq Let_def split: SignalPayload.splits option.splits)
next
  fix a r s
  assume "a \<in> set (snd (oracle_evaluate r s []))"
  then show "alert_stamped ''oracle_update'' s (oracle_customers r) a"
    by (auto simp: oracle_evaluate_def oracle_loop_eq Let_def oracle_alert_stamped
        split: SignalPayload.splits option.splits if_splits)
next
  fix r s
  show "oracle_customers (fst (oracle_evaluate r s [])) = oracle_customers r"
    by (simp add: oracle_evaluate_def oracle_customers_def Let_def
        split: SignalPayload.splits option.splits)
qed simp_all

section \<open>Arithmetic of the change in basis points\<close>

lemma unat_oracle_diff: "unat (oracle_diff c p) = nat \<bar>int (unat c) - int (unat p)\<bar>"
proof (cases "p < c")
  case True
  then have "unat (c - p) = unat c - unat p" by (intro unat_sub) simp
  with True show ?thesis
    by (simp add: oracle_diff_def word_less_nat_alt del: of_nat_unat)
next
  case False
  then have "unat (p - c) = unat p - unat c" by (intro unat_sub) simp
  with False show ?thesis
    by (simp add: oracle_diff_def word_less_nat_alt del: of_nat_unat)
qed

lemma oracle_delta_bps_correct:
  "unat (oracle_delta_bps c p) =
     min (2 ^ 64 - 1) (nat \<bar>int (unat c) - int (unat p)\<bar> * 10000 div unat p)"
proof -
  define n where "n = unat (oracle_diff c p) * 10000 div unat p"
  have d: "int (unat (oracle_diff c p)) * 10000 div int (unat p) = int n"
    by (simp only: n_def zdiv_int of_nat_mult of_nat_numeral)
  have n: "nat \<bar>int (unat c) - int (unat p)\<bar> * 10000 div unat p = n"
    by (simp only: n_def unat_oracle_diff)
  have clamp: "unat (0xFFFFFFFFFFFFFFFF :: u64) = 2 ^ 64 - 1" by simp
  have fit: "unat (word_of_int (int n) :: u64) = n" if "n < 2 ^ 64"
    using that by (simp add: unsigned_of_nat take_bit_eq_mod)
  have over: "int n > 2 ^ 64 - 1 \<longleftrightarrow> \<not> n < 2 ^ 64" by auto
  have "min (2 ^ 64 - 1) n = (if \<not> n < 2 ^ 64 then 2 ^ 64 - 1 else n)" by auto
  then show ?thesis
    unfolding oracle_delta_bps_def Let_def d over n using fit clamp by presburger
qed

text \<open>
  An enabled entry fires exactly when the change, as a fraction of the previous price, is at
  least one basis point above its threshold: the division truncates, the clamp is immaterial.
\<close>

lemma oracle_fires_iff:
  assumes "p \<noteq> 0"
  shows "oracle_fires (oracle_delta_bps c p) cfg \<longleftrightarrow> oc_enabled cfg \<and>
     (unat (oc_spike_threshold_bps cfg) + 1) * unat p \<le> nat \<bar>int (unat c) - int (unat p)\<bar> * 10000"
proof -
  let ?t = "unat (oc_spike_threshold_bps cfg)"
  let ?n = "nat \<bar>int (unat c) - int (unat p)\<bar> * 10000"
  have t: "?t < 2 ^ 32" using unsigned_less [of "oc_spike_threshold_bps cfg"] by simp
  have u: "unat (ucast (oc_spike_threshold_bps cfg) :: u64) = ?t"
    using t by (simp add: unsigned_ucast_eq take_bit_eq_mod)
  have "0 < unat p" using assms by (simp add: unat_gt_0)
  then have "?t < ?n div unat p \<longleftrightarrow> (?t + 1) * unat p \<le> ?n"
    by (metis Suc_eq_plus1 Suc_le_eq less_eq_div_iff_mult_less_eq)
  moreover have "?t < min (2 ^ 64 - 1) (?n div unat p) \<longleftrightarrow> ?t < ?n div unat p"
    using t by auto
  ultimately show ?thesis
    by (simp add: oracle_fires_def word_less_nat_alt u oracle_delta_bps_correct)
qed

section \<open>Invariant and refinement to a price table\<close>

definition answer_fits :: "bytes \<Rightarrow> bool" where
  "answer_fits a \<longleftrightarrow> length a = 32 \<and> be_value a < 2 ^ 64"

definition oracle_inv :: "OracleUpdateRule \<Rightarrow> bool" where
  "oracle_inv r \<longleftrightarrow>
     (\<forall>(key, obs)\<in>set (ou_last_by_feed r).
        key \<in> fst ` set (ou_configs_by_feed r) \<and> answer_fits (lo_answer obs))"

text \<open>
  The abstract machine: a table from feeds to prices, numbers below \<open>2 ^ 64\<close>.  An answer that
  is negative as an \<open>int256\<close> is above \<open>2 ^ 255\<close> read without sign, so one bound covers both
  guards of the code.
\<close>

definition oracle_accepts :: "oracle_map \<Rightarrow> feed_key \<Rightarrow> nat \<Rightarrow> bool" where
  "oracle_accepts cfgs key v \<longleftrightarrow> map_of cfgs key \<noteq> None \<and> v < 2 ^ 64"

definition price_step :: "oracle_map \<Rightarrow> feed_key \<Rightarrow> nat \<Rightarrow> (feed_key \<rightharpoonup> nat) \<Rightarrow> (feed_key \<rightharpoonup> nat)" where
  "price_step cfgs key v prices = (if oracle_accepts cfgs key v then prices(key \<mapsto> v) else prices)"

definition price_alerts ::
  "oracle_map \<Rightarrow> feed_key \<Rightarrow> nat \<Rightarrow> (feed_key \<rightharpoonup> nat) \<Rightarrow> OracleRuleConfig list" where
  "price_alerts cfgs key v prices =
     (if \<not> oracle_accepts cfgs key v then []
      else case prices key of None \<Rightarrow> []
        | Some p \<Rightarrow> if p = 0 then []
            else filter (\<lambda>c. oc_enabled c \<and>
              (unat (oc_spike_threshold_bps c) + 1) * p \<le> nat \<bar>int v - int p\<bar> * 10000) (bucket cfgs key))"

text \<open>The change that the alert's text states: in basis points of the previous price, at most \<open>2 ^ 64 - 1\<close>.\<close>

definition price_change :: "nat \<Rightarrow> nat \<Rightarrow> nat" where
  "price_change v p = min (2 ^ 64 - 1) (nat \<bar>int v - int p\<bar> * 10000 div p)"

definition price_update_alerts :: "oracle_map \<Rightarrow> Signal \<Rightarrow> OracleUpdateEvent \<Rightarrow> nat \<Rightarrow> (feed_key \<rightharpoonup> nat) \<Rightarrow> feed_key \<Rightarrow> Alert list" where
  "price_update_alerts cfgs s u v prices key =
     (case prices key of None \<Rightarrow> []
      | Some p \<Rightarrow> map (oracle_alert s u (word_of_nat v) (word_of_nat (price_change v p))) (price_alerts cfgs key v prices))"

definition oracle_prices :: "OracleUpdateRule \<Rightarrow> feed_key \<rightharpoonup> nat" where
  "oracle_prices r key = map_option (be_value \<circ> lo_answer) (map_of (ou_last_by_feed r) key)"

definition update_key :: "OracleUpdateEvent \<Rightarrow> feed_key" where
  "update_key u = (or_chain_id u, or_aggregator_address u)"

lemma be_value_low:
  assumes "length a = 32"
  shows "be_value a < 2 ^ 64 \<longleftrightarrow> (\<forall>b\<in>set (take 24 a). b = 0)"
    and "(\<forall>b\<in>set (take 24 a). b = 0) \<Longrightarrow> unat (be_u64 (take 8 (drop 24 a))) = be_value a"
proof -
  have split: "be_value a = be_value (take 24 a) * 2 ^ 64 + be_value (drop 24 a)"
    using be_value_append [of "take 24 a" "drop 24 a"] assms by simp
  have low: "be_value (drop 24 a) < 2 ^ 64"
    using be_value_bound [of "drop 24 a"] assms by simp
  have "be_value (take 24 a) = 0 \<or> 2 ^ 64 \<le> be_value (take 24 a) * 2 ^ 64"
    by (cases "be_value (take 24 a)") simp_all
  then show "be_value a < 2 ^ 64 \<longleftrightarrow> (\<forall>b\<in>set (take 24 a). b = 0)"
    using split low unfolding be_value_zero_iff [symmetric] by auto
  show "unat (be_u64 (take 8 (drop 24 a))) = be_value a" if "\<forall>b\<in>set (take 24 a). b = 0"
    using that assms split unfolding be_value_zero_iff [symmetric] by (simp add: unat_be_u64)
qed

lemma fits_unat:
  "length a = 32 \<Longrightarrow> be_value a < 2 ^ 64 \<Longrightarrow> unat (be_u64 (take 8 (drop 24 a))) = be_value a"
  using be_value_low by blast

lemma sign_bit_high:
  assumes "length a = 32" and "(a ! 0) AND 0x80 \<noteq> (0 :: u8)"
  shows "\<not> be_value a < 2 ^ 64"
proof -
  have "a ! 0 \<noteq> 0" using assms(2) by auto
  moreover have "a ! 0 \<in> set (take 24 a)"
    using assms(1) nth_mem [of 0 "take 24 a"] by simp
  ultimately show ?thesis using be_value_low(1) [OF assms(1)] by auto
qed

text \<open>The rule body in terms of values: the two guards are the bound, the result is the table's.\<close>

lemma oracle_evaluate_value:
  assumes "sig_type s = ST_OracleUpdate" and "sig_payload s = P_OracleUpdateEvent u"
    and "length (or_current_answer u) = 32"
  shows "oracle_evaluate r s [] =
     (if oracle_accepts (ou_configs_by_feed r) (update_key u) (be_value (or_current_answer u)) then
        (r\<lparr>ou_last_by_feed := AList.update (update_key u)
            \<lparr>lo_answer = or_current_answer u, lo_updated_at = or_updated_at u\<rparr> (ou_last_by_feed r)\<rparr>,
         case map_of (ou_last_by_feed r) (update_key u) of None \<Rightarrow> []
         | Some obs \<Rightarrow>
             let prev = be_u64 (take 8 (drop 24 (lo_answer obs)));
                 cur = be_u64 (take 8 (drop 24 (or_current_answer u))) in
             if prev = 0 then []
             else map (oracle_alert s u cur (oracle_delta_bps cur prev))
                    (filter (oracle_fires (oracle_delta_bps cur prev))
                       (bucket (ou_configs_by_feed r) (update_key u))))
      else (r, []))"
  using assms sign_bit_high [OF assms(3)] be_value_low(1) [OF assms(3)]
  by (auto simp: oracle_evaluate_def oracle_accepts_def update_key_def bucket_def Let_def
      oracle_loop_eq split: option.splits)

lemma oracle_evaluate_ignores:
  assumes "\<not> (\<exists>u. sig_type s = ST_OracleUpdate \<and> sig_payload s = P_OracleUpdateEvent u)"
  shows "oracle_evaluate r s out = (r, out)"
  using assms by (auto simp: oracle_evaluate_def split: SignalPayload.splits)

lemma oracle_inv_obs:
  assumes "oracle_inv r" and "map_of (ou_last_by_feed r) key = Some obs"
  shows "key \<in> fst ` set (ou_configs_by_feed r)" and "answer_fits (lo_answer obs)"
  using assms by (auto simp: oracle_inv_def dest!: map_of_SomeD)

lemma set_AList_update_subset: "set (AList.update k v m) \<subseteq> insert (k, v) (set m)"
  by (induction m) auto

lemma oracle_inv_update:
  assumes "oracle_inv r" and "key \<in> fst ` set (ou_configs_by_feed r)" and "answer_fits (lo_answer obs)"
  shows "oracle_inv (r\<lparr>ou_last_by_feed := AList.update key obs (ou_last_by_feed r)\<rparr>)"
proof -
  let ?ok = "\<lambda>(key, obs). key \<in> fst ` set (ou_configs_by_feed r) \<and> answer_fits (lo_answer obs)"
  have "\<forall>entry\<in>insert (key, obs) (set (ou_last_by_feed r)). ?ok entry"
    using assms by (simp add: oracle_inv_def)
  then have "\<forall>entry\<in>set (AList.update key obs (ou_last_by_feed r)). ?ok entry"
    using set_AList_update_subset by (meson subsetD)
  then show ?thesis by (simp add: oracle_inv_def)
qed

lemma oracle_evaluate_configs: "ou_configs_by_feed (fst (oracle_evaluate r s out)) = ou_configs_by_feed r"
  by (simp add: oracle_evaluate_def Let_def split: SignalPayload.splits option.splits)

lemma oracle_inv_step:
  assumes "oracle_inv r" and "signal_wf s"
  shows "oracle_inv (fst (oracle_evaluate r s out))"
proof (cases "\<exists>u. sig_type s = ST_OracleUpdate \<and> sig_payload s = P_OracleUpdateEvent u")
  case False
  then show ?thesis using assms(1) by (simp add: oracle_evaluate_ignores)
next
  case True
  then obtain u where u: "sig_type s = ST_OracleUpdate" "sig_payload s = P_OracleUpdateEvent u"
    by blast
  with assms(2) have len: "length (or_current_answer u) = 32" by (simp add: signal_wf_def)
  let ?obs = "\<lparr>lo_answer = or_current_answer u, lo_updated_at = or_updated_at u\<rparr>"
  have "oracle_inv (r\<lparr>ou_last_by_feed := AList.update (update_key u) ?obs (ou_last_by_feed r)\<rparr>)"
    if "oracle_accepts (ou_configs_by_feed r) (update_key u) (be_value (or_current_answer u))"
    using that assms(1) len
    by (intro oracle_inv_update) (auto simp: oracle_accepts_def answer_fits_def map_of_eq_None_iff)
  then show ?thesis
    using assms(1) unfolding oracle_update.evaluate_split(2) oracle_evaluate_value [OF u len] by simp
qed

lemma oracle_prices_refine:
  assumes "sig_type s = ST_OracleUpdate" and "sig_payload s = P_OracleUpdateEvent u"
    and "length (or_current_answer u) = 32"
  shows "oracle_prices (fst (oracle_evaluate r s [])) =
     price_step (ou_configs_by_feed r) (update_key u) (be_value (or_current_answer u)) (oracle_prices r)"
  unfolding oracle_evaluate_value [OF assms]
  by (auto simp: oracle_prices_def price_step_def fun_eq_iff)

lemma oracle_alerts_refine:
  assumes inv: "oracle_inv r" and s: "sig_type s = ST_OracleUpdate" "sig_payload s = P_OracleUpdateEvent u"
    and len: "length (or_current_answer u) = 32"
  shows "snd (oracle_evaluate r s []) = price_update_alerts (ou_configs_by_feed r) s u (be_value (or_current_answer u))
     (oracle_prices r) (update_key u)"
proof (cases "map_of (ou_last_by_feed r) (update_key u)")
  case None
  then show ?thesis
    unfolding oracle_evaluate_value [OF s len] by (simp add: price_update_alerts_def oracle_prices_def)
next
  case (Some obs)
  let ?prev = "be_u64 (take 8 (drop 24 (lo_answer obs)))" and ?v = "be_value (or_current_answer u)"
  let ?cur = "be_u64 (take 8 (drop 24 (or_current_answer u)))" and ?p = "be_value (lo_answer obs)"
  have prices: "oracle_prices r (update_key u) = Some ?p" using Some by (simp add: oracle_prices_def)
  have fits: "answer_fits (lo_answer obs)" using oracle_inv_obs(2) [OF inv Some] .
  then have prev: "unat ?prev = ?p"
    unfolding answer_fits_def by (intro fits_unat) auto
  then have zero: "?prev = 0 \<longleftrightarrow> ?p = 0"
    by (metis unat_eq_0)
  show ?thesis
  proof (cases "oracle_accepts (ou_configs_by_feed r) (update_key u) ?v")
    case False
    then show ?thesis
      unfolding oracle_evaluate_value [OF s len] price_update_alerts_def prices by (simp add: price_alerts_def)
  next
    case True
    then have cur: "unat ?cur = ?v"
      unfolding oracle_accepts_def by (intro fits_unat len) auto
    have change: "oracle_delta_bps ?cur ?prev = word_of_nat (price_change ?v ?p)"
      using oracle_delta_bps_correct [of ?cur ?prev] unfolding prev cur price_change_def by (metis of_nat_unat ucast_id)
    have current: "?cur = word_of_nat ?v" using cur by (metis of_nat_unat ucast_id)
    have "filter (oracle_fires (oracle_delta_bps ?cur ?prev)) (bucket (ou_configs_by_feed r) (update_key u)) =
        price_alerts (ou_configs_by_feed r) (update_key u) ?v (oracle_prices r)" if "?p \<noteq> 0"
      using that True zero by (simp add: price_alerts_def prices oracle_fires_iff prev cur del: of_nat_unat cong: filter_cong)
    then show ?thesis
      unfolding oracle_evaluate_value [OF s len] price_update_alerts_def prices
      using True Some zero change current by (simp add: Let_def price_alerts_def prices)
  qed
qed

lemma oracle_inv_init: "oracle_inv \<lparr>ou_configs_by_feed = cfgs, ou_last_by_feed = []\<rparr>"
  by (simp add: oracle_inv_def)

section \<open>Properties\<close>

text \<open>
  C13: the price rule refines a table of plain prices.  On every price update the stored
  observations change as the table does (an accepted price replaces the feed's entry, anything
  negative, above 64 bits or not configured leaves it), and the alerts are those the table's
  arithmetic selects: previous price positive and
  \<open>(threshold + 1) * previous \<le> 10000 * |current - previous|\<close>, with no overflow or clamping error; each
  states the price and its exact change.
\<close>

theorem oracle_refines_prices:
  assumes "oracle_inv r" and "sig_type s = ST_OracleUpdate" and "sig_payload s = P_OracleUpdateEvent u"
    and "length (or_current_answer u) = 32"
  shows "oracle_prices (fst (oracle_evaluate r s [])) =
       price_step (ou_configs_by_feed r) (update_key u) (be_value (or_current_answer u)) (oracle_prices r) \<and>
     snd (oracle_evaluate r s []) =
       price_update_alerts (ou_configs_by_feed r) s u (be_value (or_current_answer u)) (oracle_prices r) (update_key u)"
  using oracle_prices_refine oracle_alerts_refine assms by simp

definition sample_feed :: OracleUpdateRule where
  "sample_feed = \<lparr>ou_configs_by_feed = [((1, []), [\<lparr>oc_customer_id = 4, oc_chain_id = 1,
      oc_aggregator_address = [], oc_feed_label = ''ETH'', oc_spike_threshold_bps = 999, oc_decimals = 8,
      oc_enabled = True\<rparr>])],
     ou_last_by_feed = [((1, []), \<lparr>lo_answer = small_be 100, lo_updated_at = 0\<rparr>)]\<rparr>"

definition sample_update :: OracleUpdateEvent where
  "sample_update = \<lparr>or_chain_id = 1, or_aggregator_address = [], or_current_answer = small_be 110,
     or_round_id = [], or_updated_at = 0\<rparr>"

lemma sample_feed_inv: "oracle_inv sample_feed"
  by (simp add: oracle_inv_def sample_feed_def answer_fits_def)

theorem oracle_refines_prices_witness:
  "map al_customer_id (snd (oracle_evaluate sample_feed
     (sample_signal ST_OracleUpdate (P_OracleUpdateEvent sample_update)) [])) = [4]"
proof -
  have "price_alerts (ou_configs_by_feed sample_feed) (update_key sample_update) 110 (oracle_prices sample_feed)
      = bucket (ou_configs_by_feed sample_feed) (1, [])"
    by (simp add: price_alerts_def oracle_accepts_def sample_feed_def oracle_prices_def update_key_def
        sample_update_def bucket_def)
  then have "map al_customer_id (price_update_alerts (ou_configs_by_feed sample_feed)
      (sample_signal ST_OracleUpdate (P_OracleUpdateEvent sample_update)) sample_update 110 (oracle_prices sample_feed)
      (update_key sample_update)) = [4]"
    by (simp add: price_update_alerts_def sample_feed_def oracle_prices_def update_key_def sample_update_def bucket_def
        oracle_alert_def)
  moreover have "be_value (or_current_answer sample_update) = 110" "length (or_current_answer sample_update) = 32"
    by (simp_all add: sample_update_def)
  ultimately show ?thesis
    using oracle_refines_prices [OF sample_feed_inv sample_signal_facts, of sample_update] by simp
qed

text \<open>
  The invariant of the stored observations: only configured feeds are tracked (so the table
  is bounded by the configuration) and every stored answer is a non-negative 64-bit value.
\<close>

theorem oracle_inv_preserved:
  "oracle_inv \<lparr>ou_configs_by_feed = cfgs, ou_last_by_feed = []\<rparr> \<and>
   (oracle_inv r \<longrightarrow> signal_wf s \<longrightarrow> oracle_inv (fst (oracle_evaluate r s out)))"
  using oracle_inv_init oracle_inv_step by blast

theorem oracle_inv_preserved_witness:
  "oracle_inv (fst (oracle_evaluate sample_feed (sample_signal ST_Transfer (P_EvmLogEvent (sample_evm 1))) []))"
  using oracle_inv_preserved [of "[]" sample_feed "sample_signal ST_Transfer (P_EvmLogEvent (sample_evm 1))" "[]"]
    sample_feed_inv by (simp add: signal_wf_def)



end
