(* ===== verification/Heartbeat.thy ===== *)
theory Heartbeat
  imports Sentinel_Prelude
begin

text \<open>
  \<open>health/heartbeat.hpp\<close>: the last tick of a pipeline thread on the steady clock, and its age.
  Zero means "never recorded"; a clock behind the tick counts as fresh.
\<close>

record Heartbeat =
  hb_last_ms :: u64

definition new_heartbeat :: Heartbeat where
  "new_heartbeat = \<lparr>hb_last_ms = 0\<rparr>"

definition heartbeat_record :: "u64 \<Rightarrow> Heartbeat \<Rightarrow> Heartbeat" where
  "heartbeat_record now_ms h = h\<lparr>hb_last_ms := now_ms\<rparr>"

definition last_ms :: "Heartbeat \<Rightarrow> u64" where
  "last_ms h = hb_last_ms h"

definition age_ms :: "u64 \<Rightarrow> Heartbeat \<Rightarrow> u64" where
  "age_ms now_ms h =
     (let last = last_ms h in
      if last = 0 then 0xFFFFFFFFFFFFFFFF
      else if now_ms < last then 0
      else now_ms - last)"

lemma age_ms_correct:
  "unat (age_ms now h) =
     (if hb_last_ms h = 0 then 2 ^ 64 - 1 else unat now - unat (hb_last_ms h))"
  by (auto simp: age_ms_def last_ms_def Let_def word_less_nat_alt not_less unat_sub word_le_nat_alt)

lemma age_after_record: "t \<noteq> 0 \<Longrightarrow> age_ms t (heartbeat_record t h) = 0"
  by (simp add: age_ms_def last_ms_def heartbeat_record_def)

end
