(* ===== verification/Risk_Engine.thy ===== *)
theory Risk_Engine
  imports Rule_Large_Transfer Rule_Governance Rule_Mint_Burn Rule_Approval Rule_Bridge_Transfer
    Rule_Oracle_Update Heartbeat
begin

text \<open>
  \<open>RiskEngine\<close> (\<open>risk/risk_engine.cpp\<close>): the routing table, the registration of rules, and the
  consumer loop with its drain mode.  Rule objects live in a store and the routing table holds
  pointers (indices) into it, because a rule registered under several signal types is one
  object.  One iteration of the loop is \<open>engine_iter\<close>; what it reads from outside (the stop
  token, the front of the ring buffer, the clock) is its argument, and the calls to
  \<open>dispatcher_.dispatch\<close> are recorded in order.  The lemmas show that every rule object sees
  exactly the signals of its interest mask, in order and independently of the other rules,
  and that a drained queue ends the loop.
\<close>

section \<open>The six rules behind one interface\<close>

datatype RiskRule =
    R_LargeTransfer "LargeTransferRuleConfig list"
  | R_Governance governance_map
  | R_MintBurn mint_burn_map
  | R_Approval approval_map
  | R_BridgeTransfer BridgeTransferRule
  | R_OracleUpdate OracleUpdateRule

primrec rule_interests :: "RiskRule \<Rightarrow> u32" where
  "rule_interests (R_LargeTransfer _) = large_transfer_interests"
| "rule_interests (R_Governance _) = governance_interests"
| "rule_interests (R_MintBurn _) = mint_burn_interests"
| "rule_interests (R_Approval _) = approval_interests"
| "rule_interests (R_BridgeTransfer _) = bridge_interests"
| "rule_interests (R_OracleUpdate _) = oracle_interests"

primrec rule_type_name :: "RiskRule \<Rightarrow> string" where
  "rule_type_name (R_LargeTransfer _) = ''large_transfer''"
| "rule_type_name (R_Governance _) = ''governance''"
| "rule_type_name (R_MintBurn _) = ''mint_burn''"
| "rule_type_name (R_Approval _) = ''approval''"
| "rule_type_name (R_BridgeTransfer _) = ''bridge_transfer''"
| "rule_type_name (R_OracleUpdate _) = ''oracle_update''"

primrec rule_evaluate :: "RiskRule evaluation" where
  "rule_evaluate (R_LargeTransfer r) s out = (R_LargeTransfer r, large_transfer_evaluate r s out)"
| "rule_evaluate (R_Governance r) s out = (R_Governance r, governance_evaluate r s out)"
| "rule_evaluate (R_MintBurn r) s out = (R_MintBurn r, mint_burn_evaluate r s out)"
| "rule_evaluate (R_Approval r) s out = (R_Approval r, approval_evaluate r s out)"
| "rule_evaluate (R_BridgeTransfer r) s out = (R_BridgeTransfer r, bridge_evaluate r s out)"
| "rule_evaluate (R_OracleUpdate r) s out =
     (case oracle_evaluate r s out of (r', out') \<Rightarrow> (R_OracleUpdate r', out'))"

primrec rule_customers :: "RiskRule \<Rightarrow> u64 set" where
  "rule_customers (R_LargeTransfer r) = lt_customer_id ` set r"
| "rule_customers (R_Governance r) = {k. \<exists>e. k \<in> gc_customer_id ` set (governance_entries r e)}"
| "rule_customers (R_MintBurn r) = {k. \<exists>e. k \<in> mc_customer_id ` set (mint_burn_entries r e)}"
| "rule_customers (R_Approval r) = {k. \<exists>e. k \<in> ac_customer_id ` set (approval_entries r e)}"
| "rule_customers (R_BridgeTransfer r) = {k. \<exists>e. k \<in> bc_customer_id ` set (bridge_entries r e)}"
| "rule_customers (R_OracleUpdate r) = oracle_customers r"

lemma rule_evaluate_appends:
  "rule_evaluate r s out = (fst (rule_evaluate r s []), out @ snd (rule_evaluate r s []))"
proof (cases r)
  case (R_LargeTransfer x)
  then show ?thesis using large_transfer.as_rule.evaluate_split(1) [of x s out] by simp
next
  case (R_Governance x)
  then show ?thesis using governance.as_rule.evaluate_split(1) [of x s out] by simp
next
  case (R_MintBurn x)
  then show ?thesis using mint_burn.as_rule.evaluate_split(1) [of x s out] by simp
next
  case (R_Approval x)
  then show ?thesis using approval.as_rule.evaluate_split(1) [of x s out] by simp
next
  case (R_BridgeTransfer x)
  then show ?thesis using bridge.as_rule.evaluate_split(1) [of x s out] by simp
next
  case (R_OracleUpdate x)
  then show ?thesis
    using oracle_update.evaluate_split [of x s out] by (simp add: case_prod_unfold)
qed

lemma rule_evaluate_stamps:
  assumes "a \<in> set (snd (rule_evaluate r s []))"
  shows "alert_stamped (rule_type_name r) s (rule_customers r) a"
proof (cases r)
  case (R_LargeTransfer x)
  with assms show ?thesis using large_transfer.as_rule.evaluate_stamps [of a x s] by simp
next
  case (R_Governance x)
  with assms show ?thesis using governance.as_rule.evaluate_stamps [of a x s] by simp
next
  case (R_MintBurn x)
  with assms show ?thesis using mint_burn.as_rule.evaluate_stamps [of a x s] by simp
next
  case (R_Approval x)
  with assms show ?thesis using approval.as_rule.evaluate_stamps [of a x s] by simp
next
  case (R_BridgeTransfer x)
  with assms show ?thesis using bridge.as_rule.evaluate_stamps [of a x s] by simp
next
  case (R_OracleUpdate x)
  with assms show ?thesis
    using oracle_update.evaluate_stamps [of a x s] by (simp add: case_prod_unfold)
qed

interpretation any_rule: risk_rule rule_interests rule_type_name rule_evaluate rule_customers
proof unfold_locales
  fix r s
  show "rule_interests (fst (rule_evaluate r s [])) = rule_interests r"
    "rule_type_name (fst (rule_evaluate r s [])) = rule_type_name r"
    "rule_customers (fst (rule_evaluate r s [])) = rule_customers r"
    by (cases r; simp add: case_prod_unfold oracle_update.evaluate_frame(3))+
qed (rule rule_evaluate_appends, erule rule_evaluate_stamps)

section \<open>The engine\<close>

type_synonym rule_ptr = nat
type_synonym rule_store = "RiskRule list"

record RiskEngine =
  re_routing_table :: "rule_ptr list list"
  re_running :: bool
  re_finished :: bool
  re_metrics :: bool
  re_counters :: "(string \<times> nat) list"
  re_ring_depth :: int
  re_heartbeat :: "Heartbeat option"

definition new_engine :: "bool \<Rightarrow> Heartbeat option \<Rightarrow> RiskEngine" where
  "new_engine metrics heartbeat =
     \<lparr>re_routing_table = replicate SignalTypeCount [], re_running = True, re_finished = False,
      re_metrics = metrics, re_counters = [], re_ring_depth = 0, re_heartbeat = heartbeat\<rparr>"

primrec route_bits :: "u32 \<Rightarrow> rule_ptr \<Rightarrow> nat list \<Rightarrow> rule_ptr list list \<Rightarrow> rule_ptr list list" where
  "route_bits interests p [] table = table"
| "route_bits interests p (i # is) table =
     route_bits interests p is
       (if interests AND push_bit i 1 \<noteq> 0 then table[i := table ! i @ [p]] else table)"

definition register_rule :: "rule_store \<Rightarrow> rule_ptr \<Rightarrow> RiskEngine \<Rightarrow> RiskEngine" where
  "register_rule store p e =
     (let rule = store ! p;
          e' = e\<lparr>re_routing_table :=
                 route_bits (rule_interests rule) p [0..<SignalTypeCount] (re_routing_table e)\<rparr>
      in if re_metrics e \<and> map_of (re_counters e) (rule_type_name rule) = None
         then e'\<lparr>re_counters := AList.update (rule_type_name rule) 0 (re_counters e)\<rparr>
         else e')"

definition engine_stop :: "RiskEngine \<Rightarrow> RiskEngine" where
  "engine_stop e = e\<lparr>re_running := False\<rparr>"

primrec evaluate_rules ::
  "rule_ptr list \<Rightarrow> Signal \<Rightarrow> rule_store \<times> Alert list \<Rightarrow> rule_store \<times> Alert list" where
  "evaluate_rules [] s st = st"
| "evaluate_rules (p # ps) s st =
     (case rule_evaluate (fst st ! p) s (snd st) of
        (rule, alerts) \<Rightarrow> evaluate_rules ps s ((fst st)[p := rule], alerts))"

text \<open>The counters are found by rule name; an alert of an unregistered name is not counted.\<close>

definition count_alert :: "string \<Rightarrow> (string \<times> nat) list \<Rightarrow> (string \<times> nat) list" where
  "count_alert name counters =
     (case map_of counters name of None \<Rightarrow> counters
      | Some n \<Rightarrow> AList.update name (n + 1) counters)"

definition is_poison_pill :: "Signal \<Rightarrow> bool" where
  "is_poison_pill s \<longleftrightarrow> sig_type s = ST_Control \<and> sig_payload s = P_ControlSignal Cmd_Stop"

text \<open>The thread that executes \<open>run\<close>: the engine, the rule objects and its local variables.\<close>

record EngineThread =
  et_engine :: RiskEngine
  et_store :: rule_store
  et_drain_mode :: bool
  et_dispatched :: "Alert list"

definition route_signal :: "Signal \<Rightarrow> EngineThread \<Rightarrow> EngineThread" where
  "route_signal s t =
     (let e = et_engine t;
          (store, alerts) =
            (if type_idx (sig_type s) < SignalTypeCount
             then evaluate_rules (re_routing_table e ! type_idx (sig_type s)) s (et_store t, [])
             else (et_store t, [])) in
      t\<lparr>et_store := store,
        et_engine := e\<lparr>re_counters := fold (\<lambda>a. count_alert (al_rule_type a)) alerts (re_counters e)\<rparr>,
        et_dispatched := et_dispatched t @ alerts\<rparr>)"

definition handle_signal :: "Signal \<Rightarrow> EngineThread \<Rightarrow> EngineThread" where
  "handle_signal s t =
     (let e = et_engine t;
          t' = (if re_metrics e then t\<lparr>et_engine := e\<lparr>re_ring_depth := re_ring_depth e - 1\<rparr>\<rparr> else t) in
      if is_poison_pill s then t'\<lparr>et_drain_mode := True\<rparr> else route_signal s t')"

definition finish :: "EngineThread \<Rightarrow> EngineThread" where
  "finish t = t\<lparr>et_engine := (et_engine t)\<lparr>re_finished := True\<rparr>\<rparr>"

text \<open>
  What one iteration observes: the stop token, the clock, and \<open>input_queue_.front()\<close> (a signal
  is popped at once, so the observation of a signal consumes it).  A finished thread stays.
\<close>

record observation =
  ob_stop_requested :: bool
  ob_now_ms :: u64
  ob_front :: "Signal option"

definition engine_iter :: "observation \<Rightarrow> EngineThread \<Rightarrow> EngineThread" where
  "engine_iter ob t =
     (if re_finished (et_engine t) then t
      else if \<not> (re_running (et_engine t) \<and> \<not> ob_stop_requested ob) then finish t
      else
        let t' = t\<lparr>et_engine := (et_engine t)\<lparr>re_heartbeat :=
                     map_option (heartbeat_record (ob_now_ms ob)) (re_heartbeat (et_engine t))\<rparr>\<rparr> in
        case ob_front ob of
          Some s \<Rightarrow> handle_signal s t'
        | None \<Rightarrow> if et_drain_mode t then finish t' else t')"

definition engine_run :: "observation list \<Rightarrow> EngineThread \<Rightarrow> EngineThread" where
  "engine_run obs t = fold engine_iter obs t"

definition start_engine :: "rule_store \<Rightarrow> RiskEngine \<Rightarrow> EngineThread" where
  "start_engine store e = \<lparr>et_engine = e, et_store = store, et_drain_mode = False, et_dispatched = []\<rparr>"

section \<open>Routing\<close>

definition interested :: "RiskRule \<Rightarrow> Signal \<Rightarrow> bool" where
  "interested r s \<longleftrightarrow> bit (rule_interests r) (type_idx (sig_type s))"

definition register_all :: "rule_store \<Rightarrow> RiskEngine \<Rightarrow> RiskEngine" where
  "register_all store e = fold (register_rule store) [0..<length store] e"

definition routes :: "rule_store \<Rightarrow> rule_ptr list \<Rightarrow> nat \<Rightarrow> rule_ptr list" where
  "routes store ps i = filter (\<lambda>p. bit (rule_interests (store ! p)) i) ps"

lemma mask_bit: "m AND push_bit i 1 \<noteq> 0 \<longleftrightarrow> bit m i" for m :: u32
  by (simp add: push_bit_eq_mult and_exp_eq_0_iff_not_bit)

lemma route_bits_length [simp]: "length (route_bits m p is table) = length table"
  by (induction "is" arbitrary: table) simp_all

lemma route_bits_nth:
  assumes "distinct is" and "\<forall>j\<in>set is. j < length table" and "i < length table"
  shows "route_bits m p is table ! i = table ! i @ (if i \<in> set is \<and> bit m i then [p] else [])"
  using assms
proof (induction "is" arbitrary: table)
  case Nil
  then show ?case by simp
next
  case (Cons j js)
  then show ?case by (cases "i = j") (auto simp flip: mask_bit)
qed

lemma register_rule_table:
  "re_routing_table (register_rule store p e) =
     route_bits (rule_interests (store ! p)) p [0..<SignalTypeCount] (re_routing_table e)"
  by (simp add: register_rule_def Let_def)

lemma register_rules_length:
  "length (re_routing_table (fold (register_rule store) ps e)) = length (re_routing_table e)"
  by (induction ps arbitrary: e) (simp_all add: register_rule_table)

lemma register_rules_table:
  assumes "length (re_routing_table e) = SignalTypeCount" and "i < SignalTypeCount"
  shows "re_routing_table (fold (register_rule store) ps e) ! i =
       re_routing_table e ! i @ routes store ps i"
  using assms
  by (induction ps arbitrary: e)
     (auto simp: register_rule_table route_bits_nth routes_def)

definition routed :: "rule_store \<Rightarrow> RiskEngine \<Rightarrow> bool" where
  "routed store e \<longleftrightarrow> length (re_routing_table e) = SignalTypeCount \<and>
     (\<forall>i<SignalTypeCount. re_routing_table e ! i = routes store [0..<length store] i)"

lemma register_all_routed: "routed store (register_all store (new_engine m h))"
  by (auto simp: routed_def register_all_def register_rules_table
      register_rules_length new_engine_def)

lemma register_all_frame:
  "re_running (register_all store e) = re_running e" "re_finished (register_all store e) = re_finished e"
proof -
  have "re_running (fold (register_rule store) ps e) = re_running e \<and>
      re_finished (fold (register_rule store) ps e) = re_finished e" for ps
    by (induction ps arbitrary: e) (simp_all add: register_rule_def Let_def)
  then show "re_running (register_all store e) = re_running e"
    "re_finished (register_all store e) = re_finished e"
    by (simp_all add: register_all_def)
qed

section \<open>One signal through the rules\<close>

definition after_signal :: "rule_store \<Rightarrow> Signal \<Rightarrow> rule_store" where
  "after_signal store s =
     map (\<lambda>r. if interested r s then fst (rule_evaluate r s []) else r) store"

definition signal_alerts :: "rule_store \<Rightarrow> Signal \<Rightarrow> Alert list" where
  "signal_alerts store s =
     concat (map (\<lambda>r. if interested r s then snd (rule_evaluate r s []) else []) store)"

lemma evaluate_rules_eq:
  assumes "distinct ps" and "\<forall>p\<in>set ps. p < length store"
  shows "evaluate_rules ps s (store, out) =
     (map (\<lambda>i. if i \<in> set ps then fst (rule_evaluate (store ! i) s []) else store ! i) [0..<length store],
      out @ concat (map (\<lambda>p. snd (rule_evaluate (store ! p) s [])) ps))"
  using assms
proof (induction ps arbitrary: store out)
  case Nil
  show ?case by (simp add: map_nth)
next
  case (Cons p ps)
  let ?store = "store[p := fst (rule_evaluate (store ! p) s [])]"
  have same: "?store ! q = store ! q" if "q \<in> set ps" for q
    using Cons.prems that by (auto simp: nth_list_update)
  have "evaluate_rules (p # ps) s (store, out) =
      evaluate_rules ps s (?store, out @ snd (rule_evaluate (store ! p) s []))"
    by (simp add: any_rule.evaluate_appends [of "store ! p" s out] del: append_assoc)
  also have "\<dots> =
      (map (\<lambda>i. if i \<in> set ps then fst (rule_evaluate (?store ! i) s []) else ?store ! i) [0..<length store],
       out @ snd (rule_evaluate (store ! p) s []) @ concat (map (\<lambda>p. snd (rule_evaluate (?store ! p) s [])) ps))"
    using Cons.prems by (subst Cons.IH) auto
  also have "map (\<lambda>p. snd (rule_evaluate (?store ! p) s [])) ps = map (\<lambda>p. snd (rule_evaluate (store ! p) s [])) ps"
    using same by simp
  finally show ?case using Cons.prems same by (auto simp: nth_list_update)
qed

lemma evaluate_routes:
  "evaluate_rules (routes store [0..<length store] (type_idx (sig_type s))) s (store, out) =
     (after_signal store s, out @ signal_alerts store s)"
proof -
  let ?n = "[0..<length store]"
  have here: "routes store ?n (type_idx (sig_type s)) = filter (\<lambda>i. interested (store ! i) s) ?n"
    by (simp add: routes_def interested_def)
  have "signal_alerts store s =
      concat (map (\<lambda>i. snd (rule_evaluate (store ! i) s [])) (filter (\<lambda>i. interested (store ! i) s) ?n))"
    unfolding concat_filter_if signal_alerts_def
    using map_upt_nth [of "\<lambda>r. if interested r s then snd (rule_evaluate r s []) else []" store] by simp
  moreover have "after_signal store s =
      map (\<lambda>i. if i \<in> set (filter (\<lambda>i. interested (store ! i) s) ?n)
                then fst (rule_evaluate (store ! i) s []) else store ! i) ?n"
    by (rule nth_equalityI) (simp_all add: after_signal_def)
  ultimately show ?thesis
    unfolding here by (subst evaluate_rules_eq) simp_all
qed

lemma interested_after [simp]:
  "interested (fst (rule_evaluate r s [])) s' = interested r s'"
  by (simp add: interested_def any_rule.evaluate_frame)

lemma after_signal_length [simp]: "length (after_signal store s) = length store"
  by (simp add: after_signal_def)

lemma routes_after: "routes (after_signal store s) [0..<length store] i = routes store [0..<length store] i"
  by (auto simp: routes_def after_signal_def any_rule.evaluate_frame intro!: filter_cong
      split: if_splits)

section \<open>The consumer loop\<close>

text \<open>
  The reference for a run: the signals in order, each through all rules.  \<open>view\<close> is the part of
  the thread it determines.
\<close>

primrec deliver :: "Signal list \<Rightarrow> rule_store \<times> Alert list \<Rightarrow> rule_store \<times> Alert list" where
  "deliver [] st = st"
| "deliver (s # ss) st = deliver ss (after_signal (fst st) s, snd st @ signal_alerts (fst st) s)"

definition view :: "EngineThread \<Rightarrow> rule_store \<times> Alert list" where
  "view t = (et_store t, et_dispatched t)"

definition thread_ok :: "EngineThread \<Rightarrow> bool" where
  "thread_ok t \<longleftrightarrow> routed (et_store t) (et_engine t) \<and> re_running (et_engine t) \<and>
     \<not> re_finished (et_engine t)"

fun consumed :: "observation list \<Rightarrow> Signal list" where
  "consumed [] = []"
| "consumed (ob # obs) =
     (case ob_front ob of None \<Rightarrow> consumed obs
      | Some s \<Rightarrow> if is_poison_pill s then consumed obs else s # consumed obs)"

definition idle_ok :: "bool \<Rightarrow> observation list \<Rightarrow> bool" where
  "idle_ok drain obs \<longleftrightarrow> (\<forall>ob\<in>set obs. \<not> ob_stop_requested ob \<and> (drain \<longrightarrow> ob_front ob \<noteq> None))"

lemma consumed_append: "consumed (xs @ ys) = consumed xs @ consumed ys"
  by (induction xs) (simp_all split: option.splits)

lemma deliver_append: "deliver (ss @ ss') st = deliver ss' (deliver ss st)"
  by (induction ss arbitrary: st) simp_all

lemma route_signal_ok:
  assumes "thread_ok t"
  shows "view (route_signal s t) = deliver [s] (view t)" and "thread_ok (route_signal s t)"
    and "et_drain_mode (route_signal s t) = et_drain_mode t"
proof -
  have table: "re_routing_table (et_engine t) ! type_idx (sig_type s) =
      routes (et_store t) [0..<length (et_store t)] (type_idx (sig_type s))"
    using assms type_idx_less by (simp add: thread_ok_def routed_def)
  note eval = evaluate_routes [of "et_store t" s "[]"]
  show "view (route_signal s t) = deliver [s] (view t)"
    by (simp add: route_signal_def view_def table eval type_idx_less Let_def)
  show "thread_ok (route_signal s t)"
    using assms
    by (simp add: thread_ok_def routed_def route_signal_def table eval type_idx_less Let_def routes_after)
  show "et_drain_mode (route_signal s t) = et_drain_mode t"
    by (simp add: route_signal_def Let_def case_prod_unfold)
qed

lemma engine_iter_ok:
  assumes ok: "thread_ok t" and ob: "\<not> ob_stop_requested ob" "et_drain_mode t \<longrightarrow> ob_front ob \<noteq> None"
  shows "view (engine_iter ob t) = deliver (consumed [ob]) (view t) \<and> thread_ok (engine_iter ob t) \<and>
     (et_drain_mode (engine_iter ob t) \<longleftrightarrow>
        et_drain_mode t \<or> (\<exists>s. ob_front ob = Some s \<and> is_poison_pill s))"
proof -
  define t1 where "t1 = t\<lparr>et_engine := (et_engine t)\<lparr>re_heartbeat :=
     map_option (heartbeat_record (ob_now_ms ob)) (re_heartbeat (et_engine t))\<rparr>\<rparr>"
  define t2 where "t2 = (if re_metrics (et_engine t1)
     then t1\<lparr>et_engine := (et_engine t1)\<lparr>re_ring_depth := re_ring_depth (et_engine t1) - 1\<rparr>\<rparr> else t1)"
  have t1: "thread_ok t1" "view t1 = view t" "et_drain_mode t1 = et_drain_mode t"
    using ok by (simp_all add: t1_def thread_ok_def routed_def view_def)
  then have t2: "thread_ok t2" "view t2 = view t" "et_drain_mode t2 = et_drain_mode t"
    by (simp_all add: t2_def thread_ok_def routed_def view_def)
  have pill: "thread_ok (t2\<lparr>et_drain_mode := True\<rparr>)" "view (t2\<lparr>et_drain_mode := True\<rparr>) = view t"
    using t2 by (simp_all add: thread_ok_def view_def)
  have step: "engine_iter ob t = (case ob_front ob of
       Some s \<Rightarrow> if is_poison_pill s then t2\<lparr>et_drain_mode := True\<rparr> else route_signal s t2
     | None \<Rightarrow> t1)"
    using ok ob
    by (auto simp: engine_iter_def handle_signal_def thread_ok_def Let_def t1_def t2_def split: option.splits)
  show ?thesis
    unfolding step using t1 t2 pill route_signal_ok [OF t2(1)] by (simp split: option.splits)
qed

lemma engine_run_ok:
  assumes "thread_ok t" and "idle_ok (et_drain_mode t) obs"
    and "\<forall>ob\<in>set obs. \<forall>s. ob_front ob = Some s \<longrightarrow> \<not> is_poison_pill s"
  shows "view (engine_run obs t) = deliver (consumed obs) (view t) \<and> thread_ok (engine_run obs t) \<and>
     et_drain_mode (engine_run obs t) = et_drain_mode t"
  using assms
proof (induction obs arbitrary: t)
  case Nil
  then show ?case by (simp add: engine_run_def)
next
  case (Cons ob obs)
  have step: "view (engine_iter ob t) = deliver (consumed [ob]) (view t)"
    "thread_ok (engine_iter ob t)" "et_drain_mode (engine_iter ob t) = et_drain_mode t"
    using engine_iter_ok [of t ob] Cons.prems by (auto simp: idle_ok_def)
  with Cons.IH [of "engine_iter ob t"] Cons.prems
  have "view (engine_run obs (engine_iter ob t)) = deliver (consumed obs) (deliver (consumed [ob]) (view t)) \<and>
      thread_ok (engine_run obs (engine_iter ob t)) \<and>
      et_drain_mode (engine_run obs (engine_iter ob t)) = et_drain_mode t"
    by (simp add: idle_ok_def)
  then show ?case
    using consumed_append [of "[ob]" obs] by (simp add: engine_run_def flip: deliver_append)
qed

lemma finished_stays: "re_finished (et_engine t) \<Longrightarrow> engine_run obs t = t"
  by (induction obs) (simp_all add: engine_run_def engine_iter_def)

lemma engine_run_append: "engine_run (xs @ ys) t = engine_run ys (engine_run xs t)"
  by (simp add: engine_run_def)

text \<open>
  The signals a run takes from the queue, whatever the rules do: up to a stop request, and after a
  poison pill up to the first empty front.
\<close>

fun taken :: "bool \<Rightarrow> observation list \<Rightarrow> Signal list" where
  "taken drain [] = []"
| "taken drain (ob # obs) =
     (if ob_stop_requested ob then []
      else case ob_front ob of
          None \<Rightarrow> if drain then [] else taken drain obs
        | Some s \<Rightarrow> if is_poison_pill s then taken True obs else s # taken drain obs)"

lemma engine_iter_ends:
  assumes "thread_ok t" and "ob_stop_requested ob \<or> et_drain_mode t \<and> ob_front ob = None"
  shows "re_finished (et_engine (engine_iter ob t))" and "view (engine_iter ob t) = view t"
  using assms by (auto simp: engine_iter_def thread_ok_def Let_def finish_def view_def)

lemma engine_run_taken:
  "thread_ok t \<Longrightarrow> view (engine_run obs t) = deliver (taken (et_drain_mode t) obs) (view t)"
proof (induction obs arbitrary: t)
  case Nil
  then show ?case by (simp add: engine_run_def)
next
  case (Cons ob obs)
  have step: "engine_run (ob # obs) t = engine_run obs (engine_iter ob t)" by (simp add: engine_run_def)
  show ?case
  proof (cases "ob_stop_requested ob \<or> et_drain_mode t \<and> ob_front ob = None")
    case True
    then have "taken (et_drain_mode t) (ob # obs) = []" by auto
    then show ?thesis
      using engine_iter_ends [OF Cons.prems True] finished_stays [of "engine_iter ob t" obs] by (simp add: step)
  next
    case False
    then have t': "view (engine_iter ob t) = deliver (consumed [ob]) (view t)" "thread_ok (engine_iter ob t)"
      "et_drain_mode (engine_iter ob t) \<longleftrightarrow> et_drain_mode t \<or> (\<exists>s. ob_front ob = Some s \<and> is_poison_pill s)"
      using engine_iter_ok [OF Cons.prems, of ob] by auto
    have "taken (et_drain_mode t) (ob # obs) = consumed [ob] @ taken (et_drain_mode (engine_iter ob t)) obs"
      using False t'(3) by (auto split: option.splits)
    then show ?thesis using Cons.IH [OF t'(2)] t'(1) by (simp add: step deliver_append)
  qed
qed

lemma start_engine_ok: "thread_ok (start_engine store (register_all store (new_engine m h)))"
  by (simp add: thread_ok_def start_engine_def register_all_routed register_all_frame)
     (simp add: new_engine_def)

lemma engine_run_start:
  "et_store (engine_run obs (start_engine store (register_all store (new_engine m h)))) =
     fst (deliver (taken False obs) (store, []))"
  "et_dispatched (engine_run obs (start_engine store (register_all store (new_engine m h)))) =
     snd (deliver (taken False obs) (store, []))"
  using engine_run_taken [OF start_engine_ok, of obs store m h]
  by (simp_all add: start_engine_def view_def prod_eq_iff)

lemma taken_front: "s \<in> set (taken drain obs) \<Longrightarrow> \<exists>ob\<in>set obs. ob_front ob = Some s"
  by (induction obs arbitrary: drain) (auto split: if_splits option.splits)

text \<open>
  A whole run with a poison pill: before the pill the queue may be empty at any time, after
  it the loop ends at the first empty front; nothing observed later matters.
\<close>

lemma engine_drains:
  assumes ok: "thread_ok t" and live: "\<not> et_drain_mode t"
    and before: "idle_ok False before" "\<forall>ob\<in>set before. \<forall>s. ob_front ob = Some s \<longrightarrow> \<not> is_poison_pill s"
    and pill: "\<not> ob_stop_requested ob" "ob_front ob = Some s" "is_poison_pill s"
    and after: "idle_ok True after" "\<forall>ob\<in>set after. \<forall>s. ob_front ob = Some s \<longrightarrow> \<not> is_poison_pill s"
    and empty: "\<not> ob_stop_requested ob'" "ob_front ob' = None"
  shows "re_finished (et_engine (engine_run (before @ ob # after @ ob' # rest) t))"
    and "view (engine_run (before @ ob # after @ ob' # rest) t) =
       deliver (consumed (before @ after)) (view t)"
proof -
  define t1 where "t1 = engine_iter ob (engine_run before t)"
  define t2 where "t2 = engine_run after t1"
  have t0: "view (engine_run before t) = deliver (consumed before) (view t)"
    "thread_ok (engine_run before t)" "\<not> et_drain_mode (engine_run before t)"
    using engine_run_ok [OF ok, of before] before live by simp_all
  have t1: "view t1 = view (engine_run before t)" "thread_ok t1" "et_drain_mode t1"
    using engine_iter_ok [OF t0(2), of ob] pill t0(3) by (simp_all add: t1_def)
  have t2: "view t2 = deliver (consumed after) (view t1)" "thread_ok t2" "et_drain_mode t2"
    using engine_run_ok [OF t1(2), of after] after t1(3) by (simp_all add: t2_def)
  have last: "re_finished (et_engine (engine_iter ob' t2))" "view (engine_iter ob' t2) = view t2"
    using t2 empty by (simp_all add: engine_iter_def thread_ok_def Let_def finish_def view_def)
  have "engine_run (before @ ob # after @ ob' # rest) t = engine_run rest (engine_iter ob' t2)"
    by (simp add: engine_run_def t1_def t2_def)
  with last finished_stays [of "engine_iter ob' t2" rest]
  show "re_finished (et_engine (engine_run (before @ ob # after @ ob' # rest) t))"
    "view (engine_run (before @ ob # after @ ob' # rest) t) = deliver (consumed (before @ after)) (view t)"
    by (simp_all add: t2 t1 t0 consumed_append deliver_append)
qed

section \<open>Each rule object sees its own signals\<close>

lemma deliver_store_nth:
  assumes "p < length store"
  shows "fst (deliver ss (store, out)) ! p =
     fst (any_rule.feed (store ! p) (filter (interested (store ! p)) ss))"
  using assms
proof (induction ss arbitrary: store out)
  case Nil
  then show ?case by simp
next
  case (Cons s ss)
  have "interested (fst (rule_evaluate (store ! p) s [])) = interested (store ! p)"
    by (simp add: fun_eq_iff)
  then show ?case
    using Cons.IH [of "after_signal store s"] Cons.prems
    by (simp add: after_signal_def Let_def)
qed

abbreviation of_rule :: "RiskRule \<Rightarrow> Alert list \<Rightarrow> Alert list" where
  "of_rule r alerts \<equiv> filter (\<lambda>a. al_rule_type a = rule_type_name r) alerts"

lemma evaluate_name:
  "a \<in> set (snd (rule_evaluate r s [])) \<Longrightarrow> al_rule_type a = rule_type_name r"
  using any_rule.evaluate_stamps by (auto simp: alert_stamped_def)

lemma of_rule_same: "of_rule r (snd (rule_evaluate r s [])) = snd (rule_evaluate r s [])"
  by (simp add: evaluate_name)

lemma of_rule_other:
  "rule_type_name r \<noteq> rule_type_name r' \<Longrightarrow> of_rule r (snd (rule_evaluate r' s [])) = []"
  by (auto simp: filter_empty_conv dest: evaluate_name)

lemma signal_alerts_Cons:
  "signal_alerts (r # store) s =
     (if interested r s then snd (rule_evaluate r s []) else []) @ signal_alerts store s"
  by (simp add: signal_alerts_def)

lemma signal_alerts_none:
  "rule_type_name r \<notin> rule_type_name ` set store \<Longrightarrow> of_rule r (signal_alerts store s) = []"
  by (induction store) (auto simp: signal_alerts_Cons of_rule_other, simp add: signal_alerts_def)

lemma signal_alerts_of:
  assumes "distinct (map rule_type_name store)" and "r \<in> set store"
  shows "of_rule r (signal_alerts store s) = (if interested r s then snd (rule_evaluate r s []) else [])"
  using assms
proof (induction store)
  case Nil
  then show ?case by simp
next
  case (Cons r' store)
  show ?case
  proof (cases "r = r'")
    case True
    then show ?thesis
      using Cons.prems by (simp add: signal_alerts_Cons of_rule_same signal_alerts_none)
  next
    case False
    with Cons.prems have mem: "r \<in> set store" by simp
    then have "rule_type_name r \<in> rule_type_name ` set store" by (rule imageI)
    with Cons.prems(1) have "rule_type_name r \<noteq> rule_type_name r'" by auto
    with mem show ?thesis
      using Cons by (simp add: signal_alerts_Cons of_rule_other)
  qed
qed

lemma after_signal_names: "map rule_type_name (after_signal store s) = map rule_type_name store"
  by (simp add: after_signal_def any_rule.evaluate_frame)

lemma deliver_alerts_of:
  assumes "distinct (map rule_type_name store)" and "p < length store"
  shows "of_rule (store ! p) (snd (deliver ss (store, out))) =
     of_rule (store ! p) out @ snd (any_rule.feed (store ! p) (filter (interested (store ! p)) ss))"
  using assms
proof (induction ss arbitrary: store out)
  case Nil
  then show ?case by simp
next
  case (Cons s ss)
  let ?store = "after_signal store s"
  have name: "rule_type_name (?store ! p) = rule_type_name (store ! p)"
    using Cons.prems(2) by (simp add: after_signal_def any_rule.evaluate_frame)
  have "interested (?store ! p) = interested (store ! p)"
    using Cons.prems(2) by (simp add: after_signal_def fun_eq_iff)
  moreover have "of_rule (store ! p) (signal_alerts store s) =
      (if interested (store ! p) s then snd (rule_evaluate (store ! p) s []) else [])"
    using Cons.prems by (intro signal_alerts_of) simp_all
  ultimately show ?case
    using Cons.IH [of ?store "out @ signal_alerts store s"] Cons.prems
    by (simp add: after_signal_names name Let_def) (simp add: after_signal_def)
qed

text \<open>Every alert that reaches the dispatcher comes from a registered rule and a consumed signal.\<close>

lemma deliver_origin:
  assumes "a \<in> set (snd (deliver ss (store, out)))"
  shows "a \<in> set out \<or> (\<exists>s\<in>set ss. \<exists>r\<in>set store. interested r s \<and>
     alert_stamped (rule_type_name r) s (rule_customers r) a)"
  using assms
proof (induction ss arbitrary: store out)
  case Nil
  then show ?case by simp
next
  case (Cons s ss)
  have frame: "\<exists>r\<in>set store. interested r s' \<and> alert_stamped (rule_type_name r) s' (rule_customers r) a"
    if "r' \<in> set (after_signal store s)" "interested r' s'"
      "alert_stamped (rule_type_name r') s' (rule_customers r') a" for r' s'
    using that by (auto simp: after_signal_def any_rule.evaluate_frame split: if_splits)
  have here: "\<exists>r\<in>set store. interested r s \<and> alert_stamped (rule_type_name r) s (rule_customers r) a"
    if "a \<in> set (signal_alerts store s)"
    using that by (auto simp: signal_alerts_def intro: any_rule.evaluate_stamps split: if_splits)
  from Cons.IH [of "after_signal store s" "out @ signal_alerts store s"] Cons.prems
  show ?case using frame here by simp blast
qed

text \<open>The invariant of the stateful rule holds at every moment of a run on normalized signals.\<close>

primrec rule_inv :: "RiskRule \<Rightarrow> bool" where
  "rule_inv (R_LargeTransfer r) \<longleftrightarrow> True"
| "rule_inv (R_Governance r) \<longleftrightarrow> True"
| "rule_inv (R_MintBurn r) \<longleftrightarrow> True"
| "rule_inv (R_Approval r) \<longleftrightarrow> True"
| "rule_inv (R_BridgeTransfer r) \<longleftrightarrow> True"
| "rule_inv (R_OracleUpdate r) \<longleftrightarrow> oracle_inv r"

lemma rule_inv_step: "rule_inv r \<Longrightarrow> signal_wf s \<Longrightarrow> rule_inv (fst (rule_evaluate r s out))"
  by (cases r) (simp_all add: oracle_inv_step case_prod_unfold)

lemma deliver_inv:
  assumes "list_all rule_inv store" and "list_all signal_wf ss"
  shows "list_all rule_inv (fst (deliver ss (store, out)))"
  using assms
proof (induction ss arbitrary: store out)
  case (Cons s ss)
  then have "list_all rule_inv (after_signal store s)"
    by (auto simp: after_signal_def list_all_iff rule_inv_step)
  with Cons show ?case by simp
qed simp

section \<open>Tenant isolation\<close>

text \<open>
  The engine as it would be if customer \<open>k\<close> were the only one: the same keys, all other
  customers' entries removed from every rule.
\<close>

primrec restrict_rule :: "u64 \<Rightarrow> RiskRule \<Rightarrow> RiskRule" where
  "restrict_rule k (R_LargeTransfer r) = R_LargeTransfer (filter (\<lambda>c. lt_customer_id c = k) r)"
| "restrict_rule k (R_Governance r) = R_Governance (filter_buckets (\<lambda>c. gc_customer_id c = k) r)"
| "restrict_rule k (R_MintBurn r) = R_MintBurn (filter_buckets (\<lambda>c. mc_customer_id c = k) r)"
| "restrict_rule k (R_Approval r) = R_Approval (filter_buckets (\<lambda>c. ac_customer_id c = k) r)"
| "restrict_rule k (R_BridgeTransfer r) = R_BridgeTransfer
     (r\<lparr>br_configs_by_key := filter_buckets (\<lambda>c. bc_customer_id c = k) (br_configs_by_key r)\<rparr>)"
| "restrict_rule k (R_OracleUpdate r) = R_OracleUpdate
     (r\<lparr>ou_configs_by_feed := filter_buckets (\<lambda>c. oc_customer_id c = k) (ou_configs_by_feed r)\<rparr>)"

abbreviation of_customer :: "u64 \<Rightarrow> Alert list \<Rightarrow> Alert list" where
  "of_customer k alerts \<equiv> filter (\<lambda>a. al_customer_id a = k) alerts"

lemma restrict_frame [simp]:
  "rule_interests (restrict_rule k r) = rule_interests r"
  "rule_type_name (restrict_rule k r) = rule_type_name r"
  "interested (restrict_rule k r) s = interested r s"
  by (cases r; simp add: interested_def)+

lemma oracle_alert_customer [simp]: "al_customer_id (oracle_alert s u c d cfg) = oc_customer_id cfg"
  by (simp add: oracle_alert_def)

lemma oracle_restrict:
  "oracle_evaluate (r\<lparr>ou_configs_by_feed := filter_buckets (\<lambda>c. oc_customer_id c = k) (ou_configs_by_feed r)\<rparr>) s [] =
     ((fst (oracle_evaluate r s []))
        \<lparr>ou_configs_by_feed := filter_buckets (\<lambda>c. oc_customer_id c = k) (ou_configs_by_feed r)\<rparr>,
      of_customer k (snd (oracle_evaluate r s [])))"
  by (simp add: oracle_evaluate_def oracle_loop_eq map_of_filter_buckets Let_def filter_map comp_def
      conj_commute split: SignalPayload.splits option.splits)

lemma oracle_configs_fixed: "ou_configs_by_feed (fst (oracle_evaluate r s out)) = ou_configs_by_feed r"
  by (simp add: oracle_evaluate_def Let_def split: SignalPayload.splits option.splits)

lemma bridge_restrict_alert:
  "bridge_alert (r\<lparr>br_configs_by_key := m\<rparr>) s e c = bridge_alert r s e c"
  by (simp add: bridge_alert_def bridge_name_def)

lemma restrict_evaluate:
  "rule_evaluate (restrict_rule k r) s [] =
     (restrict_rule k (fst (rule_evaluate r s [])), of_customer k (snd (rule_evaluate r s [])))"
proof (cases r)
  case (R_LargeTransfer x)
  then show ?thesis by (simp add: large_transfer.customer_isolation [where k = k and r = x])
next
  case (R_Governance x)
  then show ?thesis
    by (simp add: governance.customer_isolation [where k = k and r = x] governance_entries_def)
next
  case (R_MintBurn x)
  then show ?thesis
    by (simp add: mint_burn.customer_isolation [where k = k and r = x] mint_burn_entries_def)
next
  case (R_Approval x)
  then show ?thesis
    by (simp add: approval.customer_isolation [where k = k and r = x] approval_entries_def)
next
  case (R_BridgeTransfer x)
  then show ?thesis
    by (simp add: bridge.customer_isolation [where k = k and r = x] bridge_entries_def bridge_key_def
        bridge_restrict_alert)
next
  case (R_OracleUpdate x)
  then show ?thesis by (simp add: oracle_restrict case_prod_unfold oracle_configs_fixed)
qed

lemma restrict_after: "after_signal (map (restrict_rule k) store) s = map (restrict_rule k) (after_signal store s)"
  by (simp add: after_signal_def restrict_evaluate)

lemma restrict_alerts: "signal_alerts (map (restrict_rule k) store) s = of_customer k (signal_alerts store s)"
  by (induction store) (simp_all add: signal_alerts_Cons restrict_evaluate, simp add: signal_alerts_def)

lemma restrict_deliver:
  "deliver ss (map (restrict_rule k) store, of_customer k out) =
     (map (restrict_rule k) (fst (deliver ss (store, out))), of_customer k (snd (deliver ss (store, out))))"
proof (induction ss arbitrary: store out)
  case (Cons s ss)
  show ?case
    using Cons.IH [of "after_signal store s" "out @ signal_alerts store s"]
    by (simp add: restrict_after restrict_alerts)
qed simp


section \<open>Properties\<close>

text \<open>
  Routing.  Registering a store of rules in a fresh engine puts into the routing table of
  every signal type exactly the rules whose interest mask has that type's bit, in order, once.
\<close>

theorem routing_table_exact:
  "re_routing_table (register_all store (new_engine m h)) =
     map (\<lambda>i. filter (\<lambda>p. bit (rule_interests (store ! p)) i) [0..<length store]) [0..<SignalTypeCount]"
  using register_all_routed [of store m h]
  by (intro nth_equalityI) (auto simp: routed_def routes_def)

text \<open>
  C10: every rule sees its own signals.  In every run, the final state of each rule object is what
  evaluating, alone and in order, the signals of its interest among those taken from the queue
  gives, and (rule names being distinct) so are the alerts under its name, whatever the other
  rules do, however the queue runs empty in between and whenever the run is stopped.
\<close>

theorem rules_independent:
  assumes "distinct (map rule_type_name store)" and "p < length store"
  shows "let t = engine_run obs (start_engine store (register_all store (new_engine m h)));
             seen = filter (interested (store ! p)) (taken False obs)
         in et_store t ! p = fst (any_rule.feed (store ! p) seen) \<and>
            of_rule (store ! p) (et_dispatched t) = snd (any_rule.feed (store ! p) seen)"
  using deliver_store_nth [OF assms(2)] deliver_alerts_of [OF assms, of _ "[]"]
  by (simp add: Let_def engine_run_start)

definition sample_obs :: "Signal option \<Rightarrow> observation" where
  "sample_obs f = \<lparr>ob_stop_requested = False, ob_now_ms = 1, ob_front = f\<rparr>"

theorem rules_independent_witness:
  "et_store (engine_run [sample_obs None, sample_obs (Some zero_signal)]
     (start_engine [R_LargeTransfer [], R_Governance []]
       (register_all [R_LargeTransfer [], R_Governance []] (new_engine False None)))) ! 1 = R_Governance []"
  using rules_independent [of "[R_LargeTransfer [], R_Governance []]" 1
      "[sample_obs None, sample_obs (Some zero_signal)]" False None]
  by (simp add: sample_obs_def is_poison_pill_def zero_signal_def Let_def interested_def
      governance_interests_def bit_make_mask)

text \<open>
  Draining.  After the poison pill the loop still delivers every signal left in the queue
  and ends at the first empty front; the alerts dispatched are those of all signals consumed,
  and observations after the end have no effect.
\<close>

theorem poison_pill_drains:
  assumes "thread_ok t" and "\<not> et_drain_mode t"
    and "idle_ok False before" and "list_all (\<lambda>ob. \<forall>s. ob_front ob = Some s \<longrightarrow> \<not> is_poison_pill s) before"
    and "\<not> ob_stop_requested ob" and "ob_front ob = Some s" and "is_poison_pill s"
    and "idle_ok True after" and "list_all (\<lambda>ob. \<forall>s. ob_front ob = Some s \<longrightarrow> \<not> is_poison_pill s) after"
    and "\<not> ob_stop_requested ob'" and "ob_front ob' = None"
  shows "re_finished (et_engine (engine_run (before @ ob # after @ ob' # rest) t)) \<and>
     (et_store (engine_run (before @ ob # after @ ob' # rest) t),
      et_dispatched (engine_run (before @ ob # after @ ob' # rest) t)) =
       deliver (consumed (before @ after)) (et_store t, et_dispatched t)"
  using engine_drains [OF assms(1-3) _ assms(5-8) _ assms(10,11), of rest] assms(4,9)
  by (simp add: list_all_iff view_def)

theorem poison_pill_drains_witness:
  "re_finished (et_engine (engine_run [sample_obs (Some (sample_signal ST_Control (P_ControlSignal Cmd_Stop))),
      sample_obs None] (start_engine [] (register_all [] (new_engine True None)))))"
  using poison_pill_drains [of "start_engine [] (register_all [] (new_engine True None))" "[]"
      "sample_obs (Some (sample_signal ST_Control (P_ControlSignal Cmd_Stop)))"
      "sample_signal ST_Control (P_ControlSignal Cmd_Stop)" "[]" "sample_obs None" "[]"]
    register_all_routed [of "[]" True None]
  by (simp add: sample_obs_def idle_ok_def is_poison_pill_def thread_ok_def start_engine_def
      register_all_frame) (simp add: new_engine_def)

text \<open>
  C11: tenant isolation.  For any rules and any run, the alerts dispatched to customer \<open>k\<close> are, in
  content and order, those of an engine whose rules are configured for \<open>k\<close> alone and that makes
  the same observations, and the rule states stay the corresponding restrictions.
\<close>

theorem tenant_isolation:
  "let own = map (restrict_rule k) store;
       t = engine_run obs (start_engine store (register_all store (new_engine m h)));
       t' = engine_run obs (start_engine own (register_all own (new_engine m h)))
   in et_dispatched t' = of_customer k (et_dispatched t) \<and>
      et_store t' = map (restrict_rule k) (et_store t)"
  using restrict_deliver [of "taken False obs" k store "[]"] by (simp add: Let_def engine_run_start)

text \<open>
  Provenance.  Every alert dispatched in a run carries the name of a registered rule that is
  interested in a consumed signal, that signal's timestamp, a customer configured in that rule,
  and an ingress time of zero.
\<close>

theorem alert_provenance:
  assumes "a \<in> set (et_dispatched (engine_run obs (start_engine store (register_all store (new_engine m h)))))"
  shows "\<exists>ob\<in>set obs. \<exists>s. ob_front ob = Some s \<and> (\<exists>r\<in>set store. interested r s \<and>
     al_rule_type a = rule_type_name r \<and> al_timestamp_ms a = sm_timestamp_ms (sig_meta s) \<and>
     al_customer_id a \<in> rule_customers r \<and> al_internal_ingress_time_ms a = 0)"
proof -
  obtain s r where s: "s \<in> set (taken False obs)" and r: "r \<in> set store" "interested r s"
    "alert_stamped (rule_type_name r) s (rule_customers r) a"
    using deliver_origin [of a "taken False obs" store "[]"] assms by (auto simp: engine_run_start)
  then show ?thesis using taken_front [OF s] by (auto simp: alert_stamped_def)
qed

theorem alert_provenance_witness:
  "\<exists>a. a \<in> set (et_dispatched (engine_run [sample_obs (Some (sample_signal ST_Transfer (P_EvmLogEvent (sample_evm 9))))]
     (start_engine [R_LargeTransfer [\<lparr>lt_customer_id = 7, lt_chain_id = 1, lt_token_address = replicate 20 1,
        lt_threshold_be = small_be 5\<rparr>]]
       (register_all [R_LargeTransfer [\<lparr>lt_customer_id = 7, lt_chain_id = 1, lt_token_address = replicate 20 1,
        lt_threshold_be = small_be 5\<rparr>]] (new_engine True None))))) \<and>
     al_customer_id a = 7 \<and> al_internal_ingress_time_ms a = 0"
proof -
  let ?r = "R_LargeTransfer [\<lparr>lt_customer_id = 7, lt_chain_id = 1, lt_token_address = replicate 20 1,
    lt_threshold_be = small_be 5\<rparr>]"
  let ?s = "sample_signal ST_Transfer (P_EvmLogEvent (sample_evm 9))"
  let ?out = "et_dispatched (engine_run [sample_obs (Some ?s)] (start_engine [?r] (register_all [?r] (new_engine True None))))"
  have "taken False [sample_obs (Some ?s)] = [?s]" by (simp add: sample_obs_def is_poison_pill_def)
  then have "?out = snd (deliver [?s] ([?r], []))" by (simp only: engine_run_start)
  also have "\<dots> \<noteq> []"
    by (simp add: signal_alerts_def interested_def large_transfer_interests_def bit_make_mask
        large_transfer_evaluate_def get_evm_def unusable_log_def
        large_transfer_loop_eq large_transfer_fires_iff)
  finally have "hd ?out \<in> set ?out" by (rule hd_in_set)
  with alert_provenance [OF this] show ?thesis by (intro exI [of _ "hd ?out"]) auto
qed

end
