(* ===== verification/Alert_Formatter.thy ===== *)
theory Alert_Formatter
  imports Signal
begin

text \<open>
  \<open>risk/alert_formatter.cpp\<close>: the texts of the Telegram and console channels.  The two lookup
  maps are optional pointers in the code.  The lemmas give the frame of every Telegram text and
  which amounts are shown.
\<close>

type_synonym token_key = "u64 \<times> string"
type_synonym customer_map = "(u64 \<times> string) list"
type_synonym token_map = "(token_key \<times> string) list"

definition nl :: string where
  "nl = [CHR 0x0A]"

text \<open>\<open>if (x && !x->empty())\<close> on an optional string.\<close>

definition shown :: "string option \<Rightarrow> string option" where
  "shown x = (case x of None \<Rightarrow> None | Some s \<Rightarrow> if s = [] then None else Some s)"

definition line_if :: "string \<Rightarrow> string option \<Rightarrow> string" where
  "line_if label x = (case x of None \<Rightarrow> [] | Some s \<Rightarrow> label @ s @ nl)"

definition token_symbol :: "token_map option \<Rightarrow> u64 option \<Rightarrow> string \<Rightarrow> string option" where
  "token_symbol tokens chain address =
     (case chain of None \<Rightarrow> None
      | Some c \<Rightarrow> (case tokens of None \<Rightarrow> None | Some m \<Rightarrow> map_of m (c, address)))"

text \<open>The lines shared by the approval, mint/burn and bridge branches.\<close>

definition token_details :: "token_map option \<Rightarrow> Alert \<Rightarrow> string" where
  "token_details tokens a =
     line_if ''Chain ID: '' (map_option to_string (al_chain_id a)) @
     line_if ''Amount: '' (shown (al_amount_decimal a)) @
     line_if ''Token: '' (map_option (\<lambda>t.
       case token_symbol tokens (al_chain_id a) t of None \<Rightarrow> t | Some symbol \<Rightarrow> symbol @ '' ('' @ t @ '')'')
       (shown (al_token_address a)))"

definition oracle_details :: "Alert \<Rightarrow> string" where
  "oracle_details a =
     line_if ''Chain ID: '' (map_option to_string (al_chain_id a)) @
     line_if ''Current value: '' (shown (al_amount_decimal a)) @
     line_if ''Aggregator: '' (shown (al_token_address a))"

definition default_details :: "token_map option \<Rightarrow> Alert \<Rightarrow> string" where
  "default_details tokens a =
     (case shown (al_amount_decimal a) of None \<Rightarrow> []
      | Some amount \<Rightarrow>
          ''Amount: '' @ amount @ nl @
          ''Token: '' @
          (case shown (al_token_address a) of None \<Rightarrow> []
           | Some t \<Rightarrow> (case token_symbol tokens (al_chain_id a) t of None \<Rightarrow> t | Some symbol \<Rightarrow> symbol)) @ nl)"

definition telegram_body :: "token_map option \<Rightarrow> Alert \<Rightarrow> string" where
  "telegram_body tokens a =
     (let message = ''Message: '' @ al_message a @ nl in
      if al_rule_type a = ''governance'' then ''Type: Governance'' @ nl @ message
      else if al_rule_type a = ''approval'' then ''Type: Approval'' @ nl @ message @ token_details tokens a
      else if al_rule_type a = ''mint_burn'' then ''Type: Mint/Burn'' @ nl @ message @ token_details tokens a
      else if al_rule_type a = ''bridge_transfer''
        then ''Type: Bridge Transfer'' @ nl @ message @ token_details tokens a
      else if al_rule_type a = ''oracle_update'' then ''Type: Oracle Update'' @ nl @ message @ oracle_details a
      else message @ default_details tokens a)"

definition format_telegram :: "Alert \<Rightarrow> customer_map option \<Rightarrow> token_map option \<Rightarrow> string" where
  "format_telegram alert customers tokens =
     (let customer_key = (case customers of None \<Rightarrow> to_string (al_customer_id alert)
        | Some m \<Rightarrow> (case map_of m (al_customer_id alert) of
            None \<Rightarrow> to_string (al_customer_id alert) | Some name \<Rightarrow> name)) in
      ''[Risk Sentinel Alert]'' @ nl @
      ''Customer: '' @ customer_key @ nl @
      telegram_body tokens alert @
      ''Time: '' @ to_string (al_timestamp_ms alert))"

definition format_console :: "Alert \<Rightarrow> string" where
  "format_console alert =
     ''[AlertDispatcher] Executing Webhook for: '' @ al_message alert @
     '' [Time: '' @ to_string (al_timestamp_ms alert) @ '']'' @
     (if al_rule_type alert \<noteq> ''governance'' then
        (case shown (al_amount_decimal alert) of None \<Rightarrow> [] | Some x \<Rightarrow> '' [Amount: '' @ x @ '']'') @
        (case shown (al_token_address alert) of None \<Rightarrow> [] | Some t \<Rightarrow> '' [Token: '' @ t @ '']'')
      else []) @ nl"

section \<open>Facts\<close>

lemma shown_Some: "shown x = Some s \<longleftrightarrow> x = Some s \<and> s \<noteq> []"
  by (auto simp: shown_def split: option.splits)

lemma telegram_body_message:
  "\<exists>pre post. telegram_body tokens a = pre @ ''Message: '' @ al_message a @ nl @ post"
proof -
  have *: "\<exists>pre post. p @ m @ q = pre @ m @ post" "\<exists>pre post. p @ m = pre @ m @ post"
    "\<exists>pre post. m @ q = pre @ m @ post" for p m q :: string
    by (rule exI [of _ p], rule exI [of _ q], simp)
       (rule exI [of _ p], rule exI [of _ "[]"], simp, rule exI [of _ "[]"], rule exI [of _ q], simp)
  define m where "m = ''Message: '' @ al_message a @ nl"
  define gov where "gov = ''Type: Governance'' @ nl"
  define app where "app = ''Type: Approval'' @ nl"
  define mb where "mb = ''Type: Mint/Burn'' @ nl"
  define bt where "bt = ''Type: Bridge Transfer'' @ nl"
  define oc where "oc = ''Type: Oracle Update'' @ nl"
  have "telegram_body tokens a =
     (if al_rule_type a = ''governance'' then gov @ m
      else if al_rule_type a = ''approval'' then app @ m @ token_details tokens a
      else if al_rule_type a = ''mint_burn'' then mb @ m @ token_details tokens a
      else if al_rule_type a = ''bridge_transfer'' then bt @ m @ token_details tokens a
      else if al_rule_type a = ''oracle_update'' then oc @ m @ oracle_details a
      else m @ default_details tokens a)"
    by (simp add: telegram_body_def m_def gov_def app_def mb_def bt_def oc_def Let_def)
  then have "\<exists>pre post. telegram_body tokens a = pre @ m @ post"
    by (simp only: *  split: if_split) simp
  then show ?thesis by (simp add: m_def)
qed

text \<open>The message of the alert is part of every Telegram text, between the same header and footer.\<close>

lemma telegram_frame:
  "\<exists>customer pre post. format_telegram a customers tokens =
     ''[Risk Sentinel Alert]'' @ nl @ ''Customer: '' @ customer @ nl @ pre @
     ''Message: '' @ al_message a @ nl @ post @ ''Time: '' @ to_string (al_timestamp_ms a)"
proof -
  obtain pre post where "telegram_body tokens a = pre @ ''Message: '' @ al_message a @ nl @ post"
    using telegram_body_message by blast
  then show ?thesis by (simp add: format_telegram_def Let_def) blast
qed

end
