(* ===== verification/Crypto.thy ===== *)
theory Crypto
  imports Hex
begin

text \<open>
  \<open>security/crypto.cpp\<close> and the provisioning command \<open>admin/encrypt_secret.cpp\<close>.  OpenSSL is
  third-party code: the record \<open>openssl\<close> holds what the wrappers observe of it (whether each
  EVP call succeeds, the AES-256-GCM stream transformation, its tag and the tag check, the
  HMAC), and \<open>gcm_laws\<close> states the documented behaviour the round trip relies on.  The lemmas
  cover the guards of the wrappers, the split of tag and text, the exact domain of the key
  parser, and that a provisioned secret decrypts to itself.
\<close>

section \<open>The OpenSSL interface\<close>

datatype evp_call =
    CIPHER_CTX_new | Init_cipher | Ctrl_ivlen | Init_key_iv | Update | Ctrl_tag | Final
  | MAC_fetch | MAC_CTX_new | MAC_init | MAC_update | MAC_final

record openssl =
  evp_ok :: "evp_call \<Rightarrow> bool"
  gcm_encrypt :: "bytes \<Rightarrow> bytes \<Rightarrow> bytes \<Rightarrow> bytes"
  gcm_decrypt :: "bytes \<Rightarrow> bytes \<Rightarrow> bytes \<Rightarrow> bytes"
  gcm_tag :: "bytes \<Rightarrow> bytes \<Rightarrow> bytes \<Rightarrow> bytes"
  gcm_tag_ok :: "bytes \<Rightarrow> bytes \<Rightarrow> bytes \<Rightarrow> bytes \<Rightarrow> bool"
  hmac_sha256 :: "bytes \<Rightarrow> bytes \<Rightarrow> bytes"

definition gcm_laws :: "openssl \<Rightarrow> bool" where
  "gcm_laws ssl \<longleftrightarrow> (\<forall>key nonce text tag.
     length (gcm_encrypt ssl key nonce text) = length text \<and>
     gcm_decrypt ssl key nonce (gcm_encrypt ssl key nonce text) = text \<and>
     length (gcm_tag ssl key nonce text) = 16 \<and>
     (gcm_tag_ok ssl key nonce text tag \<longleftrightarrow> tag = gcm_tag ssl key nonce text))"

section \<open>Definitions\<close>

definition bytes_of :: "string \<Rightarrow> bytes" where
  "bytes_of s = map (\<lambda>c. word_of_nat (of_char c)) s"

definition string_of :: "bytes \<Rightarrow> string" where
  "string_of bs = map (\<lambda>b. char_of (unat b)) bs"

text \<open>The sequence of EVP calls: the first that fails throws its message.\<close>

definition evp_require :: "openssl \<Rightarrow> evp_call \<Rightarrow> string \<Rightarrow> unit result" where
  "evp_require ssl c msg = (if evp_ok ssl c then Inr () else Inl (RuntimeError msg))"

definition aes_gcm_decrypt :: "openssl \<Rightarrow> bytes \<Rightarrow> bytes \<Rightarrow> bytes \<Rightarrow> string result" where
  "aes_gcm_decrypt ssl master_key nonce ciphertext =
     (if length master_key \<noteq> 32 then Inl (RuntimeError ''aes_gcm_decrypt: master_key must be 32 bytes'')
      else if length nonce \<noteq> 12 then Inl (RuntimeError ''aes_gcm_decrypt: nonce must be 12 bytes'')
      else if length ciphertext < 16 then
        Inl (RuntimeError ''aes_gcm_decrypt: ciphertext too short (< 16 bytes)'')
      else
        let enc_len = length ciphertext - 16;
            enc = take enc_len ciphertext;
            tag = drop enc_len ciphertext in
        bindE (evp_require ssl CIPHER_CTX_new ''aes_gcm_decrypt: EVP_CIPHER_CTX_new failed'') (\<lambda>_.
        bindE (evp_require ssl Init_cipher ''aes_gcm_decrypt: EVP_DecryptInit_ex (cipher) failed'') (\<lambda>_.
        bindE (evp_require ssl Ctrl_ivlen ''aes_gcm_decrypt: setting IV length failed'') (\<lambda>_.
        bindE (evp_require ssl Init_key_iv ''aes_gcm_decrypt: EVP_DecryptInit_ex (key/iv) failed'') (\<lambda>_.
        bindE (if enc_len > 0 then
                 bindE (evp_require ssl Update ''aes_gcm_decrypt: EVP_DecryptUpdate failed'')
                   (\<lambda>_. Inr (gcm_decrypt ssl master_key nonce enc))
               else Inr []) (\<lambda>plaintext.
        bindE (evp_require ssl Ctrl_tag ''aes_gcm_decrypt: setting GCM tag failed'') (\<lambda>_.
          if \<not> gcm_tag_ok ssl master_key nonce enc tag then
            Inl (RuntimeError ''aes_gcm_decrypt: authentication tag verification failed'')
          else Inr (string_of plaintext))))))))"

definition aes_gcm_encrypt :: "openssl \<Rightarrow> bytes \<Rightarrow> bytes \<Rightarrow> string \<Rightarrow> bytes result" where
  "aes_gcm_encrypt ssl master_key nonce plaintext =
     (if length master_key \<noteq> 32 then Inl (RuntimeError ''aes_gcm_encrypt: master_key must be 32 bytes'')
      else if length nonce \<noteq> 12 then Inl (RuntimeError ''aes_gcm_encrypt: nonce must be 12 bytes'')
      else
        bindE (evp_require ssl CIPHER_CTX_new ''aes_gcm_encrypt: EVP_CIPHER_CTX_new failed'') (\<lambda>_.
        bindE (evp_require ssl Init_cipher ''aes_gcm_encrypt: EVP_EncryptInit_ex (cipher) failed'') (\<lambda>_.
        bindE (evp_require ssl Ctrl_ivlen ''aes_gcm_encrypt: setting IV length failed'') (\<lambda>_.
        bindE (evp_require ssl Init_key_iv ''aes_gcm_encrypt: EVP_EncryptInit_ex (key/iv) failed'') (\<lambda>_.
        bindE (if plaintext \<noteq> [] then
                 bindE (evp_require ssl Update ''aes_gcm_encrypt: EVP_EncryptUpdate failed'')
                   (\<lambda>_. Inr (gcm_encrypt ssl master_key nonce (bytes_of plaintext)))
               else Inr []) (\<lambda>enc.
        bindE (evp_require ssl Final ''aes_gcm_encrypt: EVP_EncryptFinal_ex failed'') (\<lambda>_.
        bindE (evp_require ssl Ctrl_tag ''aes_gcm_encrypt: getting GCM tag failed'') (\<lambda>_.
          Inr (enc @ gcm_tag ssl master_key nonce enc)))))))))"

definition hmac_sha256_hex :: "openssl \<Rightarrow> string \<Rightarrow> string \<Rightarrow> string result" where
  "hmac_sha256_hex ssl key data =
     bindE (evp_require ssl MAC_fetch ''hmac_sha256_hex: EVP_MAC_fetch failed'') (\<lambda>_.
     bindE (evp_require ssl MAC_CTX_new ''hmac_sha256_hex: EVP_MAC_CTX_new failed'') (\<lambda>_.
     bindE (evp_require ssl MAC_init ''hmac_sha256_hex: EVP_MAC_init failed'') (\<lambda>_.
     bindE (evp_require ssl MAC_update ''hmac_sha256_hex: EVP_MAC_update failed'') (\<lambda>_.
     bindE (evp_require ssl MAC_final ''hmac_sha256_hex: EVP_MAC_final failed'') (\<lambda>_.
       Inr (bytes_to_hex (hmac_sha256 ssl (bytes_of key) (bytes_of data))))))))"

definition key_nibble :: "char \<Rightarrow> u8 result" where
  "key_nibble c =
     (if CHR ''0'' \<le> c \<and> c \<le> CHR ''9'' then Inr (word_of_nat (of_char c - 48))
      else if CHR ''a'' \<le> c \<and> c \<le> CHR ''f'' then Inr (word_of_nat (of_char c - 97 + 10))
      else if CHR ''A'' \<le> c \<and> c \<le> CHR ''F'' then Inr (word_of_nat (of_char c - 65 + 10))
      else Inl (RuntimeError (''parse_master_key_hex: invalid hex character '' @ [CHR 0x27, c, CHR 0x27])))"

definition parse_master_key_hex :: "string \<Rightarrow> bytes result" where
  "parse_master_key_hex hex =
     (if length hex \<noteq> 64 then
        Inl (RuntimeError (''parse_master_key_hex: must be exactly 64 hex characters, got '' @
          dec_digits (length hex)))
      else hex_pairs key_nibble 32 hex)"

subsection \<open>The provisioning command\<close>

record secret_args =
  sa_customer_id :: u64
  sa_has_customer_id :: bool
  sa_url :: string
  sa_secret :: string

text \<open>The argument loop; \<open>Inl\<close> is the early \<open>return 1\<close>.\<close>

fun parse_secret_args :: "string list \<Rightarrow> secret_args \<Rightarrow> unit + secret_args" where
  "parse_secret_args [] st = Inr st"
| "parse_secret_args [arg] st = Inl ()"
| "parse_secret_args (arg # v # rest) st =
     (if arg = ''--customer-id'' then
        (case stoull v of
           Inl _ \<Rightarrow> Inl ()
         | Inr n \<Rightarrow> parse_secret_args rest (st\<lparr>sa_customer_id := n, sa_has_customer_id := True\<rparr>))
      else if arg = ''--url'' then parse_secret_args rest (st\<lparr>sa_url := v\<rparr>)
      else if arg = ''--secret'' then parse_secret_args rest (st\<lparr>sa_secret := v\<rparr>)
      else Inl ())"

text \<open>
  What the command prints on success, as its parts; \<open>rand_secret\<close> and \<open>rand_nonce\<close> are the two
  \<open>RAND_bytes\<close> calls (\<open>None\<close> when the call fails).
\<close>

record provisioned =
  pv_customer_id :: u64
  pv_url :: string
  pv_secret :: string
  pv_ciphertext_hex :: string
  pv_nonce_hex :: string

definition generate_random_hex64 :: "bytes option \<Rightarrow> string result" where
  "generate_random_hex64 rand =
     (case rand of None \<Rightarrow> Inl (RuntimeError ''RAND_bytes failed'') | Some buf \<Rightarrow> Inr (bytes_to_hex buf))"

definition encrypt_secret_command ::
  "openssl \<Rightarrow> string option \<Rightarrow> bytes option \<Rightarrow> bytes option \<Rightarrow> string list \<Rightarrow> nat + provisioned" where
  "encrypt_secret_command ssl env rand_secret rand_nonce args =
     (case parse_secret_args args
        \<lparr>sa_customer_id = 0, sa_has_customer_id = False, sa_url = [], sa_secret = []\<rparr> of
        Inl _ \<Rightarrow> Inl 1
      | Inr a \<Rightarrow>
        if \<not> sa_has_customer_id a \<or> sa_url a = [] then Inl 1
        else case env of
          None \<Rightarrow> Inl 2
        | Some master_key_env \<Rightarrow>
          if master_key_env = [] then Inl 2
          else case parse_master_key_hex master_key_env of
            Inl _ \<Rightarrow> Inl 2
          | Inr master_key \<Rightarrow>
            (case (if sa_secret a = [] then generate_random_hex64 rand_secret else Inr (sa_secret a)) of
               Inl _ \<Rightarrow> Inl 3
             | Inr secret_plaintext \<Rightarrow>
               (case rand_nonce of
                  None \<Rightarrow> Inl 3
                | Some nonce_bytes \<Rightarrow>
                  (case aes_gcm_encrypt ssl master_key nonce_bytes secret_plaintext of
                     Inl _ \<Rightarrow> Inl 3
                   | Inr ciphertext \<Rightarrow>
                       Inr \<lparr>pv_customer_id = sa_customer_id a, pv_url = sa_url a,
                            pv_secret = secret_plaintext,
                            pv_ciphertext_hex = bytes_to_hex ciphertext,
                            pv_nonce_hex = bytes_to_hex nonce_bytes\<rparr>))))"

text \<open>The statement the command prints under \<open>SQL to run:\<close>.\<close>

abbreviation quote :: char where
  "quote \<equiv> CHR 0x27"

definition sql_before :: "provisioned \<Rightarrow> string" where
  "sql_before p =
     ''    INSERT INTO customer_webhook_channels'' @ [CHR 0x0A] @
     ''        (customer_id, url, hmac_secret_encrypted, hmac_secret_nonce, enabled)'' @ [CHR 0x0A] @
     ''    VALUES ('' @ [CHR 0x0A] @
     ''        '' @ to_string (pv_customer_id p) @ '','' @ [CHR 0x0A] @ ''        ''"

definition sql_behind :: "provisioned \<Rightarrow> string" where
  "sql_behind p = '','' @ [CHR 0x0A] @
     ''        decode('' @ [quote] @ pv_ciphertext_hex p @ [quote] @ '', '' @ [quote] @ ''hex'' @ [quote] @ ''),'' @ [CHR 0x0A] @
     ''        decode('' @ [quote] @ pv_nonce_hex p @ [quote] @ '', '' @ [quote] @ ''hex'' @ [quote] @ ''),'' @ [CHR 0x0A] @
     ''        true'' @ [CHR 0x0A] @
     ''    );'' @ [CHR 0x0A]"

definition sql_to_run :: "provisioned \<Rightarrow> string" where
  "sql_to_run p = sql_before p @ quote # pv_url p @ quote # sql_behind p"

section \<open>Facts\<close>

lemma of_char_less: "(of_char c :: nat) < 256"
  by (metis of_char_of nat_of_char_less_256)

lemma string_of_bytes_of [simp]: "string_of (bytes_of s) = s"
proof -
  have "char_of (unat (word_of_nat (of_char c) :: u8)) = c" for c :: char
    using of_char_less [of c] by (simp add: unsigned_of_nat take_bit_eq_mod)
  then show ?thesis by (simp add: string_of_def bytes_of_def comp_def map_idI)
qed

lemma string_of_Nil [simp]: "string_of [] = []"
  by (simp add: string_of_def)

lemma bytes_of_length [simp]: "length (bytes_of s) = length s"
  by (simp add: bytes_of_def)

lemma evp_require_Inr [simp]: "evp_require ssl c msg = Inr u \<longleftrightarrow> evp_ok ssl c"
  by (simp add: evp_require_def)

lemma evp_require_ok [simp]: "evp_ok ssl c \<Longrightarrow> evp_require ssl c msg = Inr ()"
  by (simp add: evp_require_def)

lemma aes_gcm_encrypt_eq:
  assumes "aes_gcm_encrypt ssl key nonce text = Inr ct"
  shows "length key = 32" and "length nonce = 12"
    and "ct = (if text = [] then [] else gcm_encrypt ssl key nonce (bytes_of text)) @
       gcm_tag ssl key nonce (if text = [] then [] else gcm_encrypt ssl key nonce (bytes_of text))"
    and "evp_ok ssl CIPHER_CTX_new \<and> evp_ok ssl Init_cipher \<and> evp_ok ssl Ctrl_ivlen \<and>
       evp_ok ssl Init_key_iv \<and> evp_ok ssl Ctrl_tag \<and> (text \<noteq> [] \<longrightarrow> evp_ok ssl Update)"
  using assms by (auto simp: aes_gcm_encrypt_def bindE_eq_Inr split: if_splits)

lemma gcm_round_trip:
  assumes laws: "gcm_laws ssl" and enc: "aes_gcm_encrypt ssl key nonce text = Inr ct"
  shows "length ct = length text + 16" and "aes_gcm_decrypt ssl key nonce ct = Inr text"
proof -
  note e = aes_gcm_encrypt_eq [OF enc]
  define body where "body = (if text = [] then [] else gcm_encrypt ssl key nonce (bytes_of text))"
  have ct: "ct = body @ gcm_tag ssl key nonce body" using e(3) by (simp add: body_def)
  have len: "length body = length text" "length (gcm_tag ssl key nonce body) = 16"
    using laws by (simp_all add: body_def gcm_laws_def)
  then show "length ct = length text + 16" by (simp add: ct)
  have "gcm_tag_ok ssl key nonce body (gcm_tag ssl key nonce body)"
    "text \<noteq> [] \<Longrightarrow> gcm_decrypt ssl key nonce body = bytes_of text"
    using laws by (simp_all add: gcm_laws_def body_def)
  then show "aes_gcm_decrypt ssl key nonce ct = Inr text"
    using e(1,2,4) len by (cases "text = []") (simp_all add: aes_gcm_decrypt_def ct)
qed

lemma gcm_tamper:
  assumes "gcm_laws ssl" and "aes_gcm_decrypt ssl key nonce ct = Inr text"
  shows "\<exists>body. ct = body @ gcm_tag ssl key nonce body"
proof -
  let ?n = "length ct - 16"
  have "gcm_tag_ok ssl key nonce (take ?n ct) (drop ?n ct)"
    using assms(2) by (auto simp: aes_gcm_decrypt_def Let_def bindE_eq_Inr split: if_splits)
  then have "drop ?n ct = gcm_tag ssl key nonce (take ?n ct)"
    using assms(1) by (simp add: gcm_laws_def)
  then show ?thesis by (metis append_take_drop_id)
qed

lemma key_nibble_eq:
  "key_nibble c = (case hex_nibble c of Inr n \<Rightarrow> Inr n
     | Inl _ \<Rightarrow> Inl (RuntimeError (''parse_master_key_hex: invalid hex character '' @ [CHR 0x27, c, CHR 0x27])))"
  by (simp add: key_nibble_def hex_nibble_def)

lemma hex_pairs_same:
  "(\<And>c n. nib c = Inr n \<longleftrightarrow> nib' c = Inr n) \<Longrightarrow> hex_pairs nib n cs = Inr bs \<longleftrightarrow> hex_pairs nib' n cs = Inr bs"
  by (induction nib n cs arbitrary: bs rule: hex_pairs.induct) (simp_all add: bindE_eq_Inr)

lemma parse_master_key_iff:
  "parse_master_key_hex hex = Inr key \<longleftrightarrow>
     length hex = 64 \<and> list_all is_hex_digit hex \<and> key = pair_bytes hex"
proof -
  have "key_nibble c = Inr n \<longleftrightarrow> hex_nibble c = Inr n" for c n
    by (auto simp: key_nibble_eq split: sum.splits)
  then have "hex_pairs key_nibble 32 hex = Inr key \<longleftrightarrow> hex_pairs hex_nibble 32 hex = Inr key"
    by (rule hex_pairs_same)
  then show ?thesis
    using hex_pairs_correct [of 32 hex] by (auto simp: parse_master_key_hex_def list_all_iff)
qed

lemma parse_master_key_length: "parse_master_key_hex hex = Inr key \<Longrightarrow> length key = 32"
  by (auto simp: parse_master_key_iff length_pair_bytes)

lemma encrypt_secret_elim:
  assumes "encrypt_secret_command ssl env rs rn args = Inr p"
  obtains mk key nonce ct where "env = Some mk" "parse_master_key_hex mk = Inr key" "rn = Some nonce"
    "aes_gcm_encrypt ssl key nonce (pv_secret p) = Inr ct"
    "pv_ciphertext_hex p = bytes_to_hex ct" "pv_nonce_hex p = bytes_to_hex nonce"
  using assms
  by (auto simp: encrypt_secret_command_def Let_def split: sum.splits option.splits if_splits)

section \<open>Properties\<close>

text \<open>
  The encryption wrappers are inverse and authenticated.  Under the documented laws of
  AES-256-GCM, whatever \<open>aes_gcm_encrypt\<close> returns is sixteen bytes longer than the text and
  decrypts to it, and \<open>aes_gcm_decrypt\<close> returns a text only for an input whose last sixteen
  bytes are the tag of the rest.
\<close>

theorem aes_gcm_correct:
  assumes "gcm_laws ssl"
  shows "(aes_gcm_encrypt ssl key nonce text = Inr ct \<longrightarrow>
      length ct = length text + 16 \<and> aes_gcm_decrypt ssl key nonce ct = Inr text) \<and>
    (aes_gcm_decrypt ssl key nonce ct = Inr text \<longrightarrow>
      (\<exists>body. ct = body @ gcm_tag ssl key nonce body))"
  using gcm_round_trip gcm_tamper assms by blast

definition sum_ssl :: openssl where
  "sum_ssl = \<lparr>evp_ok = (\<lambda>_. True), gcm_encrypt = (\<lambda>_ _ text. map (\<lambda>b. NOT b) text),
     gcm_decrypt = (\<lambda>_ _ text. map (\<lambda>b. NOT b) text),
     gcm_tag = (\<lambda>_ _ text. replicate 16 (foldl (+) 0 text)),
     gcm_tag_ok = (\<lambda>_ _ text tag. tag = replicate 16 (foldl (+) 0 text)),
     hmac_sha256 = (\<lambda>key text. replicate 32 (foldl (+) 0 (key @ text)))\<rparr>"

lemma sum_ssl_laws: "gcm_laws sum_ssl"
  by (simp add: gcm_laws_def sum_ssl_def comp_def)

theorem aes_gcm_correct_witness:
  "\<exists>ct. aes_gcm_encrypt sum_ssl (replicate 32 7) (replicate 12 0) ''secret'' = Inr ct \<and>
     aes_gcm_decrypt sum_ssl (replicate 32 7) (replicate 12 0) ct = Inr ''secret''"
proof -
  obtain ct where ct: "aes_gcm_encrypt sum_ssl (replicate 32 7) (replicate 12 0) ''secret'' = Inr ct"
    by (simp add: aes_gcm_encrypt_def sum_ssl_def)
  with aes_gcm_correct [OF sum_ssl_laws, of "replicate 32 7" "replicate 12 0" "''secret''" ct]
  show ?thesis by blast
qed

text \<open>
  The master key parser accepts exactly the 64-digit hexadecimal texts, in either case, and
  returns the 32 bytes they denote.
\<close>

theorem master_key_exact:
  "parse_master_key_hex hex = Inr key \<longleftrightarrow>
     length hex = 64 \<and> list_all is_hex_digit hex \<and> key = pair_bytes hex"
  by (rule parse_master_key_iff)

text \<open>
  A secret provisioned by the admin command can be recovered: the hexadecimal ciphertext and nonce
  it prints decrypt, under the same master key, to the secret it printed.
\<close>

lemma provisioned_secret_recovered:
  assumes "gcm_laws ssl" and "encrypt_secret_command ssl (Some mk) rand_secret rand_nonce args = Inr p"
    and "parse_master_key_hex mk = Inr key"
  shows "aes_gcm_decrypt ssl key (pair_bytes (pv_nonce_hex p)) (pair_bytes (pv_ciphertext_hex p))
     = Inr (pv_secret p)"
  using assms(2,3) gcm_round_trip(2) [OF assms(1)] by (auto elim!: encrypt_secret_elim)

lemma sum_ssl_provisions:
  "\<exists>p. encrypt_secret_command sum_ssl (Some (replicate 64 CHR ''a'')) None (Some (replicate 12 0))
        [''--customer-id'', ''7'', ''--url'', ''u'', ''--secret'', ''s''] = Inr p \<and> pv_secret p = ''s''"
proof -
  have digit: "is_hex_digit CHR ''a''" by code_simp
  have key: "parse_master_key_hex (replicate 64 CHR ''a'') = Inr (pair_bytes (replicate 64 CHR ''a''))"
    using digit by (simp add: parse_master_key_iff list_all_iff)
  have seven: "stoull ''7'' = Inr 7"
  proof -
    have "digit_char 7 = CHR ''7''" by code_simp
    then show ?thesis using stoull_to_string [of 7] by (simp add: to_string_def dec_digits.simps [of 7])
  qed
  have "length (pair_bytes (replicate 64 CHR ''a'')) = 32"
    using parse_master_key_length [OF key] .
  with key seven show ?thesis
    by (simp add: encrypt_secret_command_def aes_gcm_encrypt_def sum_ssl_def)
qed

section \<open>The printed statement\<close>

text \<open>
  How SQL reads a string literal behind its opening quote: up to the next quote that is not doubled, a
  doubled one standing for itself.
\<close>

fun sql_literal :: "string \<Rightarrow> (string \<times> string) option" where
  "sql_literal [] = None"
| "sql_literal [c] = (if c = quote then Some ([], []) else None)"
| "sql_literal (c # d # rest) =
     (if c \<noteq> quote then map_option (apfst (Cons c)) (sql_literal (d # rest))
      else if d = quote then map_option (apfst (Cons quote)) (sql_literal rest)
      else Some ([], d # rest))"

lemma sql_literal_length:
  "sql_literal t = Some (s, rest) \<Longrightarrow> length t = length s + count_list s quote + Suc (length rest)"
proof (induction t arbitrary: s rule: sql_literal.induct)
  case (3 c d t)
  then show ?case by (fastforce split: if_splits simp: apfst_def)
qed (auto split: if_splits)

lemma sql_literal_plain:
  "quote \<notin> set s \<Longrightarrow> rest = [] \<or> hd rest \<noteq> quote \<Longrightarrow> sql_literal (s @ quote # rest) = Some (s, rest)"
proof (induction s)
  case Nil
  then show ?case by (cases rest) auto
next
  case (Cons c s)
  then show ?case by (cases s) auto
qed

lemma sql_literal_iff:
  assumes "rest = [] \<or> hd rest \<noteq> quote"
  shows "sql_literal (s @ quote # rest) = Some (s, rest) \<longleftrightarrow> quote \<notin> set s"
proof
  assume "sql_literal (s @ quote # rest) = Some (s, rest)"
  from sql_literal_length [OF this] show "quote \<notin> set s" by (simp add: count_list_0_iff)
qed (use assms sql_literal_plain in \<open>blast\<close>)

text \<open>
  The statement stores the address given on the command line exactly when that address contains no quote;
  otherwise the literal ends elsewhere or reads differently.
\<close>

theorem sql_url_exact:
  "sql_to_run p = sql_before p @ quote # pv_url p @ quote # sql_behind p \<and>
   (sql_literal (pv_url p @ quote # sql_behind p) = Some (pv_url p, sql_behind p) \<longleftrightarrow> quote \<notin> set (pv_url p))"
  by (intro conjI sql_to_run_def sql_literal_iff) (simp add: sql_behind_def)

end
