(* ===== verification/Alert_Channels.thy ===== *)
theory Alert_Channels
  imports Alert_Formatter Crypto
begin

text \<open>
  The alert channels (\<open>risk/console_alert_channel.cpp\<close>, \<open>telegram_alert_channel.cpp\<close>,
  \<open>webhook_alert_channel.cpp\<close>, \<open>file_alert_channel.cpp\<close>) behind \<open>IAlertChannel\<close>.  What they call
  outside the repository is the record \<open>channel_env\<close>: JSON serialization (which may throw on
  text that is not UTF-8), libcurl, the output file, OpenSSL.  What they did is recorded in
  \<open>outbox\<close>.  The locale \<open>alert_channel\<close> is the interface the dispatcher uses.
\<close>

section \<open>Environment and effects\<close>

datatype json = J_uint u64 | J_string string

type_synonym json_object = "(string \<times> json) list"

record http_request =
  hr_url :: string
  hr_body :: string
  hr_headers :: "string list"

datatype curl_outcome =
    Curl_failed string
  | Curl_no_code string
  | Http_status int

record channel_env =
  ce_dump :: "json_object \<Rightarrow> string result"
  ce_dump_ordered :: "json_object \<Rightarrow> string result"
  ce_curl_init :: "(http_request \<times> curl_outcome) list \<Rightarrow> bool"
  ce_curl_perform :: "(http_request \<times> curl_outcome) list \<Rightarrow> http_request \<Rightarrow> curl_outcome"
  ce_write :: "string \<Rightarrow> string \<Rightarrow> string \<times> bool"
  ce_ssl :: openssl

record outbox =
  ob_console :: string
  ob_posts :: "(http_request \<times> curl_outcome) list"

text \<open>
  One request through libcurl: nothing is sent when the handle cannot be created; the outcome
  (an error or a status) only selects a log line.
\<close>

definition post :: "channel_env \<Rightarrow> http_request \<Rightarrow> outbox \<Rightarrow> outbox" where
  "post env r w =
     (if ce_curl_init env (ob_posts w)
      then w\<lparr>ob_posts := ob_posts w @ [(r, ce_curl_perform env (ob_posts w) r)]\<rparr>
      else w)"

section \<open>The four channels\<close>

record TelegramAlertChannel =
  tg_bot_token :: string
  tg_chat_id :: string
  tg_customer_map :: "customer_map option"
  tg_token_map :: "token_map option"

record WebhookEndpoint =
  we_url :: string
  we_hmac_secret :: string

type_synonym webhook_map = "(u64 \<times> WebhookEndpoint list) list"

record FileAlertChannel =
  fa_output_path :: string
  fa_content :: string
  fa_alert_count :: u64

datatype Channel =
    C_Console
  | C_Telegram TelegramAlertChannel
  | C_Webhook webhook_map
  | C_File FileAlertChannel

primrec channel_name :: "Channel \<Rightarrow> string" where
  "channel_name C_Console = ''console''"
| "channel_name (C_Telegram _) = ''telegram''"
| "channel_name (C_Webhook _) = ''webhook''"
| "channel_name (C_File _) = ''file''"

definition console_send :: "Alert \<Rightarrow> outbox \<Rightarrow> outbox" where
  "console_send alert w = w\<lparr>ob_console := ob_console w @ format_console alert\<rparr>"

definition telegram_request :: "TelegramAlertChannel \<Rightarrow> string \<Rightarrow> http_request" where
  "telegram_request ch body =
     \<lparr>hr_url = ''https://api.telegram.org/bot'' @ tg_bot_token ch @ ''/sendMessage'',
      hr_body = body, hr_headers = [''Content-Type: application/json'']\<rparr>"

text \<open>The handle is created first, so a failing serialization is only reached with a handle.\<close>

definition telegram_send ::
  "channel_env \<Rightarrow> TelegramAlertChannel \<Rightarrow> Alert \<Rightarrow> outbox \<Rightarrow> exn option \<times> outbox" where
  "telegram_send env ch alert w =
     (if \<not> ce_curl_init env (ob_posts w) then (None, w)
      else case ce_dump env [(''chat_id'', J_string (tg_chat_id ch)),
              (''text'', J_string (format_telegram alert (tg_customer_map ch) (tg_token_map ch)))] of
        Inl e \<Rightarrow> (Some e, w)
      | Inr body \<Rightarrow> (None, post env (telegram_request ch body) w))"

definition alert_payload :: "Alert \<Rightarrow> json_object" where
  "alert_payload alert =
     [(''customer_id'', J_uint (al_customer_id alert)), (''rule_type'', J_string (al_rule_type alert)),
      (''message'', J_string (al_message alert)), (''timestamp_ms'', J_uint (al_timestamp_ms alert))] @
     (case al_chain_id alert of None \<Rightarrow> [] | Some c \<Rightarrow> [(''chain_id'', J_uint c)]) @
     (case al_token_address alert of None \<Rightarrow> [] | Some t \<Rightarrow> [(''token_address'', J_string t)]) @
     (case al_amount_decimal alert of None \<Rightarrow> [] | Some x \<Rightarrow> [(''amount_decimal'', J_string x)])"

definition webhook_signature :: "channel_env \<Rightarrow> WebhookEndpoint \<Rightarrow> string \<Rightarrow> string \<Rightarrow> string result" where
  "webhook_signature env ep ts body =
     (if we_hmac_secret ep = [] then Inr []
      else bindE (hmac_sha256_hex (ce_ssl env) (we_hmac_secret ep) (ts @ ''.'' @ body))
             (\<lambda>h. Inr (''sha256='' @ h)))"

definition webhook_request :: "WebhookEndpoint \<Rightarrow> string \<Rightarrow> string \<Rightarrow> string \<Rightarrow> http_request" where
  "webhook_request ep ts body signature =
     \<lparr>hr_url = we_url ep, hr_body = body,
      hr_headers = [''Content-Type: application/json'', ''X-Risk-Sentinel-Timestamp: '' @ ts] @
        (if signature = [] then [] else [''X-Risk-Sentinel-Signature: '' @ signature])\<rparr>"

primrec webhook_loop ::
  "channel_env \<Rightarrow> string \<Rightarrow> string \<Rightarrow> WebhookEndpoint list \<Rightarrow> outbox \<Rightarrow> exn option \<times> outbox" where
  "webhook_loop env ts body [] w = (None, w)"
| "webhook_loop env ts body (ep # eps) w =
     (case webhook_signature env ep ts body of
        Inl e \<Rightarrow> (Some e, w)
      | Inr signature \<Rightarrow>
          webhook_loop env ts body eps (post env (webhook_request ep ts body signature) w))"

definition webhook_send ::
  "channel_env \<Rightarrow> webhook_map \<Rightarrow> Alert \<Rightarrow> u64 \<Rightarrow> outbox \<Rightarrow> exn option \<times> outbox" where
  "webhook_send env webhooks alert now_ms w =
     (case map_of webhooks (al_customer_id alert) of
        None \<Rightarrow> (None, w)
      | Some eps \<Rightarrow>
          if eps = [] then (None, w)
          else case ce_dump env (alert_payload alert) of
            Inl e \<Rightarrow> (Some e, w)
          | Inr body \<Rightarrow> webhook_loop env (to_string now_ms) body eps w)"

text \<open>
  The constructor of the file channel.  \<open>fe_parent\<close> is the parent path if there is one,
  \<open>fe_create_directories\<close> the message of the error it sets if any, \<open>fe_open\<close> whether the stream opens;
  opening truncates the file.
\<close>

record file_env =
  fe_parent :: "string \<Rightarrow> string option"
  fe_create_directories :: "string \<Rightarrow> string option"
  fe_open :: "string \<Rightarrow> bool"

definition new_file_channel :: "file_env \<Rightarrow> string \<Rightarrow> FileAlertChannel result" where
  "new_file_channel fs output_path =
     bindE (case fe_parent fs output_path of
              None \<Rightarrow> Inr ()
            | Some p \<Rightarrow>
                (case fe_create_directories fs p of
                   None \<Rightarrow> Inr ()
                 | Some msg \<Rightarrow> Inl (RuntimeError (''FileAlertChannel: failed to create parent directory '' @
                     [CHR 0x27] @ p @ [CHR 0x27] @ '': '' @ msg))))
       (\<lambda>_. if \<not> fe_open fs output_path then
               Inl (RuntimeError (''FileAlertChannel: failed to open output file '' @ [CHR 0x27] @ output_path @ [CHR 0x27]))
             else Inr \<lparr>fa_output_path = output_path, fa_content = [], fa_alert_count = 0\<rparr>)"

definition file_send :: "channel_env \<Rightarrow> FileAlertChannel \<Rightarrow> Alert \<Rightarrow> FileAlertChannel" where
  "file_send env ch alert =
     (let tentative_index = fa_alert_count ch + 1 in
      case ce_dump_ordered env ((''alert_index'', J_uint tentative_index) # alert_payload alert) of
        Inl e \<Rightarrow> ch
      | Inr line \<Rightarrow>
          let (content, good) = ce_write env (fa_content ch) (line @ nl) in
          if \<not> good then ch\<lparr>fa_content := content\<rparr>
          else ch\<lparr>fa_content := content, fa_alert_count := tentative_index\<rparr>)"

definition channel_send ::
  "channel_env \<Rightarrow> u64 \<Rightarrow> Alert \<Rightarrow> Channel \<Rightarrow> outbox \<Rightarrow> exn option \<times> Channel \<times> outbox" where
  "channel_send env now_ms alert ch w =
     (case ch of
        C_Console \<Rightarrow> (None, C_Console, console_send alert w)
      | C_Telegram t \<Rightarrow> (case telegram_send env t alert w of (e, w') \<Rightarrow> (e, C_Telegram t, w'))
      | C_Webhook m \<Rightarrow> (case webhook_send env m alert now_ms w of (e, w') \<Rightarrow> (e, C_Webhook m, w'))
      | C_File f \<Rightarrow> (None, C_File (file_send env f alert), w))"

section \<open>The interface of a channel\<close>

text \<open>The fan-out loop of the dispatcher, over any implementation of a channel.\<close>

primrec fan_out ::
  "('c \<Rightarrow> 'w \<Rightarrow> exn option \<times> 'c \<times> 'w) \<Rightarrow> 'c list \<Rightarrow> 'w \<Rightarrow> (exn option) list \<times> 'c list \<times> 'w" where
  "fan_out send [] w = ([], [], w)"
| "fan_out send (c # cs) w =
     (let (e, c', w1) = send c w; (es, cs', w2) = fan_out send cs w1 in (e # es, c' # cs', w2))"

locale alert_channel =
  fixes name :: "'c \<Rightarrow> string"
    and send :: "'c \<Rightarrow> 'w \<Rightarrow> exn option \<times> 'c \<times> 'w"
    and sent :: "'w \<Rightarrow> 'm list"
    and allowed :: "'c \<Rightarrow> 'm \<Rightarrow> bool"
  assumes name_fixed: "name (fst (snd (send c w))) = name c"
    and sends_append: "\<exists>new. sent (snd (snd (send c w))) = sent w @ new \<and> (\<forall>m\<in>set new. allowed c m)"
begin

lemma fan_out_length:
  "length (fst (fan_out send cs w)) = length cs \<and> map name (fst (snd (fan_out send cs w))) = map name cs"
  using name_fixed by (induction cs arbitrary: w) (simp_all add: case_prod_unfold Let_def)

text \<open>No channel can undo what another one sent, and every message is one its channel may send.\<close>

lemma fan_out_appends:
  "\<exists>new. sent (snd (snd (fan_out send cs w))) = sent w @ new \<and> (\<forall>m\<in>set new. \<exists>c\<in>set cs. allowed c m)"
proof (induction cs arbitrary: w)
  case (Cons c cs)
  let ?w = "snd (snd (send c w))"
  obtain new where "sent ?w = sent w @ new" "\<forall>m\<in>set new. allowed c m"
    using sends_append by blast
  moreover obtain new' where "sent (snd (snd (fan_out send cs ?w))) = sent ?w @ new'"
      "\<forall>m\<in>set new'. \<exists>c\<in>set cs. allowed c m"
    using Cons.IH by blast
  ultimately show ?case
    by (intro exI [of _ "new @ new'"]) (auto simp: case_prod_unfold Let_def)
qed simp

end

section \<open>The channels implement the interface\<close>

definition may_post :: "Alert \<Rightarrow> Channel \<Rightarrow> http_request \<times> curl_outcome \<Rightarrow> bool" where
  "may_post alert ch m \<longleftrightarrow>
     (case ch of
        C_Telegram t \<Rightarrow> hr_url (fst m) = ''https://api.telegram.org/bot'' @ tg_bot_token t @ ''/sendMessage''
      | C_Webhook hooks \<Rightarrow> \<exists>ep\<in>set (bucket hooks (al_customer_id alert)). hr_url (fst m) = we_url ep
      | _ \<Rightarrow> False)"

lemma request_fields [simp]:
  "hr_url (webhook_request ep ts body s) = we_url ep" "hr_body (webhook_request ep ts body s) = body"
  "hr_url (telegram_request t body) = ''https://api.telegram.org/bot'' @ tg_bot_token t @ ''/sendMessage''"
  by (simp_all add: webhook_request_def telegram_request_def)

lemma post_appends:
  "\<exists>new. ob_posts (post env r w) = ob_posts w @ new \<and> (\<forall>m\<in>set new. fst m = r)"
  by (simp add: post_def)

lemma webhook_loop_appends:
  "\<exists>new. ob_posts (snd (webhook_loop env ts body eps w)) = ob_posts w @ new \<and>
     (\<forall>m\<in>set new. \<exists>ep\<in>set eps. \<exists>s. webhook_signature env ep ts body = Inr s \<and>
        fst m = webhook_request ep ts body s)"
proof (induction eps arbitrary: w)
  case (Cons ep eps)
  show ?case
  proof (cases "webhook_signature env ep ts body")
    case (Inl e)
    then show ?thesis by simp
  next
    case (Inr s)
    let ?w = "post env (webhook_request ep ts body s) w"
    obtain new where "ob_posts ?w = ob_posts w @ new" "\<forall>m\<in>set new. fst m = webhook_request ep ts body s"
      using post_appends by blast
    moreover obtain new' where "ob_posts (snd (webhook_loop env ts body eps ?w)) = ob_posts ?w @ new'"
      "\<forall>m\<in>set new'. \<exists>ep\<in>set eps. \<exists>s. webhook_signature env ep ts body = Inr s \<and>
        fst m = webhook_request ep ts body s"
      using Cons.IH by blast
    ultimately show ?thesis
      using Inr by (intro exI [of _ "new @ new'"]) auto
  qed
qed simp

text \<open>What a webhook send posts: the exact bytes, signed, to the alert's own customer only.\<close>

lemma webhook_send_posts:
  "\<exists>new. ob_posts (snd (webhook_send env hooks a now w)) = ob_posts w @ new \<and>
     (\<forall>m\<in>set new. \<exists>body ep s. ce_dump env (alert_payload a) = Inr body \<and>
        ep \<in> set (bucket hooks (al_customer_id a)) \<and>
        webhook_signature env ep (to_string now) body = Inr s \<and>
        fst m = webhook_request ep (to_string now) body s)"
proof (cases "map_of hooks (al_customer_id a)")
  case None
  then show ?thesis by (simp add: webhook_send_def)
next
  case (Some eps)
  show ?thesis
  proof (cases "ce_dump env (alert_payload a)")
    case (Inl e)
    with Some show ?thesis by (simp add: webhook_send_def)
  next
    case (Inr body)
    obtain new where "ob_posts (snd (webhook_loop env (to_string now) body eps w)) = ob_posts w @ new"
      "\<forall>m\<in>set new. \<exists>ep\<in>set eps. \<exists>s. webhook_signature env ep (to_string now) body = Inr s \<and>
        fst m = webhook_request ep (to_string now) body s"
      using webhook_loop_appends by blast
    moreover have "webhook_send env hooks a now w = webhook_loop env (to_string now) body eps w"
      using Some Inr by (cases eps) (simp_all add: webhook_send_def)
    moreover have "bucket hooks (al_customer_id a) = eps" using Some by (simp add: bucket_def)
    ultimately show ?thesis using Inr by (intro exI [of _ new]) (simp, blast)
  qed
qed

lemma channel_name_fixed: "channel_name (fst (snd (channel_send env now a c w))) = channel_name c"
  by (cases c) (simp_all add: channel_send_def case_prod_unfold)

lemma channel_sends_append:
  "\<exists>new. ob_posts (snd (snd (channel_send env now a c w))) = ob_posts w @ new \<and>
     (\<forall>m\<in>set new. may_post a c m)"
proof (cases c)
  case (C_Telegram t)
  then show ?thesis
    by (simp add: channel_send_def telegram_send_def may_post_def post_def case_prod_unfold split: sum.splits)
next
  case (C_Webhook hooks)
  obtain new where new: "ob_posts (snd (webhook_send env hooks a now w)) = ob_posts w @ new"
    "\<forall>m\<in>set new. \<exists>body ep s. ce_dump env (alert_payload a) = Inr body \<and>
        ep \<in> set (bucket hooks (al_customer_id a)) \<and>
        webhook_signature env ep (to_string now) body = Inr s \<and>
        fst m = webhook_request ep (to_string now) body s"
    using webhook_send_posts by blast
  then have "\<forall>m\<in>set new. may_post a c m"
    by (fastforce simp: C_Webhook may_post_def)
  with new(1) show ?thesis
    by (simp add: C_Webhook channel_send_def case_prod_unfold)
qed (simp_all add: channel_send_def console_send_def)

interpretation channels: alert_channel channel_name "channel_send env now a" ob_posts "may_post a"
  for env now a
  by unfold_locales (rule channel_name_fixed, rule channel_sends_append)

lemma may_post_fixed: "may_post b (fst (snd (channel_send env now a c w))) = may_post b c"
  by (cases c) (simp_all add: channel_send_def case_prod_unfold may_post_def fun_eq_iff)

lemma fan_out_may_post:
  "map (may_post b) (fst (snd (fan_out (channel_send env now a) cs w))) = map (may_post b) cs"
  by (induction cs arbitrary: w) (simp_all add: case_prod_unfold Let_def may_post_fixed)

text \<open>
  Failures that stay silent: once the message is serialized, neither a curl error nor an HTTP
  error status makes the Telegram channel throw, and the file channel never throws.
\<close>

lemma telegram_swallows_failures:
  "ce_dump env [(''chat_id'', J_string (tg_chat_id t)),
      (''text'', J_string (format_telegram a (tg_customer_map t) (tg_token_map t)))] = Inr body \<Longrightarrow>
   fst (channel_send env now a (C_Telegram t) w) = None"
  by (simp add: channel_send_def telegram_send_def case_prod_unfold)

section \<open>Property\<close>

text \<open>The headers the receiver relies on: time stamp always, signature when there is a secret.\<close>

definition headers_ok :: "channel_env \<Rightarrow> WebhookEndpoint \<Rightarrow> string \<Rightarrow> http_request \<Rightarrow> bool" where
  "headers_ok env ep ts r \<longleftrightarrow>
     (if we_hmac_secret ep = []
      then hr_headers r = [''Content-Type: application/json'', ''X-Risk-Sentinel-Timestamp: '' @ ts]
      else \<exists>h. hmac_sha256_hex (ce_ssl env) (we_hmac_secret ep) (ts @ ''.'' @ hr_body r) = Inr h \<and>
        hr_headers r = [''Content-Type: application/json'', ''X-Risk-Sentinel-Timestamp: '' @ ts,
          ''X-Risk-Sentinel-Signature: sha256='' @ h])"

lemma webhook_request_headers:
  "webhook_signature env ep ts body = Inr s \<Longrightarrow> headers_ok env ep ts (webhook_request ep ts body s)"
  by (auto simp: headers_ok_def webhook_signature_def webhook_request_def bindE_eq_Inr split: if_splits)

text \<open>
  C33: webhook delivery.  A send only appends posts, each to an endpoint registered for the
  alert's own customer, each with the one serialized body and the timestamp header, and with
  a signature header exactly when the endpoint has a secret: the HMAC of timestamp, dot and body.
\<close>

theorem webhook_posts_signed:
  "\<exists>new. ob_posts (snd (webhook_send env hooks a now w)) = ob_posts w @ new \<and>
     list_all (\<lambda>m. \<exists>ep. ep \<in> set (bucket hooks (al_customer_id a)) \<and> hr_url (fst m) = we_url ep \<and>
        ce_dump env (alert_payload a) = Inr (hr_body (fst m)) \<and>
        headers_ok env ep (to_string now) (fst m)) new"
proof -
  obtain new where new: "ob_posts (snd (webhook_send env hooks a now w)) = ob_posts w @ new"
    "\<forall>m\<in>set new. \<exists>body ep s. ce_dump env (alert_payload a) = Inr body \<and>
        ep \<in> set (bucket hooks (al_customer_id a)) \<and>
        webhook_signature env ep (to_string now) body = Inr s \<and>
        fst m = webhook_request ep (to_string now) body s"
    using webhook_send_posts by blast
  have "\<forall>m\<in>set new. \<exists>ep. ep \<in> set (bucket hooks (al_customer_id a)) \<and> hr_url (fst m) = we_url ep \<and>
        ce_dump env (alert_payload a) = Inr (hr_body (fst m)) \<and> headers_ok env ep (to_string now) (fst m)"
    using new(2) webhook_request_headers request_fields(1,2) by metis
  then show ?thesis using new(1) unfolding list_all_iff by blast
qed

end
