(* ===== verification/Json.thy ===== *)
theory Json
  imports Sentinel_Prelude
begin

text \<open>
  The JSON values of the program's JSON library and the accessors the code uses: \<open>contains\<close>, \<open>at\<close>,
  \<open>get\<close> at a type, and \<open>value\<close> with a default.  Exceptions of the library carry the name of their
  class.
\<close>

text \<open>Values of the JSON library; \<open>J_double m e\<close> is the binary fraction \<open>m * 2 ^ e\<close>.\<close>

datatype jvalue =
    J_null
  | J_bool bool
  | J_num int
  | J_double int int
  | J_str string
  | J_arr "jvalue list"
  | J_obj "(string \<times> jvalue) list"

definition jcontains :: "jvalue \<Rightarrow> string \<Rightarrow> bool" where
  "jcontains j k = (case j of J_obj ms \<Rightarrow> map_of ms k \<noteq> None | _ \<Rightarrow> False)"

definition jat :: "jvalue \<Rightarrow> string \<Rightarrow> jvalue result" where
  "jat j k = (case j of
     J_obj ms \<Rightarrow> (case map_of ms k of Some v \<Rightarrow> Inr v | None \<Rightarrow> Inl (JsonError ''out_of_range''))
   | _ \<Rightarrow> Inl (JsonError ''type_error''))"

definition jget_string :: "jvalue \<Rightarrow> string result" where
  "jget_string j = (case j of J_str s \<Rightarrow> Inr s | _ \<Rightarrow> Inl (JsonError ''type_error''))"

definition jget_bool :: "jvalue \<Rightarrow> bool result" where
  "jget_bool j = (case j of J_bool b \<Rightarrow> Inr b | _ \<Rightarrow> Inl (JsonError ''type_error''))"

definition jget_strings :: "jvalue \<Rightarrow> string list result" where
  "jget_strings j = (case j of J_arr vs \<Rightarrow> mapE jget_string vs | _ \<Rightarrow> Inl (JsonError ''type_error''))"

lemma jat_jcontains: "jat j k = Inr v \<Longrightarrow> jcontains j k"
  by (auto simp: jat_def jcontains_def split: jvalue.splits option.splits)

lemma jat_null [simp]: "jat J_null k \<noteq> Inr v"
  by (simp add: jat_def)

text \<open>
  \<open>get<unsigned long long>()\<close>: every number and truth value converts, a fraction is cut (its value
  outside the range of the type is undefined in the language; here it wraps).
\<close>

definition jget_u64 :: "jvalue \<Rightarrow> u64 result" where
  "jget_u64 j = (case j of
     J_num i \<Rightarrow> Inr (word_of_int i)
   | J_double m e \<Rightarrow> Inr (word_of_int (if 0 \<le> e then m * 2 ^ nat e else sgn m * (\<bar>m\<bar> div 2 ^ nat (- e))))
   | J_bool b \<Rightarrow> Inr (if b then 1 else 0)
   | _ \<Rightarrow> Inl (JsonError ''type_error''))"

text \<open>\<open>value(key, default)\<close>: only on objects; a present member is converted, which may throw.\<close>

definition jvalue_or :: "(jvalue \<Rightarrow> 'a result) \<Rightarrow> jvalue \<Rightarrow> string \<Rightarrow> 'a \<Rightarrow> 'a result" where
  "jvalue_or get j key fallback = (case j of
     J_obj ms \<Rightarrow> (case map_of ms key of Some v \<Rightarrow> get v | None \<Rightarrow> Inr fallback)
   | _ \<Rightarrow> Inl (JsonError ''type_error''))"

end
