(* ===== verification/Config_Loaders.thy ===== *)
theory Config_Loaders
  imports Risk_Engine Alert_Channels Json
begin

text \<open>
  The configuration loaders of \<open>App\<close> (\<open>app/app.cpp\<close>, the \<open>load_*_configs_\<close> functions): rows of the
  database become the configuration maps of the rules and the webhook endpoints.  A row is a
  record whose fields are what \<open>row["..."].as<T>()\<close> gives at that row, a value or the exception of the
  database library; a query is the list of rows it returns or the exception it throws.  An
  exception leaves the loop; what was loaded before stays, because the maps are members of the
  object.  The locale \<open>config_loader\<close> states what a loader promises the rule it feeds; every loader
  is an interpretation.
\<close>

section \<open>Row loops\<close>

text \<open>The loop over the rows: whether it reached the end, and the members as they are then.\<close>

primrec load_rows :: "('r \<Rightarrow> 'm \<Rightarrow> 'm result) \<Rightarrow> 'r list \<Rightarrow> 'm \<Rightarrow> bool \<times> 'm" where
  "load_rows f [] m = (True, m)"
| "load_rows f (r # rs) m = (case f r m of Inl e \<Rightarrow> (False, m) | Inr m' \<Rightarrow> load_rows f rs m')"

text \<open>
  Most loops end in \<open>map[key].push_back(config)\<close>.  \<open>parse\<close> is the loop body up to that call: it
  throws, skips the row (\<open>continue\<close>), or gives key and configuration.
\<close>

type_synonym ('r, 'k, 'c) row_parser = "'r \<Rightarrow> ('k \<times> 'c) option result"

definition push_parsed :: "('r, 'k, 'c) row_parser \<Rightarrow> 'r \<Rightarrow> ('k \<times> 'c list) list \<Rightarrow> ('k \<times> 'c list) list result" where
  "push_parsed parse r m =
     bindE (parse r) (\<lambda>p. Inr (case p of None \<Rightarrow> m | Some (k, c) \<Rightarrow> push_bucket k c m))"

definition load_buckets ::
  "('r, 'k, 'c) row_parser \<Rightarrow> 'r list result \<Rightarrow> ('k \<times> 'c list) list \<Rightarrow> ('k \<times> 'c list) list" where
  "load_buckets parse query m =
     (case query of Inl e \<Rightarrow> m | Inr rows \<Rightarrow> snd (load_rows (push_parsed parse) rows m))"

section \<open>Rules on plain logs\<close>

record large_transfer_row =
  lr_customer_id :: "u64 result"
  lr_params_jsonb :: "string result"

text \<open>The inner \<open>try\<close> block; \<open>parse_json\<close> is the library's \<open>json::parse\<close>.\<close>

definition large_transfer_config ::
  "(string \<Rightarrow> jvalue result) \<Rightarrow> u64 \<Rightarrow> string \<Rightarrow> LargeTransferRuleConfig result" where
  "large_transfer_config parse_json customer_id params_str =
     bindE (parse_json params_str) (\<lambda>params.
     bindE (jvalue_or jget_u64 params ''chain_id'' 42161) (\<lambda>chain_id.
     bindE (jvalue_or jget_string params ''token_address'' ''0xFd086bC7CD5C481DCC9C85ebE478A1C0b69FCbb9'') (\<lambda>token_str.
     bindE (parse_hex_bytes 20 token_str (replicate 20 0)) (\<lambda>token_address.
     bindE (jvalue_or jget_string params ''threshold'' ''10000000000'') (\<lambda>threshold_str.
     bindE (decimal_to_be_256 threshold_str) (\<lambda>threshold_be.
       Inr \<lparr>lt_customer_id = customer_id, lt_chain_id = chain_id, lt_token_address = token_address,
            lt_threshold_be = threshold_be\<rparr>))))))"

definition load_large_transfer_row ::
  "(string \<Rightarrow> jvalue result) \<Rightarrow> large_transfer_row \<Rightarrow> LargeTransferRuleConfig list \<Rightarrow> LargeTransferRuleConfig list result" where
  "load_large_transfer_row parse_json r configs =
     bindE (lr_customer_id r) (\<lambda>customer_id.
     bindE (lr_params_jsonb r) (\<lambda>params_str.
       Inr (case large_transfer_config parse_json customer_id params_str of
              Inl e \<Rightarrow> configs | Inr c \<Rightarrow> configs @ [c])))"

definition load_large_transfer_configs ::
  "(string \<Rightarrow> jvalue result) \<Rightarrow> large_transfer_row list result \<Rightarrow> LargeTransferRuleConfig list" where
  "load_large_transfer_configs parse_json query =
     (case query of Inl e \<Rightarrow> [] | Inr rows \<Rightarrow> snd (load_rows (load_large_transfer_row parse_json) rows []))"

record governance_row =
  gr_customer_id :: "u64 result"
  gr_chain_id :: "u64 result"
  gr_contract_address :: "string result"
  gr_enabled :: "bool result"

definition parse_governance_row :: "(governance_row, u64 \<times> string, GovernanceRuleConfig) row_parser" where
  "parse_governance_row r =
     bindE (gr_customer_id r) (\<lambda>customer_id.
     bindE (gr_chain_id r) (\<lambda>chain_id.
     bindE (gr_contract_address r) (\<lambda>contract_address.
     bindE (gr_enabled r) (\<lambda>enabled.
       (let address = lower contract_address in
        Inr (Some ((chain_id, address),
          \<lparr>gc_customer_id = customer_id, gc_chain_id = chain_id, gc_contract_address = address,
           gc_enabled = enabled, gc_action_filter = None\<rparr>)))))))"

definition load_governance_configs :: "governance_row list result \<Rightarrow> governance_map \<Rightarrow> governance_map" where
  "load_governance_configs = load_buckets parse_governance_row"

record mint_burn_row =
  mr_customer_id :: "u64 result"
  mr_chain_id :: "u64 result"
  mr_contract_address :: "string result"
  mr_mint_threshold_raw :: "string result"
  mr_burn_threshold_raw :: "string result"
  mr_enabled :: "bool result"

definition parse_mint_burn_row :: "(mint_burn_row, u64 \<times> string, MintBurnRuleConfig) row_parser" where
  "parse_mint_burn_row r =
     bindE (mr_customer_id r) (\<lambda>customer_id.
     bindE (mr_chain_id r) (\<lambda>chain_id.
     bindE (mr_contract_address r) (\<lambda>contract_address.
     bindE (mr_mint_threshold_raw r) (\<lambda>mint_threshold_raw.
     bindE (mr_burn_threshold_raw r) (\<lambda>burn_threshold_raw.
     bindE (mr_enabled r) (\<lambda>enabled.
     bindE (decimal_to_be_256 mint_threshold_raw) (\<lambda>mint_threshold_be.
     bindE (decimal_to_be_256 burn_threshold_raw) (\<lambda>burn_threshold_be.
       (let address = lower contract_address in
        Inr (Some ((chain_id, address),
          \<lparr>mc_customer_id = customer_id, mc_chain_id = chain_id, mc_contract_address = address,
           mc_mint_threshold_be = mint_threshold_be, mc_burn_threshold_be = burn_threshold_be,
           mc_enabled = enabled\<rparr>)))))))))))"

definition load_mint_burn_configs :: "mint_burn_row list result \<Rightarrow> mint_burn_map \<Rightarrow> mint_burn_map" where
  "load_mint_burn_configs = load_buckets parse_mint_burn_row"

record approval_row =
  ar_customer_id :: "u64 result"
  ar_chain_id :: "u64 result"
  ar_token_address :: "string result"
  ar_threshold_raw :: "string result"
  ar_alert_on_infinite :: "bool result"
  ar_enabled :: "bool result"

definition parse_approval_row :: "(approval_row, u64 \<times> string, ApprovalRuleConfig) row_parser" where
  "parse_approval_row r =
     bindE (ar_customer_id r) (\<lambda>customer_id.
     bindE (ar_chain_id r) (\<lambda>chain_id.
     bindE (ar_token_address r) (\<lambda>token_address.
     bindE (ar_threshold_raw r) (\<lambda>threshold_raw.
     bindE (ar_alert_on_infinite r) (\<lambda>alert_on_infinite.
     bindE (ar_enabled r) (\<lambda>enabled.
     (let address = lower token_address in
     bindE (parse_hex_bytes 20 address (replicate 20 0)) (\<lambda>token_bytes.
     bindE (decimal_to_be_256 threshold_raw) (\<lambda>threshold_be.
        Inr (Some ((chain_id, address),
          \<lparr>ac_customer_id = customer_id, ac_chain_id = chain_id, ac_token_address = token_bytes,
           ac_threshold_be = threshold_be, ac_alert_on_infinite = alert_on_infinite,
           ac_enabled = enabled\<rparr>)))))))))))"

definition load_approval_configs :: "approval_row list result \<Rightarrow> approval_map \<Rightarrow> approval_map" where
  "load_approval_configs = load_buckets parse_approval_row"

section \<open>Bridges\<close>

record bridge_contract_row =
  cr_chain_id :: "u64 result"
  cr_address :: "string result"
  cr_bridge_name :: "string result"

record customer_bridge_row =
  brr_customer_id :: "u64 result"
  brr_chain_id :: "u64 result"
  brr_token_address :: "string result"
  brr_threshold_raw :: "string result"

text \<open>\<open>bridge_addresses_.insert(key)\<close> and \<open>bridge_names_[key] = name\<close>.\<close>

definition load_bridge_contract ::
  "bridge_contract_row \<Rightarrow> address_key list \<times> (address_key \<times> string) list
   \<Rightarrow> (address_key list \<times> (address_key \<times> string) list) result" where
  "load_bridge_contract r st =
     bindE (cr_chain_id r) (\<lambda>chain_id.
     bindE (cr_address r) (\<lambda>address.
     bindE (cr_bridge_name r) (\<lambda>bridge_name.
     bindE (parse_hex_bytes 20 (lower address) (replicate 20 0)) (\<lambda>addr_bytes.
       (let key = (chain_id, addr_bytes) in
        Inr (if key \<in> set (fst st) then fst st else fst st @ [key], AList.update key bridge_name (snd st)))))))"

definition parse_bridge_row :: "(customer_bridge_row, address_key, BridgeRuleConfig) row_parser" where
  "parse_bridge_row r =
     bindE (brr_customer_id r) (\<lambda>customer_id.
     bindE (brr_chain_id r) (\<lambda>chain_id.
     bindE (brr_token_address r) (\<lambda>token_address.
     bindE (brr_threshold_raw r) (\<lambda>threshold_raw.
     bindE (parse_hex_bytes 20 (lower token_address) (replicate 20 0)) (\<lambda>token_bytes.
     bindE (decimal_to_be_256 threshold_raw) (\<lambda>threshold_be.
       Inr (Some ((chain_id, token_bytes),
         \<lparr>bc_customer_id = customer_id, bc_chain_id = chain_id, bc_token_address = token_bytes,
          bc_threshold_be = threshold_be, bc_enabled = True\<rparr>))))))))"

definition empty_bridge :: BridgeTransferRule where
  "empty_bridge = \<lparr>br_configs_by_key = [], br_bridge_addresses = [], br_bridge_names = []\<rparr>"

text \<open>
  Both queries run in one \<open>try\<close> block: when the first loop throws, or registers no contract, the
  second query is not made.
\<close>

definition load_bridge_configs ::
  "bridge_contract_row list result \<Rightarrow> customer_bridge_row list result \<Rightarrow> BridgeTransferRule \<Rightarrow> BridgeTransferRule" where
  "load_bridge_configs query1 query2 b =
     (case query1 of Inl e \<Rightarrow> b
      | Inr rows \<Rightarrow>
          (case load_rows load_bridge_contract rows (br_bridge_addresses b, br_bridge_names b) of
             (finished, addresses, names) \<Rightarrow>
               (let b1 = b\<lparr>br_bridge_addresses := addresses, br_bridge_names := names\<rparr> in
                if \<not> finished \<or> addresses = [] then b1
                else b1\<lparr>br_configs_by_key := load_buckets parse_bridge_row query2 (br_configs_by_key b1)\<rparr>)))"

section \<open>Oracle feeds\<close>

record oracle_row =
  orr_customer_id :: "u64 result"
  orr_chain_id :: "u64 result"
  orr_aggregator_address :: "string result"
  orr_feed_label :: "string result"
  orr_spike_threshold_bps :: "int result"
  orr_decimals :: "int result"

definition parse_oracle_row :: "(oracle_row, feed_key, OracleRuleConfig) row_parser" where
  "parse_oracle_row r =
     bindE (orr_customer_id r) (\<lambda>customer_id.
     bindE (orr_chain_id r) (\<lambda>chain_id.
     bindE (orr_aggregator_address r) (\<lambda>aggregator_address.
     bindE (orr_feed_label r) (\<lambda>feed_label.
     bindE (orr_spike_threshold_bps r) (\<lambda>spike_threshold_bps.
     bindE (orr_decimals r) (\<lambda>decimals.
       if spike_threshold_bps \<le> 0 \<or> spike_threshold_bps > 100000 then Inr None
       else if decimals < 0 \<or> decimals > 255 then Inr None
       else case parse_hex_bytes 20 (lower aggregator_address) (replicate 20 0) of
         Inl e \<Rightarrow> Inr None
       | Inr aggregator \<Rightarrow>
           Inr (Some ((chain_id, aggregator),
             \<lparr>oc_customer_id = customer_id, oc_chain_id = chain_id, oc_aggregator_address = aggregator,
              oc_feed_label = feed_label, oc_spike_threshold_bps = word_of_int spike_threshold_bps,
              oc_decimals = word_of_int decimals, oc_enabled = True\<rparr>))))))))"

definition load_oracle_configs :: "oracle_row list result \<Rightarrow> oracle_map \<Rightarrow> oracle_map" where
  "load_oracle_configs = load_buckets parse_oracle_row"

section \<open>Customers, tokens and webhooks\<close>

record customer_row =
  cu_id :: "u64 result"
  cu_customer_key :: "string result"

definition load_customer_map :: "customer_row list result \<Rightarrow> customer_map \<Rightarrow> customer_map" where
  "load_customer_map query m =
     (case query of Inl e \<Rightarrow> m
      | Inr rows \<Rightarrow> snd (load_rows (\<lambda>r m. bindE (cu_id r) (\<lambda>i. bindE (cu_customer_key r) (\<lambda>key.
          Inr (AList.update i key m)))) rows m))"

definition load_token_map :: "token_map \<Rightarrow> token_map" where
  "load_token_map m = AList.update (42161, ''0xfd086bc7cd5c481dcc9c85ebe478a1c0b69fcbb9'') ''USDT'' m"

definition bytea_nibble :: "char \<Rightarrow> u8 result" where
  "bytea_nibble c =
     (if CHR ''0'' \<le> c \<and> c \<le> CHR ''9'' then Inr (word_of_nat (of_char c - 48))
      else if CHR ''a'' \<le> c \<and> c \<le> CHR ''f'' then Inr (word_of_nat (of_char c - 97 + 10))
      else if CHR ''A'' \<le> c \<and> c \<le> CHR ''F'' then Inr (word_of_nat (of_char c - 65 + 10))
      else Inl (RuntimeError (''invalid hex nibble in BYTEA: '' @ [CHR 0x27, c, CHR 0x27])))"

definition parse_pg_bytea :: "string \<Rightarrow> bytes result" where
  "parse_pg_bytea s =
     (if length s < 2 \<or> take 2 s \<noteq> [CHR 0x5C, CHR ''x''] then
        Inl (RuntimeError (''unexpected BYTEA format (expected '' @ [CHR 0x5C] @ ''x prefix)''))
      else hex_pairs bytea_nibble ((length s - 2) div 2) (drop 2 s))"

text \<open>A field that may be null is \<open>None\<close> or what \<open>as<std::string>()\<close> gives.\<close>

record webhook_row =
  wr_customer_id :: "u64 result"
  wr_url :: "string result"
  wr_hmac_secret_encrypted :: "string result option"
  wr_hmac_secret_nonce :: "string result option"

definition webhook_secret :: "openssl \<Rightarrow> bytes \<Rightarrow> string result \<Rightarrow> string result \<Rightarrow> string result" where
  "webhook_secret ssl master_key enc nonce =
     bindE enc (\<lambda>enc_raw. bindE nonce (\<lambda>nonce_raw.
     bindE (parse_pg_bytea enc_raw) (\<lambda>enc_bytes. bindE (parse_pg_bytea nonce_raw) (\<lambda>nonce_bytes.
       aes_gcm_decrypt ssl master_key nonce_bytes enc_bytes))))"

definition parse_webhook_row :: "openssl \<Rightarrow> bytes \<Rightarrow> (webhook_row, u64, WebhookEndpoint) row_parser" where
  "parse_webhook_row ssl master_key r =
     bindE (wr_customer_id r) (\<lambda>customer_id.
     bindE (wr_url r) (\<lambda>url.
       case (wr_hmac_secret_encrypted r, wr_hmac_secret_nonce r) of
         (Some enc, Some nonce) \<Rightarrow>
           (case webhook_secret ssl master_key enc nonce of
              Inl e \<Rightarrow> Inr None
            | Inr secret \<Rightarrow> Inr (Some (customer_id, \<lparr>we_url = url, we_hmac_secret = secret\<rparr>)))
       | _ \<Rightarrow> Inr (Some (customer_id, \<lparr>we_url = url, we_hmac_secret = []\<rparr>))))"

definition load_webhook_channels ::
  "openssl \<Rightarrow> string option \<Rightarrow> webhook_row list result \<Rightarrow> webhook_map \<Rightarrow> webhook_map" where
  "load_webhook_channels ssl master_key_env query m =
     (case master_key_env of
        None \<Rightarrow> m
      | Some env \<Rightarrow>
          if env = [] then m
          else case parse_master_key_hex env of
            Inl e \<Rightarrow> m
          | Inr master_key \<Rightarrow> load_buckets (parse_webhook_row ssl master_key) query m)"


section \<open>What the loops load\<close>

text \<open>The rows before the first one that throws, and what they contribute, in order.\<close>

definition readable :: "('r, 'k, 'c) row_parser \<Rightarrow> 'r list \<Rightarrow> 'r list" where
  "readable parse rows = takeWhile (\<lambda>r. case parse r of Inl e \<Rightarrow> False | Inr p \<Rightarrow> True) rows"

definition contributed :: "('r, 'k, 'c) row_parser \<Rightarrow> 'r list \<Rightarrow> ('k \<times> 'c) list" where
  "contributed parse rows =
     concat (map (\<lambda>r. case parse r of Inr (Some kc) \<Rightarrow> [kc] | _ \<Rightarrow> []) (readable parse rows))"

definition rows_for :: "('r, 'k, 'c) row_parser \<Rightarrow> 'r list \<Rightarrow> 'k \<Rightarrow> 'c list" where
  "rows_for parse rows k = map snd (filter (\<lambda>kc. fst kc = k) (contributed parse rows))"

lemma readable_Cons: "readable parse (r # rows) =
   (case parse r of Inl e \<Rightarrow> [] | Inr p \<Rightarrow> r # readable parse rows)"
  by (simp add: readable_def split: sum.splits)

lemma rows_for_Cons: "rows_for parse (r # rows) k = (case parse r of
     Inl e \<Rightarrow> []
   | Inr None \<Rightarrow> rows_for parse rows k
   | Inr (Some kc) \<Rightarrow> (if fst kc = k then [snd kc] else []) @ rows_for parse rows k)"
  by (auto simp: rows_for_def contributed_def readable_Cons split: sum.splits option.splits)

lemma rows_for_Nil [simp]: "rows_for parse [] k = []"
  by (simp add: rows_for_def contributed_def readable_def)

lemma load_rows_buckets: "bucket (snd (load_rows (push_parsed parse) rows m)) k = bucket m k @ rows_for parse rows k"
proof (induction rows arbitrary: m)
  case (Cons r rows)
  then show ?case
    by (auto simp: push_parsed_def rows_for_Cons bindE_def split: sum.splits option.splits)
qed simp

lemma bucket_Nil [simp]: "bucket [] k = []"
  by (simp add: bucket_def)

lemma load_buckets_exact:
  "bucket (load_buckets parse query m) k = bucket m k @ (case query of Inl e \<Rightarrow> [] | Inr rows \<Rightarrow> rows_for parse rows k)"
  by (simp add: load_buckets_def load_rows_buckets split: sum.splits)

text \<open>No bucket is ever empty.\<close>

lemma load_buckets_filled: "(k, cs) \<in> set (load_buckets parse query []) \<Longrightarrow> cs \<noteq> []"
proof -
  have "list_all (\<lambda>(k, cs). cs \<noteq> []) (snd (load_rows (push_parsed parse) rows m))" if "list_all (\<lambda>(k, cs). cs \<noteq> []) m" for rows m
    using that
  proof (induction rows arbitrary: m)
    case (Cons r rows)
    have "list_all (\<lambda>(k, cs). cs \<noteq> []) m'" if "push_parsed parse r m = Inr m'" for m'
      using that Cons.prems set_AList_update_subset
      by (fastforce simp: push_parsed_def bindE_eq_Inr push_bucket_def list_all_iff split: option.splits)
    then show ?case using Cons by (auto split: sum.splits)
  qed simp
  from this [of "[]"] show "(k, cs) \<in> set (load_buckets parse query []) \<Longrightarrow> cs \<noteq> []"
    by (auto simp: load_buckets_def list_all_iff split: sum.splits)
qed

text \<open>Every configuration of a map is related to the key it is stored under.\<close>

definition entries_ok :: "('k \<Rightarrow> 'c \<Rightarrow> bool) \<Rightarrow> ('k \<times> 'c list) list \<Rightarrow> bool" where
  "entries_ok ok m \<longleftrightarrow> list_all (\<lambda>(k, cs). list_all (ok k) cs) m"

lemma entries_ok_Nil [simp]: "entries_ok ok []"
  by (simp add: entries_ok_def)

lemma entries_ok_bucket: "entries_ok ok m \<Longrightarrow> list_all (ok k) (bucket m k)"
  by (cases "map_of m k") (auto simp: entries_ok_def bucket_def list_all_iff dest!: map_of_SomeD)

lemma entries_ok_push: "entries_ok ok m \<Longrightarrow> ok k c \<Longrightarrow> entries_ok ok (push_bucket k c m)"
  using entries_ok_bucket [of ok m k] set_AList_update_subset [of k "bucket m k @ [c]" m]
  by (fastforce simp: entries_ok_def push_bucket_def list_all_iff)

text \<open>
  What a loader promises: \<open>entry_ok\<close> relates every stored configuration to the key it is stored
  under.
\<close>

locale config_loader =
  fixes parse :: "('r, 'k, 'c) row_parser"
    and entry_ok :: "'k \<Rightarrow> 'c \<Rightarrow> bool"
  assumes parse_ok: "parse r = Inr (Some (k, c)) \<Longrightarrow> entry_ok k c"
begin

lemma rows_for_ok: "c \<in> set (rows_for parse rows k) \<Longrightarrow> entry_ok k c"
  by (induction rows) (auto simp: rows_for_Cons intro: parse_ok [OF sym] split: sum.splits option.splits if_splits)

lemma loaded_ok: "c \<in> set (bucket (load_buckets parse query []) k) \<Longrightarrow> entry_ok k c"
  by (auto simp: load_buckets_exact intro: rows_for_ok split: sum.splits)

lemma loaded_entries_ok: "entries_ok entry_ok m \<Longrightarrow> entries_ok entry_ok (load_buckets parse query m)"
proof (induction query)
  case (Inr rows)
  have "entries_ok entry_ok (snd (load_rows (push_parsed parse) rows m))" if "entries_ok entry_ok m" for m
    using that
  proof (induction rows arbitrary: m)
    case (Cons r rows)
    have "entries_ok entry_ok m'" if "push_parsed parse r m = Inr m'" for m'
      using that Cons.prems by (auto simp: push_parsed_def bindE_eq_Inr intro!: entries_ok_push parse_ok split: option.splits)
    then show ?case using Cons by (auto split: sum.splits)
  qed simp
  with Inr show ?case by (simp add: load_buckets_def)
qed (simp add: load_buckets_def)

text \<open>Nothing is lost when no row throws.\<close>

lemma all_rows_loaded:
  assumes "query = Inr rows" and "list_all (\<lambda>r. \<exists>p. parse r = Inr p) rows"
  shows "bucket (load_buckets parse query []) k =
     map snd (filter (\<lambda>kc. fst kc = k) (concat (map (\<lambda>r. case parse r of Inr (Some kc) \<Rightarrow> [kc] | _ \<Rightarrow> []) rows)))"
proof -
  have "readable parse rows = rows"
    using assms(2) by (induction rows) (auto simp: readable_Cons readable_def)
  then show ?thesis by (simp add: load_buckets_exact assms(1) rows_for_def contributed_def)
qed

end

lemma threshold_length: "decimal_to_be_256 s = Inr r \<Longrightarrow> length r = 32"
  by (simp add: decimal_to_be_256_iff)

lemma address_length: "parse_hex_bytes 20 s (replicate 20 0) = Inr bs \<Longrightarrow> length bs = 20"
  by (simp add: parse_hex_bytes_length)

lemma tolower_idem [simp]: "tolower (tolower c) = tolower c"
proof -
  define n where "n = (of_char c :: nat)"
  have c: "c = char_of n" by (simp add: n_def)
  have "n + 32 < 256" if "n \<le> 90" using that by simp
  then show ?thesis by (auto simp: tolower_def less_eq_char_def c)
qed

lemma lower_idem [simp]: "lower (lower s) = lower s"
  by (simp add: lower_def)

lemma length_lower [simp]: "length (lower s) = length s"
  by (simp add: lower_def)

definition governance_entry_ok :: "u64 \<times> string \<Rightarrow> GovernanceRuleConfig \<Rightarrow> bool" where
  "governance_entry_ok k c \<longleftrightarrow> k = (gc_chain_id c, gc_contract_address c) \<and> lower (snd k) = snd k \<and> gc_action_filter c = None"

definition mint_burn_entry_ok :: "u64 \<times> string \<Rightarrow> MintBurnRuleConfig \<Rightarrow> bool" where
  "mint_burn_entry_ok k c \<longleftrightarrow> k = (mc_chain_id c, mc_contract_address c) \<and> lower (snd k) = snd k \<and>
     length (mc_mint_threshold_be c) = 32 \<and> length (mc_burn_threshold_be c) = 32"

definition approval_entry_ok :: "u64 \<times> string \<Rightarrow> ApprovalRuleConfig \<Rightarrow> bool" where
  "approval_entry_ok k c \<longleftrightarrow> fst k = ac_chain_id c \<and> length (ac_token_address c) = 20 \<and> length (ac_threshold_be c) = 32 \<and>
     (length (snd k) = 42 \<longrightarrow> snd k = address_to_hex (ac_token_address c))"

definition bridge_entry_ok :: "address_key \<Rightarrow> BridgeRuleConfig \<Rightarrow> bool" where
  "bridge_entry_ok k c \<longleftrightarrow> k = (bc_chain_id c, bc_token_address c) \<and> length (bc_token_address c) = 20 \<and>
     length (bc_threshold_be c) = 32 \<and> bc_enabled c"

definition oracle_entry_ok :: "feed_key \<Rightarrow> OracleRuleConfig \<Rightarrow> bool" where
  "oracle_entry_ok k c \<longleftrightarrow> k = (oc_chain_id c, oc_aggregator_address c) \<and> length (oc_aggregator_address c) = 20 \<and>
     0 < oc_spike_threshold_bps c \<and> oc_spike_threshold_bps c \<le> 100000 \<and> oc_enabled c"

interpretation governance_loader: config_loader parse_governance_row governance_entry_ok
  by unfold_locales (auto simp: parse_governance_row_def governance_entry_ok_def bindE_eq_Inr Let_def)

interpretation mint_burn_loader: config_loader parse_mint_burn_row mint_burn_entry_ok
  by unfold_locales
     (auto simp: parse_mint_burn_row_def mint_burn_entry_ok_def bindE_eq_Inr Let_def threshold_length)

interpretation approval_loader: config_loader parse_approval_row approval_entry_ok
proof unfold_locales
  fix r k c
  assume "parse_approval_row r = Inr (Some (k, c))"
  then show "approval_entry_ok k c"
    using address_to_hex_parse(1) [of "snd k" 20 "replicate 20 0" "ac_token_address c"]
    by (auto simp: parse_approval_row_def approval_entry_ok_def bindE_eq_Inr Let_def threshold_length address_length)
qed

interpretation bridge_loader: config_loader parse_bridge_row bridge_entry_ok
  by unfold_locales
     (auto simp: parse_bridge_row_def bridge_entry_ok_def bindE_eq_Inr threshold_length address_length)

interpretation oracle_loader: config_loader parse_oracle_row oracle_entry_ok
proof unfold_locales
  fix r k c
  assume "parse_oracle_row r = Inr (Some (k, c))"
  then show "oracle_entry_ok k c"
    by (auto simp: parse_oracle_row_def oracle_entry_ok_def bindE_eq_Inr address_length
        word_less_def word_le_def uint_word_of_int take_bit_eq_mod split: if_splits sum.splits)
qed


section \<open>Well-formed rules\<close>

text \<open>Every registered bridge address has 20 bytes and a name.\<close>

definition contracts_ok :: "address_key list \<times> (address_key \<times> string) list \<Rightarrow> bool" where
  "contracts_ok st \<longleftrightarrow> list_all (\<lambda>(_, address). length address = 20) (fst st) \<and> dom (map_of (snd st)) = set (fst st)"

primrec rule_wf :: "RiskRule \<Rightarrow> bool" where
  "rule_wf (R_LargeTransfer r) \<longleftrightarrow> list_all (\<lambda>c. length (lt_token_address c) = 20 \<and> length (lt_threshold_be c) = 32) r"
| "rule_wf (R_Governance m) \<longleftrightarrow> entries_ok governance_entry_ok m"
| "rule_wf (R_MintBurn m) \<longleftrightarrow> entries_ok mint_burn_entry_ok m"
| "rule_wf (R_Approval m) \<longleftrightarrow> entries_ok approval_entry_ok m"
| "rule_wf (R_BridgeTransfer r) \<longleftrightarrow> entries_ok bridge_entry_ok (br_configs_by_key r) \<and>
     contracts_ok (br_bridge_addresses r, br_bridge_names r)"
| "rule_wf (R_OracleUpdate r) \<longleftrightarrow> entries_ok oracle_entry_ok (ou_configs_by_feed r) \<and> oracle_inv r"

lemma load_rows_invariant:
  assumes "\<And>r m m'. P m \<Longrightarrow> f r m = Inr m' \<Longrightarrow> P m'" and "P m"
  shows "P (snd (load_rows f rows m))"
  using assms(2) by (induction rows arbitrary: m) (auto intro: assms(1) split: sum.splits)

lemma large_transfer_config_wf:
  "large_transfer_config parse customer params = Inr c \<Longrightarrow> length (lt_token_address c) = 20 \<and> length (lt_threshold_be c) = 32"
  by (auto simp: large_transfer_config_def bindE_eq_Inr address_length threshold_length)

lemma load_large_transfer_row_cases:
  assumes "load_large_transfer_row parse r m = Inr m'"
  obtains "m' = m" | c where "m' = m @ [c]" and "length (lt_token_address c) = 20" and "length (lt_threshold_be c) = 32"
proof -
  from assms obtain customer params where "m' = (case large_transfer_config parse customer params of Inl e \<Rightarrow> m | Inr c \<Rightarrow> m @ [c])"
    by (auto simp: load_large_transfer_row_def bindE_eq_Inr)
  with that show thesis
    by (cases "large_transfer_config parse customer params") (auto dest: large_transfer_config_wf)
qed

lemma load_large_transfer_wf: "rule_wf (R_LargeTransfer (load_large_transfer_configs parse query))"
proof -
  have "list_all (\<lambda>c. length (lt_token_address c) = 20 \<and> length (lt_threshold_be c) = 32)
      (snd (load_rows (load_large_transfer_row parse) rows []))" for rows
    by (rule load_rows_invariant) (auto elim!: load_large_transfer_row_cases)
  then show ?thesis by (simp add: load_large_transfer_configs_def split: sum.splits)
qed

lemma dom_map_of_update: "dom (map_of (AList.update k v m)) = insert k (dom (map_of m))"
  by (auto split: if_splits)

lemma contracts_ok_insert:
  assumes "contracts_ok (addresses, names)" and "length bytes = 20"
  shows "contracts_ok (if (chain, bytes) \<in> set addresses then addresses else addresses @ [(chain, bytes)],
     AList.update (chain, bytes) name names)"
  using assms by (simp add: contracts_ok_def dom_map_of_update insert_absorb)

lemma load_bridge_contract_ok:
  assumes "contracts_ok st" and "load_bridge_contract r st = Inr st'"
  shows "contracts_ok st'"
proof -
  obtain chain address name where "length address = 20" and st': "st' =
      (if (chain, address) \<in> set (fst st) then fst st else fst st @ [(chain, address)],
       AList.update (chain, address) name (snd st))"
    using assms(2) by (auto simp: load_bridge_contract_def bindE_eq_Inr Let_def dest: address_length)
  with assms(1) contracts_ok_insert [of "fst st" "snd st" address chain name] show ?thesis by simp
qed

lemma load_bridge_wf: "rule_wf (R_BridgeTransfer (load_bridge_configs query1 query2 empty_bridge))"
proof (cases query1)
  case (Inr rows)
  have "contracts_ok (snd (load_rows load_bridge_contract rows ([], [])))"
    by (rule load_rows_invariant, erule (1) load_bridge_contract_ok) (simp add: contracts_ok_def)
  with Inr show ?thesis
    by (auto simp: load_bridge_configs_def empty_bridge_def Let_def bridge_loader.loaded_entries_ok split: prod.splits)
qed (simp add: load_bridge_configs_def empty_bridge_def contracts_ok_def)

lemma rule_wf_step: "rule_wf r \<Longrightarrow> signal_wf s \<Longrightarrow> rule_wf (fst (rule_evaluate r s out))"
  by (cases r) (simp_all add: oracle_inv_step oracle_evaluate_configs case_prod_unfold)

lemma deliver_wf:
  assumes "list_all rule_wf store" and "list_all signal_wf ss"
  shows "list_all rule_wf (fst (deliver ss (store, out)))"
  using assms
proof (induction ss arbitrary: store out)
  case (Cons s ss)
  then have "list_all rule_wf (after_signal store s)"
    by (auto simp: after_signal_def list_all_iff rule_wf_step)
  with Cons show ?case by simp
qed simp


section \<open>Webhook secrets\<close>

lemma bytea_nibble_iff: "bytea_nibble c = Inr n \<longleftrightarrow> hex_nibble c = Inr n"
  by (simp add: bytea_nibble_def hex_nibble_def)

text \<open>The database prints the bytes it was given in its hexadecimal format.\<close>

definition pg_hex :: "bytes \<Rightarrow> string" where
  "pg_hex bs = [CHR 0x5C, CHR ''x''] @ bytes_to_hex bs"

lemma parse_pg_bytea_hex [simp]: "parse_pg_bytea (pg_hex bs) = Inr bs"
proof -
  have "hex_pairs bytea_nibble (length bs) (bytes_to_hex bs) = Inr bs \<longleftrightarrow>
      hex_pairs hex_nibble (length bs) (bytes_to_hex bs) = Inr bs"
    by (rule hex_pairs_same) (rule bytea_nibble_iff)
  moreover have "hex_pairs hex_nibble (length bs) (bytes_to_hex bs) = Inr bs"
    using hex_pairs_correct [of "length bs" "bytes_to_hex bs"] bytes_to_hex_digits [of _ bs] by auto
  ultimately show ?thesis by (simp add: parse_pg_bytea_def pg_hex_def)
qed

lemma rows_for_member:
  assumes "list_all (\<lambda>r. \<exists>p. parse r = Inr p) before" and "parse r = Inr (Some (k, c))"
  shows "c \<in> set (rows_for parse (before @ r # after) k)"
  using assms
proof (induction before)
  case Nil
  then show ?case by (simp add: rows_for_Cons)
next
  case (Cons a before)
  then obtain p where "parse a = Inr p" by auto
  with Cons show ?case by (cases p) (auto simp: rows_for_Cons)
qed

definition provisioned_row :: "provisioned \<Rightarrow> webhook_row" where
  "provisioned_row p = \<lparr>wr_customer_id = Inr (pv_customer_id p), wr_url = Inr (pv_url p),
     wr_hmac_secret_encrypted = Some (Inr (pg_hex (pair_bytes (pv_ciphertext_hex p)))),
     wr_hmac_secret_nonce = Some (Inr (pg_hex (pair_bytes (pv_nonce_hex p))))\<rparr>"

lemma parse_provisioned_row:
  assumes "gcm_laws ssl" and "encrypt_secret_command ssl (Some mk) rand_secret rand_nonce args = Inr p"
    and "parse_master_key_hex mk = Inr key"
  shows "parse_webhook_row ssl key (provisioned_row p) =
     Inr (Some (pv_customer_id p, \<lparr>we_url = pv_url p, we_hmac_secret = pv_secret p\<rparr>))"
proof -
  have "aes_gcm_decrypt ssl key (pair_bytes (pv_nonce_hex p)) (pair_bytes (pv_ciphertext_hex p)) = Inr (pv_secret p)"
    by (rule provisioned_secret_recovered [OF assms])
  then show ?thesis by (simp add: parse_webhook_row_def provisioned_row_def webhook_secret_def)
qed

section \<open>Properties\<close>

text \<open>
  C39: a provisioned secret signs.  When the row that the provisioning command describes is among
  the webhook rows (the database returning the bytes it was given), and no row before it is
  unreadable, the loader run with the same master key gives the customer an endpoint with the
  printed address and the printed secret.
\<close>

theorem provisioned_endpoint_loaded:
  assumes "gcm_laws ssl" and "encrypt_secret_command ssl (Some mk) rand_secret rand_nonce args = Inr p"
    and "list_all (\<lambda>r. (\<exists>i. wr_customer_id r = Inr i) \<and> (\<exists>u. wr_url r = Inr u)) before"
  shows "\<lparr>we_url = pv_url p, we_hmac_secret = pv_secret p\<rparr> \<in>
     set (bucket (load_webhook_channels ssl (Some mk) (Inr (before @ provisioned_row p # after)) []) (pv_customer_id p))"
proof -
  obtain key where key: "mk \<noteq> []" "parse_master_key_hex mk = Inr key"
    using assms(2) by (auto simp: encrypt_secret_command_def split: sum.splits if_splits)
  have "list_all (\<lambda>r. \<exists>p. parse_webhook_row ssl key r = Inr p) before"
    using assms(3) by (auto simp: list_all_iff parse_webhook_row_def split: option.splits sum.splits)
  from rows_for_member [OF this parse_provisioned_row [OF assms(1,2) key(2)]] show ?thesis
    by (simp add: load_webhook_channels_def load_buckets_exact key)
qed

theorem provisioned_endpoint_loaded_witness:
  "\<exists>p. encrypt_secret_command sum_ssl (Some (replicate 64 CHR ''a'')) None (Some (replicate 12 0))
        [''--customer-id'', ''7'', ''--url'', ''u'', ''--secret'', ''s''] = Inr p \<and>
      \<lparr>we_url = pv_url p, we_hmac_secret = pv_secret p\<rparr> \<in>
        set (bucket (load_webhook_channels sum_ssl (Some (replicate 64 CHR ''a'')) (Inr [provisioned_row p]) [])
          (pv_customer_id p))"
proof -
  obtain p where p: "encrypt_secret_command sum_ssl (Some (replicate 64 CHR ''a'')) None (Some (replicate 12 0))
        [''--customer-id'', ''7'', ''--url'', ''u'', ''--secret'', ''s''] = Inr p"
    using sum_ssl_provisions by blast
  with provisioned_endpoint_loaded [OF sum_ssl_laws p, of "[]" "[]"] show ?thesis by auto
qed

end
