(* ===== verification/Backtest_Config.thy ===== *)
theory Backtest_Config
  imports Config_Loaders
begin

text \<open>
  The backtest configuration (\<open>backtest/backtest_config.cpp\<close>): a YAML document becomes a
  \<open>BacktestConfig\<close>, or the first fault becomes an exception.  The YAML library is the record \<open>yaml\<close>
  over an arbitrary type of nodes: \<open>node[field]\<close> gives an exception, an undefined node (\<open>None\<close>) or a
  node, and a conversion gives a value or an exception.  The lemmas show what a configuration
  that was accepted satisfies: it meets everything the rules rely on, as the rows of the database
  do.
\<close>

section \<open>Data\<close>

record 'n yaml =
  y_get :: "'n \<Rightarrow> string \<Rightarrow> 'n option result"
  y_is_null :: "'n \<Rightarrow> bool"
  y_is_sequence :: "'n \<Rightarrow> bool"
  y_is_map :: "'n \<Rightarrow> bool"
  y_items :: "'n \<Rightarrow> 'n list"
  y_keys :: "'n \<Rightarrow> string result list"
  y_string :: "'n \<Rightarrow> string result"
  y_uint :: "'n \<Rightarrow> u64 result"
  y_int :: "'n \<Rightarrow> int result"
  y_bool :: "'n \<Rightarrow> bool result"

record CustomerEntry =
  ce_id :: u64
  ce_key :: string
  ce_display_name :: string

record BacktestConfig =
  bt_chain :: string
  bt_start_block :: u64
  bt_end_block :: u64
  bt_output_path :: string
  bt_max_block_range :: u64
  bt_customers :: "CustomerEntry list"
  bt_large_transfer :: "LargeTransferRuleConfig list"
  bt_governance :: governance_map
  bt_mint_burn :: mint_burn_map
  bt_approval :: approval_map
  bt_bridge :: BridgeTransferRule
  bt_oracle :: oracle_map

definition new_backtest_config :: BacktestConfig where
  "new_backtest_config =
     \<lparr>bt_chain = [], bt_start_block = 0, bt_end_block = 0, bt_output_path = [], bt_max_block_range = 1000,
      bt_customers = [], bt_large_transfer = [], bt_governance = [], bt_mint_burn = [], bt_approval = [],
      bt_bridge = empty_bridge, bt_oracle = []\<rparr>"

section \<open>Fields\<close>

definition config_error :: "string \<Rightarrow> exn" where
  "config_error message = RuntimeError (''backtest config: '' @ message)"

definition quoted :: "string \<Rightarrow> string" where
  "quoted s = [CHR 0x27] @ s @ [CHR 0x27]"

text \<open>The unknown keys only select log lines; reading a key as text may throw.\<close>

definition warn_unknown_keys :: "'n yaml \<Rightarrow> 'n \<Rightarrow> unit result" where
  "warn_unknown_keys y node =
     (if \<not> y_is_map y node then Inr () else bindE (mapE (\<lambda>k. k) (y_keys y node)) (\<lambda>_. Inr ()))"

definition require :: "'n yaml \<Rightarrow> ('n \<Rightarrow> 'a result) \<Rightarrow> string \<Rightarrow> 'n \<Rightarrow> string \<Rightarrow> string \<Rightarrow> 'a result" where
  "require y conv kind node field context =
     bindE (y_get y node field) (\<lambda>found.
       case found of
         None \<Rightarrow> Inl (config_error (''missing required field '' @ quoted field @ '' in '' @ context))
       | Some n \<Rightarrow>
           (case conv n of
              Inl e \<Rightarrow> Inl (config_error (''field '' @ quoted field @ '' in '' @ context @ '' is not '' @ kind @ '': '' @ what e))
            | Inr x \<Rightarrow> Inr x))"

definition require_string :: "'n yaml \<Rightarrow> 'n \<Rightarrow> string \<Rightarrow> string \<Rightarrow> string result" where
  "require_string y = require y (y_string y) ''a string''"

definition require_uint :: "'n yaml \<Rightarrow> 'n \<Rightarrow> string \<Rightarrow> string \<Rightarrow> u64 result" where
  "require_uint y = require y (y_uint y) ''an unsigned integer''"

definition require_int :: "'n yaml \<Rightarrow> 'n \<Rightarrow> string \<Rightarrow> string \<Rightarrow> int result" where
  "require_int y = require y (y_int y) ''an integer''"

definition validate_hex_address :: "string \<Rightarrow> string \<Rightarrow> unit result" where
  "validate_hex_address addr context =
     (if length addr \<noteq> 42 \<or> take 2 addr \<noteq> ''0x'' then
        Inl (config_error (''invalid hex address '' @ quoted addr @ '' (expected 0x + 40 hex chars) in '' @ context))
      else case validate_hex addr of
        Inl e \<Rightarrow> Inl (config_error (''invalid hex characters in '' @ quoted addr @ '' in '' @ context @ '': '' @ what e))
      | Inr _ \<Rightarrow> Inr ())"

text \<open>An optional field is converted without a handler of its own.\<close>

definition optional :: "'n yaml \<Rightarrow> ('n \<Rightarrow> 'a result) \<Rightarrow> 'n \<Rightarrow> string \<Rightarrow> 'a \<Rightarrow> 'a result" where
  "optional y conv node field fallback =
     bindE (y_get y node field) (\<lambda>found. case found of None \<Rightarrow> Inr fallback | Some n \<Rightarrow> conv n)"

section \<open>Sections\<close>

type_synonym 'n item_parser = "string \<Rightarrow> 'n \<Rightarrow> BacktestConfig \<Rightarrow> BacktestConfig result"

primrec parse_items :: "'n item_parser \<Rightarrow> string \<Rightarrow> nat \<Rightarrow> 'n list \<Rightarrow> BacktestConfig \<Rightarrow> BacktestConfig result" where
  "parse_items parse section idx [] cfg = Inr cfg"
| "parse_items parse section idx (item # items) cfg =
     bindE (parse (section @ ''['' @ dec_digits idx @ '']'') item cfg)
       (\<lambda>cfg'. parse_items parse section (Suc idx) items cfg')"

definition parse_section :: "'n yaml \<Rightarrow> 'n item_parser \<Rightarrow> string \<Rightarrow> 'n option \<Rightarrow> BacktestConfig \<Rightarrow> BacktestConfig result" where
  "parse_section y parse section items cfg =
     (case items of
        None \<Rightarrow> Inr cfg
      | Some n \<Rightarrow>
          if y_is_null y n then Inr cfg
          else if \<not> y_is_sequence y n then Inl (config_error (section @ '' must be a sequence''))
          else parse_items parse section 0 (y_items y n) cfg)"

definition parse_large_transfer :: "'n yaml \<Rightarrow> 'n item_parser" where
  "parse_large_transfer y ctx item cfg =
     bindE (warn_unknown_keys y item) (\<lambda>_.
     bindE (require_uint y item ''customer_id'' ctx) (\<lambda>customer_id.
     bindE (require_uint y item ''chain_id'' ctx) (\<lambda>chain_id.
     bindE (require_string y item ''token_address'' ctx) (\<lambda>token_str.
     (let token = lower token_str in
     bindE (validate_hex_address token ctx) (\<lambda>_.
     bindE (parse_hex_bytes 20 token (replicate 20 0)) (\<lambda>token_address.
     bindE (require_string y item ''threshold_decimal'' ctx) (\<lambda>thr_str.
     bindE (decimal_to_be_256 thr_str) (\<lambda>threshold_be.
       Inr (cfg\<lparr>bt_large_transfer := bt_large_transfer cfg @
         [\<lparr>lt_customer_id = customer_id, lt_chain_id = chain_id, lt_token_address = token_address,
           lt_threshold_be = threshold_be\<rparr>]\<rparr>))))))))))"

definition parse_governance :: "'n yaml \<Rightarrow> 'n item_parser" where
  "parse_governance y ctx item cfg =
     bindE (warn_unknown_keys y item) (\<lambda>_.
     bindE (require_uint y item ''customer_id'' ctx) (\<lambda>customer_id.
     bindE (require_uint y item ''chain_id'' ctx) (\<lambda>chain_id.
     bindE (require_string y item ''contract_address'' ctx) (\<lambda>address_str.
     (let contract_address = lower address_str in
     bindE (validate_hex_address contract_address ctx) (\<lambda>_.
       Inr (cfg\<lparr>bt_governance := push_bucket (chain_id, contract_address)
         \<lparr>gc_customer_id = customer_id, gc_chain_id = chain_id, gc_contract_address = contract_address,
          gc_enabled = True, gc_action_filter = None\<rparr> (bt_governance cfg)\<rparr>)))))))"

definition parse_mint_burn :: "'n yaml \<Rightarrow> 'n item_parser" where
  "parse_mint_burn y ctx item cfg =
     bindE (warn_unknown_keys y item) (\<lambda>_.
     bindE (require_uint y item ''customer_id'' ctx) (\<lambda>customer_id.
     bindE (require_uint y item ''chain_id'' ctx) (\<lambda>chain_id.
     bindE (require_string y item ''contract_address'' ctx) (\<lambda>address_str.
     (let contract_address = lower address_str in
     bindE (validate_hex_address contract_address ctx) (\<lambda>_.
     bindE (require_string y item ''mint_threshold_decimal'' ctx) (\<lambda>mint_thr.
     bindE (require_string y item ''burn_threshold_decimal'' ctx) (\<lambda>burn_thr.
     bindE (decimal_to_be_256 mint_thr) (\<lambda>mint_threshold_be.
     bindE (decimal_to_be_256 burn_thr) (\<lambda>burn_threshold_be.
       Inr (cfg\<lparr>bt_mint_burn := push_bucket (chain_id, contract_address)
         \<lparr>mc_customer_id = customer_id, mc_chain_id = chain_id, mc_contract_address = contract_address,
          mc_mint_threshold_be = mint_threshold_be, mc_burn_threshold_be = burn_threshold_be,
          mc_enabled = True\<rparr> (bt_mint_burn cfg)\<rparr>)))))))))))"

definition parse_approval :: "'n yaml \<Rightarrow> 'n item_parser" where
  "parse_approval y ctx item cfg =
     bindE (warn_unknown_keys y item) (\<lambda>_.
     bindE (require_uint y item ''customer_id'' ctx) (\<lambda>customer_id.
     bindE (require_uint y item ''chain_id'' ctx) (\<lambda>chain_id.
     bindE (require_string y item ''token_address'' ctx) (\<lambda>token_str.
     (let token = lower token_str in
     bindE (validate_hex_address token ctx) (\<lambda>_.
     bindE (parse_hex_bytes 20 token (replicate 20 0)) (\<lambda>token_address.
     bindE (require_string y item ''threshold_decimal'' ctx) (\<lambda>thr_str.
     bindE (decimal_to_be_256 thr_str) (\<lambda>threshold_be.
     bindE (optional y (y_bool y) item ''alert_on_infinite'' False) (\<lambda>alert_on_infinite.
       Inr (cfg\<lparr>bt_approval := push_bucket (chain_id, token)
         \<lparr>ac_customer_id = customer_id, ac_chain_id = chain_id, ac_token_address = token_address,
          ac_threshold_be = threshold_be, ac_alert_on_infinite = alert_on_infinite,
          ac_enabled = True\<rparr> (bt_approval cfg)\<rparr>)))))))))))"

definition parse_bridge_transfers :: "'n yaml \<Rightarrow> 'n item_parser" where
  "parse_bridge_transfers y ctx item cfg =
     bindE (warn_unknown_keys y item) (\<lambda>_.
     bindE (require_uint y item ''customer_id'' ctx) (\<lambda>customer_id.
     bindE (require_uint y item ''chain_id'' ctx) (\<lambda>chain_id.
     bindE (require_string y item ''token_address'' ctx) (\<lambda>token_str.
     (let token = lower token_str in
     bindE (validate_hex_address token ctx) (\<lambda>_.
     bindE (parse_hex_bytes 20 token (replicate 20 0)) (\<lambda>token_address.
     bindE (require_string y item ''threshold_decimal'' ctx) (\<lambda>thr_str.
     bindE (decimal_to_be_256 thr_str) (\<lambda>threshold_be.
       Inr (cfg\<lparr>bt_bridge := (bt_bridge cfg)\<lparr>br_configs_by_key := push_bucket (chain_id, token_address)
         \<lparr>bc_customer_id = customer_id, bc_chain_id = chain_id, bc_token_address = token_address,
          bc_threshold_be = threshold_be, bc_enabled = True\<rparr> (br_configs_by_key (bt_bridge cfg))\<rparr>\<rparr>))))))))))"

definition parse_oracle_update :: "'n yaml \<Rightarrow> 'n item_parser" where
  "parse_oracle_update y ctx item cfg =
     bindE (warn_unknown_keys y item) (\<lambda>_.
     bindE (require_uint y item ''customer_id'' ctx) (\<lambda>customer_id.
     bindE (require_uint y item ''chain_id'' ctx) (\<lambda>chain_id.
     bindE (require_string y item ''aggregator_address'' ctx) (\<lambda>addr_str.
     (let addr = lower addr_str in
     bindE (validate_hex_address addr ctx) (\<lambda>_.
     bindE (parse_hex_bytes 20 addr (replicate 20 0)) (\<lambda>aggregator_address.
     bindE (require_string y item ''feed_label'' ctx) (\<lambda>feed_label.
     bindE (require_int y item ''spike_threshold_bps'' ctx) (\<lambda>bps.
       if bps \<le> 0 \<or> bps > 100000 then Inl (config_error (''spike_threshold_bps out of range in '' @ ctx))
       else
     bindE (require_int y item ''decimals'' ctx) (\<lambda>dec.
       if dec < 0 \<or> dec > 255 then Inl (config_error (''decimals out of range in '' @ ctx))
       else
       Inr (cfg\<lparr>bt_oracle := push_bucket (chain_id, aggregator_address)
         \<lparr>oc_customer_id = customer_id, oc_chain_id = chain_id, oc_aggregator_address = aggregator_address,
          oc_feed_label = feed_label, oc_spike_threshold_bps = word_of_int bps,
          oc_decimals = word_of_int dec, oc_enabled = True\<rparr> (bt_oracle cfg)\<rparr>)))))))))))"

definition parse_bridge_contracts :: "'n yaml \<Rightarrow> 'n item_parser" where
  "parse_bridge_contracts y ctx item cfg =
     bindE (warn_unknown_keys y item) (\<lambda>_.
     bindE (require_uint y item ''chain_id'' ctx) (\<lambda>chain_id.
     bindE (require_string y item ''address'' ctx) (\<lambda>address.
     (let addr_str = lower address in
     bindE (validate_hex_address addr_str ctx) (\<lambda>_.
     bindE (require_string y item ''bridge_name'' ctx) (\<lambda>name.
     bindE (parse_hex_bytes 20 addr_str (replicate 20 0)) (\<lambda>addr_bytes.
       let key = (chain_id, addr_bytes); b = bt_bridge cfg in
       Inr (cfg\<lparr>bt_bridge := b\<lparr>
         br_bridge_addresses := (if key \<in> set (br_bridge_addresses b) then br_bridge_addresses b
                                 else br_bridge_addresses b @ [key]),
         br_bridge_names := AList.update key name (br_bridge_names b)\<rparr>\<rparr>))))))))"

definition parse_customers :: "'n yaml \<Rightarrow> 'n item_parser" where
  "parse_customers y ctx item cfg =
     bindE (warn_unknown_keys y item) (\<lambda>_.
     bindE (require_uint y item ''id'' ctx) (\<lambda>i.
     bindE (require_string y item ''key'' ctx) (\<lambda>key.
     bindE (optional y (y_string y) item ''display_name'' []) (\<lambda>display_name.
       Inr (cfg\<lparr>bt_customers := bt_customers cfg @
         [\<lparr>ce_id = i, ce_key = key, ce_display_name = display_name\<rparr>]\<rparr>)))))"

section \<open>The document\<close>

text \<open>
  The order in which an unordered map is traversed only decides which of several undeclared
  customers the message names.
\<close>

definition check_customers :: "u64 list \<Rightarrow> string \<Rightarrow> u64 list \<Rightarrow> unit result" where
  "check_customers declared section ids =
     (case filter (\<lambda>i. i \<notin> set declared) ids of
        [] \<Rightarrow> Inr ()
      | i # _ \<Rightarrow> Inl (config_error (''rule section '' @ quoted section @ '' references undeclared customer_id='' @
                    to_string i @ ''; add it to the customers section'')))"

definition entries_of :: "('k \<times> 'c list) list \<Rightarrow> 'c list" where
  "entries_of m = concat (map snd m)"

definition validate_customer_ids :: "BacktestConfig \<Rightarrow> unit result" where
  "validate_customer_ids cfg =
     (let declared = map ce_id (bt_customers cfg) in
     bindE (check_customers declared ''large_transfer'' (map lt_customer_id (bt_large_transfer cfg))) (\<lambda>_.
     bindE (check_customers declared ''governance'' (map gc_customer_id (entries_of (bt_governance cfg)))) (\<lambda>_.
     bindE (check_customers declared ''mint_burn'' (map mc_customer_id (entries_of (bt_mint_burn cfg)))) (\<lambda>_.
     bindE (check_customers declared ''approval'' (map ac_customer_id (entries_of (bt_approval cfg)))) (\<lambda>_.
     bindE (check_customers declared ''bridge_transfer''
       (map bc_customer_id (entries_of (br_configs_by_key (bt_bridge cfg))))) (\<lambda>_.
     check_customers declared ''oracle_update'' (map oc_customer_id (entries_of (bt_oracle cfg)))))))))"

definition parse_rules :: "'n yaml \<Rightarrow> 'n option \<Rightarrow> BacktestConfig \<Rightarrow> BacktestConfig result" where
  "parse_rules y rules cfg =
     (case rules of
        None \<Rightarrow> Inr cfg
      | Some n \<Rightarrow>
          if y_is_null y n then Inr cfg
          else if \<not> y_is_map y n then Inl (config_error ''rules must be a map'')
          else
            bindE (warn_unknown_keys y n) (\<lambda>_.
            bindE (y_get y n ''large_transfer'') (\<lambda>i1.
            bindE (parse_section y (parse_large_transfer y) ''rules.large_transfer'' i1 cfg) (\<lambda>cfg1.
            bindE (y_get y n ''governance'') (\<lambda>i2.
            bindE (parse_section y (parse_governance y) ''rules.governance'' i2 cfg1) (\<lambda>cfg2.
            bindE (y_get y n ''mint_burn'') (\<lambda>i3.
            bindE (parse_section y (parse_mint_burn y) ''rules.mint_burn'' i3 cfg2) (\<lambda>cfg3.
            bindE (y_get y n ''approval'') (\<lambda>i4.
            bindE (parse_section y (parse_approval y) ''rules.approval'' i4 cfg3) (\<lambda>cfg4.
            bindE (y_get y n ''bridge_transfers'') (\<lambda>i5.
            bindE (parse_section y (parse_bridge_transfers y) ''rules.bridge_transfers'' i5 cfg4) (\<lambda>cfg5.
            bindE (y_get y n ''oracle_update'') (\<lambda>i6.
            parse_section y (parse_oracle_update y) ''rules.oracle_update'' i6 cfg5)))))))))))))"

text \<open>The scalars of the top level.\<close>

definition parse_header :: "'n yaml \<Rightarrow> 'n \<Rightarrow> BacktestConfig result" where
  "parse_header y root =
     bindE (require_string y root ''chain'' ''<root>'') (\<lambda>chain.
       if chain \<noteq> ''ethereum'' \<and> chain \<noteq> ''arbitrum'' then
         Inl (config_error (''chain must be '' @ quoted ''ethereum'' @ '' or '' @ quoted ''arbitrum'' @ '', got '' @ quoted chain))
       else
     bindE (require_uint y root ''start_block'' ''<root>'') (\<lambda>start_block.
     bindE (require_uint y root ''end_block'' ''<root>'') (\<lambda>end_block.
       if start_block \<ge> end_block then
         Inl (config_error (''start_block ('' @ to_string start_block @ '') must be < end_block ('' @ to_string end_block @ '')''))
       else
     bindE (require_string y root ''output_path'' ''<root>'') (\<lambda>output_path.
       if output_path = [] then Inl (config_error ''output_path must not be empty'')
       else
     bindE (y_get y root ''max_block_range'') (\<lambda>range_node.
     bindE (case range_node of None \<Rightarrow> Inr (bt_max_block_range new_backtest_config) | Some n \<Rightarrow> y_uint y n) (\<lambda>max_block_range.
       if range_node \<noteq> None \<and> max_block_range = 0 then Inl (config_error ''max_block_range must be > 0'')
       else Inr (new_backtest_config\<lparr>bt_chain := chain, bt_start_block := start_block, bt_end_block := end_block,
         bt_output_path := output_path, bt_max_block_range := max_block_range\<rparr>)))))))"

text \<open>
  \<open>document\<close> is the file: \<open>None\<close> when it cannot be opened, an exception of the YAML parser, or the
  root node (undefined as \<open>None\<close>).
\<close>

definition load_backtest_config :: "'n yaml \<Rightarrow> 'n option result option \<Rightarrow> string \<Rightarrow> BacktestConfig result" where
  "load_backtest_config y document yaml_path =
     (case document of
        None \<Rightarrow> Inl (config_error (''cannot open '' @ quoted yaml_path))
      | Some (Inl e) \<Rightarrow> Inl (config_error (''YAML parse error in '' @ quoted yaml_path @ '': '' @ what e))
      | Some (Inr None) \<Rightarrow> Inl (config_error (''top-level YAML must be a map in '' @ quoted yaml_path))
      | Some (Inr (Some root)) \<Rightarrow>
          if \<not> y_is_map y root then Inl (config_error (''top-level YAML must be a map in '' @ quoted yaml_path))
          else
            bindE (warn_unknown_keys y root) (\<lambda>_.
            bindE (parse_header y root) (\<lambda>cfg.
            bindE (y_get y root ''customers'') (\<lambda>customers.
            bindE (parse_section y (parse_customers y) ''customers'' customers cfg) (\<lambda>cfg1.
            bindE (y_get y root ''rules'') (\<lambda>rules.
            bindE (parse_rules y rules cfg1) (\<lambda>cfg2.
            bindE (y_get y root ''bridge_contracts'') (\<lambda>contracts.
            bindE (parse_section y (parse_bridge_contracts y) ''bridge_contracts'' contracts cfg2) (\<lambda>cfg3.
            bindE (validate_customer_ids cfg3) (\<lambda>_. Inr cfg3))))))))))"

section \<open>What an accepted document satisfies\<close>

text \<open>The six rules of a configuration.\<close>

definition config_rules :: "BacktestConfig \<Rightarrow> RiskRule list" where
  "config_rules cfg =
     [R_LargeTransfer (bt_large_transfer cfg), R_Governance (bt_governance cfg), R_MintBurn (bt_mint_burn cfg),
      R_Approval (bt_approval cfg), R_BridgeTransfer (bt_bridge cfg),
      R_OracleUpdate \<lparr>ou_configs_by_feed = bt_oracle cfg, ou_last_by_feed = []\<rparr>]"

definition header_ok :: "BacktestConfig \<Rightarrow> bool" where
  "header_ok cfg \<longleftrightarrow> bt_chain cfg \<in> {''ethereum'', ''arbitrum''} \<and> bt_start_block cfg < bt_end_block cfg \<and>
     bt_output_path cfg \<noteq> [] \<and> 0 < bt_max_block_range cfg"

definition config_ok :: "BacktestConfig \<Rightarrow> bool" where
  "config_ok cfg \<longleftrightarrow> header_ok cfg \<and> list_all rule_wf (config_rules cfg)"

lemma header_ok_updates [simp]:
  "header_ok (cfg\<lparr>bt_customers := x1\<rparr>) = header_ok cfg" "header_ok (cfg\<lparr>bt_large_transfer := x2\<rparr>) = header_ok cfg"
  "header_ok (cfg\<lparr>bt_governance := x3\<rparr>) = header_ok cfg" "header_ok (cfg\<lparr>bt_mint_burn := x4\<rparr>) = header_ok cfg"
  "header_ok (cfg\<lparr>bt_approval := x5\<rparr>) = header_ok cfg" "header_ok (cfg\<lparr>bt_bridge := x6\<rparr>) = header_ok cfg"
  "header_ok (cfg\<lparr>bt_oracle := x7\<rparr>) = header_ok cfg"
  by (simp_all add: header_ok_def)

lemma valid_address_length: "validate_hex_address s ctx = Inr u \<Longrightarrow> length s = 42"
  by (auto simp: validate_hex_address_def split: if_splits)

lemma lower_address_text:
  "parse_hex_bytes 20 (lower s) (replicate 20 0) = Inr bs \<Longrightarrow> length s = 42 \<Longrightarrow> lower s = address_to_hex bs"
  using address_to_hex_parse(1) [of "lower s" 20 "replicate 20 0" bs] by simp

named_theorems item_parsers

lemmas item_parser_defs = parse_large_transfer_def parse_governance_def parse_mint_burn_def parse_approval_def
  parse_bridge_transfers_def parse_oracle_update_def parse_bridge_contracts_def parse_customers_def

lemma parse_large_transfer_ok [item_parsers]:
  "config_ok cfg \<Longrightarrow> parse_large_transfer y ctx item cfg = Inr cfg' \<Longrightarrow> config_ok cfg'"
  by (auto simp: item_parser_defs bindE_eq_Inr Let_def config_ok_def config_rules_def address_length threshold_length)

lemma parse_governance_ok [item_parsers]:
  "config_ok cfg \<Longrightarrow> parse_governance y ctx item cfg = Inr cfg' \<Longrightarrow> config_ok cfg'"
  by (auto simp: item_parser_defs bindE_eq_Inr Let_def config_ok_def config_rules_def governance_entry_ok_def
      intro!: entries_ok_push)

lemma parse_mint_burn_ok [item_parsers]:
  "config_ok cfg \<Longrightarrow> parse_mint_burn y ctx item cfg = Inr cfg' \<Longrightarrow> config_ok cfg'"
  by (auto simp: item_parser_defs bindE_eq_Inr Let_def config_ok_def config_rules_def mint_burn_entry_ok_def
      threshold_length intro!: entries_ok_push)

lemma parse_approval_ok [item_parsers]:
  "config_ok cfg \<Longrightarrow> parse_approval y ctx item cfg = Inr cfg' \<Longrightarrow> config_ok cfg'"
  by (auto simp: item_parser_defs bindE_eq_Inr Let_def config_ok_def config_rules_def approval_entry_ok_def
      threshold_length address_length lower_address_text intro!: entries_ok_push)

lemma parse_bridge_transfers_ok [item_parsers]:
  "config_ok cfg \<Longrightarrow> parse_bridge_transfers y ctx item cfg = Inr cfg' \<Longrightarrow> config_ok cfg'"
  by (auto simp: item_parser_defs bindE_eq_Inr Let_def config_ok_def config_rules_def bridge_entry_ok_def
      threshold_length address_length intro!: entries_ok_push)

lemma parse_customers_ok [item_parsers]:
  "config_ok cfg \<Longrightarrow> parse_customers y ctx item cfg = Inr cfg' \<Longrightarrow> config_ok cfg'"
  by (auto simp: item_parser_defs bindE_eq_Inr config_ok_def config_rules_def)

lemma parse_oracle_update_ok [item_parsers]:
  "config_ok cfg \<Longrightarrow> parse_oracle_update y ctx item cfg = Inr cfg' \<Longrightarrow> config_ok cfg'"
  by (auto simp: item_parser_defs bindE_eq_Inr Let_def config_ok_def config_rules_def oracle_entry_ok_def
      oracle_inv_def address_length word_less_def word_le_def uint_word_of_int take_bit_eq_mod
      split: if_splits intro!: entries_ok_push)

lemma parse_bridge_contracts_ok [item_parsers]:
  assumes "config_ok cfg" and "parse_bridge_contracts y ctx item cfg = Inr cfg'"
  shows "config_ok cfg'"
proof -
  let ?b = "bt_bridge cfg"
  from assms(2) obtain chain bytes name where len: "length bytes = 20" and cfg': "cfg' = cfg\<lparr>bt_bridge := ?b\<lparr>
      br_bridge_addresses := (if (chain, bytes) \<in> set (br_bridge_addresses ?b) then br_bridge_addresses ?b
                              else br_bridge_addresses ?b @ [(chain, bytes)]),
      br_bridge_names := AList.update (chain, bytes) name (br_bridge_names ?b)\<rparr>\<rparr>"
    by (auto simp: item_parser_defs bindE_eq_Inr Let_def dest: address_length)
  from assms(1) have b: "contracts_ok (br_bridge_addresses ?b, br_bridge_names ?b)"
    "entries_ok bridge_entry_ok (br_configs_by_key ?b)" by (simp_all add: config_ok_def config_rules_def)
  from contracts_ok_insert [OF b(1) len] b(2) assms(1) show ?thesis
    by (simp add: cfg' config_ok_def config_rules_def)
qed


lemma parse_section_preserves:
  assumes step: "\<And>ctx item cfg cfg'. P cfg \<Longrightarrow> parse ctx item cfg = Inr cfg' \<Longrightarrow> P cfg'"
    and "P cfg" and "parse_section y parse section items cfg = Inr cfg'"
  shows "P cfg'"
proof -
  have "P cfg'" if "parse_items parse section idx ns cfg = Inr cfg'" "P cfg" for idx ns cfg
    using that by (induction ns arbitrary: idx cfg) (auto simp: bindE_eq_Inr intro: step)
  with assms(2,3) show ?thesis by (auto simp: parse_section_def split: option.splits if_splits)
qed

lemma parse_header_ok: "parse_header y root = Inr cfg \<Longrightarrow> config_ok cfg"
  by (auto simp: parse_header_def new_backtest_config_def config_ok_def header_ok_def config_rules_def empty_bridge_def
      contracts_ok_def oracle_inv_def bindE_eq_Inr not_le word_neq_0_conv split: if_splits option.splits)

lemmas section_ok = parse_section_preserves [where P = config_ok]

lemma parse_rules_ok:
  assumes "config_ok cfg" and "parse_rules y rules cfg = Inr cfg'"
  shows "config_ok cfg'"
proof (cases "cfg' = cfg")
  case False
  with assms(2) obtain i1 i2 i3 i4 i5 i6 c1 c2 c3 c4 c5 where
    1: "parse_section y (parse_large_transfer y) ''rules.large_transfer'' i1 cfg = Inr c1" and
    2: "parse_section y (parse_governance y) ''rules.governance'' i2 c1 = Inr c2" and
    3: "parse_section y (parse_mint_burn y) ''rules.mint_burn'' i3 c2 = Inr c3" and
    4: "parse_section y (parse_approval y) ''rules.approval'' i4 c3 = Inr c4" and
    5: "parse_section y (parse_bridge_transfers y) ''rules.bridge_transfers'' i5 c4 = Inr c5" and
    6: "parse_section y (parse_oracle_update y) ''rules.oracle_update'' i6 c5 = Inr cfg'"
    by (auto simp: parse_rules_def bindE_eq_Inr split: option.splits if_splits)
  note c1 = section_ok [OF parse_large_transfer_ok assms(1) 1]
  note c2 = section_ok [OF parse_governance_ok c1 2]
  note c3 = section_ok [OF parse_mint_burn_ok c2 3]
  note c4 = section_ok [OF parse_approval_ok c3 4]
  note c5 = section_ok [OF parse_bridge_transfers_ok c4 5]
  show ?thesis by (rule section_ok [OF parse_oracle_update_ok c5 6])
qed (use assms(1) in simp)

lemma load_backtest_cases:
  assumes "load_backtest_config y document path = Inr cfg"
  shows "config_ok cfg" and "validate_customer_ids cfg = Inr ()"
proof -
  from assms obtain root c0 i1 c1 i2 c2 i3 where 0: "parse_header y root = Inr c0" and
    1: "parse_section y (parse_customers y) ''customers'' i1 c0 = Inr c1" and
    2: "parse_rules y i2 c1 = Inr c2" and
    3: "parse_section y (parse_bridge_contracts y) ''bridge_contracts'' i3 c2 = Inr cfg" and
    ids: "validate_customer_ids cfg = Inr ()"
    by (auto simp: load_backtest_config_def bindE_eq_Inr split: option.splits sum.splits if_splits)
  note c1 = section_ok [OF parse_customers_ok parse_header_ok [OF 0] 1]
  show "config_ok cfg" by (rule section_ok [OF parse_bridge_contracts_ok parse_rules_ok [OF c1 2] 3])
  show "validate_customer_ids cfg = Inr ()" by (rule ids)
qed

lemma check_customers_iff: "check_customers declared section ids = Inr () \<longleftrightarrow> set ids \<subseteq> set declared"
  by (auto simp: check_customers_def filter_empty_conv split: list.splits)
     (metis filter_empty_conv list.distinct(1) subsetD)

lemma bucket_entries: "set (bucket m k) \<subseteq> set (entries_of m)"
  by (cases "map_of m k") (auto simp: bucket_def entries_of_def dest!: map_of_SomeD)

lemma bucket_customers: "f ` set (entries_of m) \<subseteq> D \<Longrightarrow> x \<in> set (bucket m k) \<Longrightarrow> f x \<in> D"
  using bucket_entries [of m k] by blast

text \<open>The customers that alerts of a rule can name are declared.\<close>

lemma declared_customers:
  assumes "validate_customer_ids cfg = Inr ()"
  shows "list_all (\<lambda>r. rule_customers r \<subseteq> ce_id ` set (bt_customers cfg)) (config_rules cfg)"
proof -
  let ?D = "ce_id ` set (bt_customers cfg)"
  have ids: "lt_customer_id ` set (bt_large_transfer cfg) \<subseteq> ?D" "gc_customer_id ` set (entries_of (bt_governance cfg)) \<subseteq> ?D"
    "mc_customer_id ` set (entries_of (bt_mint_burn cfg)) \<subseteq> ?D" "ac_customer_id ` set (entries_of (bt_approval cfg)) \<subseteq> ?D"
    "bc_customer_id ` set (entries_of (br_configs_by_key (bt_bridge cfg))) \<subseteq> ?D"
    "oc_customer_id ` set (entries_of (bt_oracle cfg)) \<subseteq> ?D"
    using assms by (simp_all add: validate_customer_ids_def Let_def bindE_eq_Inr check_customers_iff)
  have "rule_customers (R_Governance (bt_governance cfg)) \<subseteq> ?D"
    by (auto simp: governance_entries_def intro: bucket_customers [OF ids(2)])
  moreover have "rule_customers (R_MintBurn (bt_mint_burn cfg)) \<subseteq> ?D"
    by (auto simp: mint_burn_entries_def intro: bucket_customers [OF ids(3)])
  moreover have "rule_customers (R_Approval (bt_approval cfg)) \<subseteq> ?D"
    by (auto simp: approval_entries_def intro: bucket_customers [OF ids(4)])
  moreover have "rule_customers (R_BridgeTransfer (bt_bridge cfg)) \<subseteq> ?D"
    by (auto simp: bridge_entries_def intro: bucket_customers [OF ids(5)] split: if_splits)
  moreover have "rule_customers (R_OracleUpdate \<lparr>ou_configs_by_feed = bt_oracle cfg, ou_last_by_feed = []\<rparr>) \<subseteq> ?D"
    using ids(6) by (auto simp: oracle_customers_def entries_of_def)
  ultimately show ?thesis using ids(1) by (simp add: config_rules_def)
qed

section \<open>Property\<close>

text \<open>
  C22: an accepted backtest configuration.  Whatever the YAML library returns, a document that
  \<open>load_backtest_config\<close> accepts names a known chain, a non-empty block range, an output file and a
  positive batch size; its rules are well-formed (full-length addresses and thresholds, keys that
  agree with their configurations, price thresholds within bounds, named bridges); and every
  customer that an alert of these rules can name is declared.
\<close>

theorem backtest_config_accepted:
  assumes "load_backtest_config y document path = Inr cfg"
  shows "bt_chain cfg \<in> {''ethereum'', ''arbitrum''} \<and> bt_start_block cfg < bt_end_block cfg \<and>
     bt_output_path cfg \<noteq> [] \<and> 0 < bt_max_block_range cfg \<and>
     list_all (\<lambda>r. rule_wf r \<and> rule_customers r \<subseteq> ce_id ` set (bt_customers cfg)) (config_rules cfg)"
  using load_backtest_cases [OF assms] declared_customers [of cfg]
  by (simp add: config_ok_def header_ok_def list_all_iff)

definition sample_yaml :: "jvalue yaml" where
  "sample_yaml = \<lparr>y_get = (\<lambda>n k. Inr (case n of J_obj ms \<Rightarrow> map_of ms k | _ \<Rightarrow> None)), y_is_null = (\<lambda>n. n = J_null),
     y_is_sequence = (\<lambda>n. case n of J_arr _ \<Rightarrow> True | _ \<Rightarrow> False), y_is_map = (\<lambda>n. case n of J_obj _ \<Rightarrow> True | _ \<Rightarrow> False),
     y_items = (\<lambda>n. case n of J_arr ns \<Rightarrow> ns | _ \<Rightarrow> []), y_keys = (\<lambda>n. case n of J_obj ms \<Rightarrow> map (Inr \<circ> fst) ms | _ \<Rightarrow> []),
     y_string = jget_string, y_uint = jget_u64, y_int = (\<lambda>n. case n of J_num i \<Rightarrow> Inr i | _ \<Rightarrow> Inl (RuntimeError [])),
     y_bool = jget_bool\<rparr>"

definition sample_document :: jvalue where
  "sample_document = J_obj [(''chain'', J_str ''ethereum''), (''start_block'', J_num 1), (''end_block'', J_num 9),
     (''output_path'', J_str ''out''), (''customers'', J_arr [J_obj [(''id'', J_num 3), (''key'', J_str ''k'')]]),
     (''rules'', J_obj [(''governance'', J_arr [J_obj [(''customer_id'', J_num 3), (''chain_id'', J_num 1),
        (''contract_address'', J_str (address_to_hex (replicate 20 1)))]])])]"

lemma sample_document_accepted:
  "\<exists>cfg. load_backtest_config sample_yaml (Some (Inr (Some sample_document))) ''f'' = Inr cfg \<and> bt_chain cfg = ''ethereum''"
proof -
  have "validate_hex (address_to_hex (replicate 20 1)) = Inr ()"
    using bytes_to_hex_digits [of _ "replicate 20 1"]
    by (auto simp: validate_hex_eq hex_ok_def address_to_hex_def list_all_iff)
  then have v: "validate_hex_address (address_to_hex (replicate 20 1)) ctx = Inr ()" for ctx
    by (simp add: validate_hex_address_def address_to_hex_def)
  show ?thesis
    by (simp add: load_backtest_config_def sample_document_def sample_yaml_def warn_unknown_keys_def parse_header_def
        require_string_def require_uint_def require_def new_backtest_config_def parse_section_def parse_rules_def
        parse_customers_def parse_governance_def optional_def jget_string_def jget_u64_def lower_address_to_hex v
        validate_customer_ids_def check_customers_def entries_of_def push_bucket_def bucket_def empty_bridge_def Let_def word_le_nat_alt)
qed

theorem backtest_config_accepted_witness:
  "\<exists>cfg. load_backtest_config sample_yaml (Some (Inr (Some sample_document))) ''f'' = Inr cfg \<and> 0 < bt_max_block_range cfg"
proof -
  obtain cfg where "load_backtest_config sample_yaml (Some (Inr (Some sample_document))) ''f'' = Inr cfg"
    using sample_document_accepted by blast
  with backtest_config_accepted [OF this] show ?thesis by blast
qed


end
