(* ===== verification/Alert_Deduplicator.thy ===== *)
theory Alert_Deduplicator
  imports Signal
begin

text \<open>
  \<open>AlertDeduplicator\<close> (\<open>risk/alert_deduplicator.cpp\<close>): per-key suppression within a window, with
  a periodic sweep of stale entries.  The locale \<open>alert_filter\<close> is the contract the dispatcher
  relies on; its interpretation shows that the code, sweep and 64-bit subtraction included,
  implements it for every non-decreasing clock.
\<close>

section \<open>Definitions\<close>

record DeduplicatorConfig =
  dc_default_window_ms :: u64
  dc_per_rule_window_ms :: "(string \<times> u64) list"
  dc_cleanup_every_n_alerts :: u64

record AlertDeduplicator =
  dd_cfg :: DeduplicatorConfig
  dd_last_fired_ms :: "(string \<times> u64) list"
  dd_processed_since_cleanup :: u64
  dd_max_configured_window_ms :: u64

definition build_key :: "Alert \<Rightarrow> string" where
  "build_key a =
     to_string (al_customer_id a) @ ''|'' @ al_rule_type a @ ''|'' @
     (case al_chain_id a of Some c \<Rightarrow> to_string c | None \<Rightarrow> ''-'') @ ''|'' @
     (case al_token_address a of Some t \<Rightarrow> t | None \<Rightarrow> [])"

definition new_deduplicator :: "DeduplicatorConfig \<Rightarrow> AlertDeduplicator" where
  "new_deduplicator cfg =
     \<lparr>dd_cfg = cfg, dd_last_fired_ms = [], dd_processed_since_cleanup = 0,
      dd_max_configured_window_ms =
        fold (\<lambda>(_, window) m. max m window) (dc_per_rule_window_ms cfg) (dc_default_window_ms cfg)\<rparr>"

definition window_of :: "DeduplicatorConfig \<Rightarrow> string \<Rightarrow> u64" where
  "window_of cfg rule_type =
     (case map_of (dc_per_rule_window_ms cfg) rule_type of
        Some w \<Rightarrow> w | None \<Rightarrow> dc_default_window_ms cfg)"

definition is_stale :: "u64 \<Rightarrow> u64 \<Rightarrow> u64 \<Rightarrow> bool" where
  "is_stale max_window now_ms fired \<longleftrightarrow> \<not> now_ms < fired \<and> now_ms - fired > max_window"

definition cleanup_stale_entries :: "AlertDeduplicator \<Rightarrow> u64 \<Rightarrow> nat \<times> AlertDeduplicator" where
  "cleanup_stale_entries d now_ms =
     (let stale = (\<lambda>entry. is_stale (dd_max_configured_window_ms d) now_ms (snd entry)) in
      (length (filter stale (dd_last_fired_ms d)),
       d\<lparr>dd_last_fired_ms := filter (\<lambda>entry. \<not> stale entry) (dd_last_fired_ms d)\<rparr>))"

text \<open>The lookup and the update of the table, before the periodic sweep.\<close>

definition suppress_entry :: "AlertDeduplicator \<Rightarrow> Alert \<Rightarrow> u64 \<Rightarrow> bool \<times> AlertDeduplicator" where
  "suppress_entry d alert now_ms =
     (let key = build_key alert;
          window = window_of (dd_cfg d) (al_rule_type alert);
          fired = d\<lparr>dd_last_fired_ms := AList.update key now_ms (dd_last_fired_ms d)\<rparr> in
      case map_of (dd_last_fired_ms d) key of
        None \<Rightarrow> (False, fired)
      | Some t \<Rightarrow> if now_ms < t \<or> now_ms - t < window then (True, d) else (False, fired))"

definition should_suppress :: "AlertDeduplicator \<Rightarrow> Alert \<Rightarrow> u64 \<Rightarrow> bool \<times> AlertDeduplicator" where
  "should_suppress d alert now_ms =
     (let (suppress, d1) = suppress_entry d alert now_ms;
          n = dd_processed_since_cleanup d1 + 1;
          d2 = d1\<lparr>dd_processed_since_cleanup := n\<rparr> in
      if n \<ge> dc_cleanup_every_n_alerts (dd_cfg d)
      then (suppress, (snd (cleanup_stale_entries d2 now_ms))\<lparr>dd_processed_since_cleanup := 0\<rparr>)
      else (suppress, d2))"

definition tracked_keys_count :: "AlertDeduplicator \<Rightarrow> nat" where
  "tracked_keys_count d = length (dd_last_fired_ms d)"

section \<open>The key\<close>

lemma append_sep_eq:
  assumes "c \<notin> set xs" and "c \<notin> set xs'"
  shows "xs @ c # ys = xs' @ c # ys' \<longleftrightarrow> xs = xs' \<and> ys = ys'"
  using assms
proof (induction xs arbitrary: xs')
  case Nil
  then show ?case by (cases xs') auto
next
  case (Cons x xs)
  then show ?case by (cases xs') auto
qed

lemma to_string_no_sep: "CHR ''|'' \<notin> set (to_string w)" "CHR ''-'' \<notin> set (to_string w)"
  using to_string_digits [of "CHR ''|''" w] to_string_digits [of "CHR ''-''" w]
  by (auto simp: is_dec_digit_nat)

lemma build_key_eq_iff:
  assumes "CHR ''|'' \<notin> set (al_rule_type a)" and "CHR ''|'' \<notin> set (al_rule_type b)"
  shows "build_key a = build_key b \<longleftrightarrow>
     al_customer_id a = al_customer_id b \<and> al_rule_type a = al_rule_type b \<and>
     al_chain_id a = al_chain_id b \<and>
     case_option [] (\<lambda>t. t) (al_token_address a) = case_option [] (\<lambda>t. t) (al_token_address b)"
proof -
  let ?chain = "\<lambda>x. case x of Some c \<Rightarrow> to_string c | None \<Rightarrow> ''-''" 
  have chain: "CHR ''|'' \<notin> set (?chain x)" for x :: "u64 option"
    by (cases x) (simp_all add: to_string_no_sep)
  have "to_string c \<noteq> ''-''" for c :: u64
    using to_string_no_sep(2) [of c] by auto
  then have inj: "?chain x = ?chain y \<longleftrightarrow> x = y" for x y :: "u64 option"
    by (cases x; cases y) (auto, metis)
  show ?thesis
    using assms chain inj [of "al_chain_id a" "al_chain_id b"]
    by (simp add: build_key_def append_sep_eq to_string_no_sep)
qed

section \<open>The contract of an alert filter\<close>

primrec filter_run :: "('d \<Rightarrow> Alert \<Rightarrow> u64 \<Rightarrow> bool \<times> 'd) \<Rightarrow> 'd \<Rightarrow> (Alert \<times> u64) list \<Rightarrow> bool list" where
  "filter_run step d [] = []"
| "filter_run step d (x # xs) =
     (case step d (fst x) (snd x) of (b, d') \<Rightarrow> b # filter_run step d' xs)"

lemma filter_run_length [simp]: "length (filter_run step d xs) = length xs"
  by (induction xs arbitrary: d) (simp_all split: prod.splits)

locale alert_filter =
  fixes init :: 'd
    and step :: "'d \<Rightarrow> Alert \<Rightarrow> u64 \<Rightarrow> bool \<times> 'd"
    and key :: "Alert \<Rightarrow> string"
    and window :: "Alert \<Rightarrow> u64"
  assumes suppressed_iff:
      "sorted (map snd xs) \<Longrightarrow> i < length xs \<Longrightarrow>
       filter_run step init xs ! i \<longleftrightarrow>
         (\<exists>j<i. \<not> filter_run step init xs ! j \<and> key (fst (xs ! j)) = key (fst (xs ! i)) \<and>
            unat (snd (xs ! i)) < unat (snd (xs ! j)) + unat (window (fst (xs ! i))))"
begin

lemma first_of_key_sent:
  assumes "sorted (map snd xs)" and "i < length xs"
    and "\<And>j. j < i \<Longrightarrow> key (fst (xs ! j)) \<noteq> key (fst (xs ! i))"
  shows "\<not> filter_run step init xs ! i"
  using suppressed_iff [OF assms(1,2)] assms(3) by blast

lemma sends_apart:
  assumes "sorted (map snd xs)" and "i < length xs" and "j < i"
    and "\<not> filter_run step init xs ! i" and "\<not> filter_run step init xs ! j"
    and "key (fst (xs ! j)) = key (fst (xs ! i))"
  shows "unat (snd (xs ! j)) + unat (window (fst (xs ! i))) \<le> unat (snd (xs ! i))"
  using suppressed_iff [OF assms(1,2)] assms(3-6) by (meson not_le)

lemma zero_window_sent:
  assumes "sorted (map snd xs)" and "i < length xs" and "window (fst (xs ! i)) = 0"
  shows "\<not> filter_run step init xs ! i"
proof
  assume "filter_run step init xs ! i"
  then obtain j where "j < i" "unat (snd (xs ! i)) < unat (snd (xs ! j))"
    using suppressed_iff [OF assms(1,2)] assms(3) by auto
  moreover have "snd (xs ! j) \<le> snd (xs ! i)"
    using sorted_nth_mono [OF assms(1), of j i] \<open>j < i\<close> assms(2) by simp
  ultimately show False by (simp add: word_le_nat_alt)
qed

end

section \<open>The sweep is unobservable\<close>

text \<open>The reference keeps every entry for ever.\<close>

definition ref_suppress ::
  "DeduplicatorConfig \<Rightarrow> (string \<rightharpoonup> u64) \<Rightarrow> Alert \<Rightarrow> u64 \<Rightarrow> bool \<times> (string \<rightharpoonup> u64)" where
  "ref_suppress cfg m alert now_ms =
     (case m (build_key alert) of
        None \<Rightarrow> (False, m(build_key alert \<mapsto> now_ms))
      | Some t \<Rightarrow>
          if unat now_ms < unat t + unat (window_of cfg (al_rule_type alert)) then (True, m)
          else (False, m(build_key alert \<mapsto> now_ms)))"

lemma u64_diff_less:
  fixes now t w :: u64
  assumes "t \<le> now"
  shows "now - t < w \<longleftrightarrow> unat now < unat t + unat w" and "now - t > w \<longleftrightarrow> unat t + unat w < unat now"
  using assms unat_sub [OF assms] by (auto simp: word_less_nat_alt word_le_nat_alt)

lemma is_stale_iff: "is_stale w now t \<longleftrightarrow> unat t + unat w < unat now"
proof (cases "now < t")
  case True
  then show ?thesis by (simp add: is_stale_def word_less_nat_alt)
next
  case False
  then show ?thesis using u64_diff_less(2) [of t now w] by (simp add: is_stale_def)
qed

lemma fold_max_ge_start: "w \<le> fold (\<lambda>(_, window) m. max m window) xs (w :: u64)"
proof (induction xs arbitrary: w)
  case (Cons x xs)
  show ?case using Cons.IH [of "max w (snd x)"] by (simp add: case_prod_unfold)
qed simp

lemma fold_max_ge: "(k, v) \<in> set xs \<Longrightarrow> v \<le> fold (\<lambda>(_, window) m. max m window) xs (w :: u64)"
proof (induction xs arbitrary: w)
  case (Cons x xs)
  then show ?case
    using fold_max_ge_start [of "max w (snd x)" xs] by (auto simp: case_prod_unfold)
qed simp

definition max_window :: "DeduplicatorConfig \<Rightarrow> u64" where
  "max_window cfg = dd_max_configured_window_ms (new_deduplicator cfg)"

lemma window_le_max: "window_of cfg rt \<le> max_window cfg"
  by (auto simp: window_of_def max_window_def new_deduplicator_def fold_max_ge_start
      intro: fold_max_ge dest: map_of_SomeD split: option.splits)

lemma map_of_filter_snd:
  "distinct (map fst m) \<Longrightarrow> map_of (filter (\<lambda>e. P (snd e)) m) k =
     (case map_of m k of None \<Rightarrow> None | Some v \<Rightarrow> if P v then Some v else None)"
proof (induction m)
  case (Cons e m)
  have "map_of m k = None" if "k = fst e"
    using Cons.prems that by (simp add: map_of_eq_None_iff)
  then show ?case using Cons by auto
qed simp

text \<open>
  The table agrees with the reference except for entries that are stale: at the current time
  and therefore at every later time.
\<close>

definition agrees :: "DeduplicatorConfig \<Rightarrow> u64 \<Rightarrow> AlertDeduplicator \<Rightarrow> (string \<rightharpoonup> u64) \<Rightarrow> bool" where
  "agrees cfg now d m \<longleftrightarrow>
     dd_cfg d = cfg \<and> dd_max_configured_window_ms d = max_window cfg \<and>
     distinct (map fst (dd_last_fired_ms d)) \<and>
     (\<forall>k. map_of (dd_last_fired_ms d) k = m k \<or>
        map_of (dd_last_fired_ms d) k = None \<and> (\<exists>t. m k = Some t \<and> is_stale (max_window cfg) now t)) \<and>
     (\<forall>k t. m k = Some t \<longrightarrow> t \<le> now)"

lemma agrees_later:
  assumes "agrees cfg now d m" and "now \<le> now'"
  shows "agrees cfg now' d m"
proof -
  have "is_stale w now' t" if "is_stale w now t" for w t
    using that assms(2) by (simp add: is_stale_iff word_le_nat_alt)
  then show ?thesis
    using assms unfolding agrees_def by (metis order_trans)
qed

lemma agrees_entry:
  assumes "agrees cfg now d m"
  shows "fst (suppress_entry d a now) = fst (ref_suppress cfg m a now)"
    and "agrees cfg now (snd (suppress_entry d a now)) (snd (ref_suppress cfg m a now))"
proof -
  let ?k = "build_key a"
  let ?w = "window_of cfg (al_rule_type a)"
  have cfg: "dd_cfg d = cfg" using assms by (simp add: agrees_def)
  consider (same) "map_of (dd_last_fired_ms d) ?k = m ?k"
    | (swept) t where "map_of (dd_last_fired_ms d) ?k = None" "m ?k = Some t" "is_stale (max_window cfg) now t"
    using assms unfolding agrees_def by blast
  then have "fst (suppress_entry d a now) = fst (ref_suppress cfg m a now) \<and>
      (if fst (ref_suppress cfg m a now) then snd (suppress_entry d a now) = d \<and> snd (ref_suppress cfg m a now) = m
       else snd (suppress_entry d a now) = d\<lparr>dd_last_fired_ms := AList.update ?k now (dd_last_fired_ms d)\<rparr> \<and>
            snd (ref_suppress cfg m a now) = m(?k \<mapsto> now))"
  proof cases
    case same
    have "now < t \<or> now - t < ?w \<longleftrightarrow> unat now < unat t + unat ?w" if "m ?k = Some t" for t
    proof -
      have "t \<le> now" using assms that unfolding agrees_def by blast
      then show ?thesis using u64_diff_less(1) [of t now ?w] by auto
    qed
    with same show ?thesis
      by (simp add: suppress_entry_def ref_suppress_def Let_def cfg split: option.splits)
  next
    case swept
    have "\<not> unat now < unat t + unat ?w"
      using swept(3) window_le_max [of cfg "al_rule_type a"] by (simp add: is_stale_iff word_le_nat_alt)
    with swept show ?thesis by (simp add: suppress_entry_def ref_suppress_def Let_def cfg)
  qed
  moreover have "agrees cfg now (d\<lparr>dd_last_fired_ms := AList.update ?k now (dd_last_fired_ms d)\<rparr>) (m(?k \<mapsto> now))"
    using assms by (simp add: agrees_def distinct_update)
  ultimately show "fst (suppress_entry d a now) = fst (ref_suppress cfg m a now)"
    "agrees cfg now (snd (suppress_entry d a now)) (snd (ref_suppress cfg m a now))"
    using assms by (auto split: if_splits)
qed

lemma agrees_cleanup:
  assumes "agrees cfg now d m"
  shows "agrees cfg now (snd (cleanup_stale_entries d now)) m"
proof -
  have max: "dd_max_configured_window_ms d = max_window cfg"
    and dist: "distinct (map fst (dd_last_fired_ms d))"
    using assms by (simp_all add: agrees_def)
  let ?last = "dd_last_fired_ms (snd (cleanup_stale_entries d now))"
  have last: "map_of ?last k = (case map_of (dd_last_fired_ms d) k of None \<Rightarrow> None
      | Some t \<Rightarrow> if \<not> is_stale (max_window cfg) now t then Some t else None)" for k
    using map_of_filter_snd [OF dist, of "\<lambda>t. \<not> is_stale (max_window cfg) now t" k]
    by (simp add: cleanup_stale_entries_def Let_def max)
  have "distinct (map fst ?last)"
    using dist by (simp add: cleanup_stale_entries_def Let_def distinct_map_filter)
  moreover have "map_of ?last k = m k \<or>
      map_of ?last k = None \<and> (\<exists>t. m k = Some t \<and> is_stale (max_window cfg) now t)" for k
  proof -
    have "map_of (dd_last_fired_ms d) k = m k \<or>
        map_of (dd_last_fired_ms d) k = None \<and> (\<exists>t. m k = Some t \<and> is_stale (max_window cfg) now t)"
      using assms unfolding agrees_def by blast
    then show ?thesis unfolding last by (auto split: option.splits)
  qed
  moreover have "dd_cfg (snd (cleanup_stale_entries d now)) = dd_cfg d"
    "dd_max_configured_window_ms (snd (cleanup_stale_entries d now)) = max_window cfg"
    by (simp_all add: cleanup_stale_entries_def Let_def max)
  ultimately show ?thesis using assms unfolding agrees_def by blast
qed

lemma agrees_processed [simp]: "agrees cfg now (d\<lparr>dd_processed_since_cleanup := n\<rparr>) m = agrees cfg now d m"
  by (simp add: agrees_def)

lemma agrees_step:
  assumes "agrees cfg now d m"
  shows "fst (should_suppress d a now) = fst (ref_suppress cfg m a now)"
    and "agrees cfg now (snd (should_suppress d a now)) (snd (ref_suppress cfg m a now))"
  using agrees_entry [OF assms, of a] agrees_cleanup
  by (auto simp: should_suppress_def Let_def case_prod_unfold)

lemma agrees_run:
  assumes "agrees cfg now d m" and "sorted (map snd xs)" and "\<forall>x\<in>set xs. now \<le> snd x"
  shows "filter_run should_suppress d xs = filter_run (ref_suppress cfg) m xs"
  using assms
proof (induction xs arbitrary: now d m)
  case (Cons x xs)
  have "agrees cfg (snd x) d m" using agrees_later Cons.prems by auto
  from agrees_step [OF this, of "fst x"] Cons.IH [of "snd x"] Cons.prems
  show ?case by (simp add: case_prod_unfold)
qed simp

lemma agrees_init: "agrees cfg 0 (new_deduplicator cfg) Map.empty"
  by (simp add: agrees_def max_window_def new_deduplicator_def)

lemma dedup_run_eq:
  "sorted (map snd xs) \<Longrightarrow>
   filter_run should_suppress (new_deduplicator cfg) xs = filter_run (ref_suppress cfg) Map.empty xs"
  by (rule agrees_run [OF agrees_init]) auto

section \<open>The reference meets the contract\<close>

definition filter_state :: "('d \<Rightarrow> Alert \<Rightarrow> u64 \<Rightarrow> bool \<times> 'd) \<Rightarrow> 'd \<Rightarrow> (Alert \<times> u64) list \<Rightarrow> 'd" where
  "filter_state step d xs = fold (\<lambda>x d. snd (step d (fst x) (snd x))) xs d"

lemma filter_run_append:
  "filter_run step d (xs @ ys) = filter_run step d xs @ filter_run step (filter_state step d xs) ys"
  by (induction xs arbitrary: d) (simp_all add: filter_state_def case_prod_unfold)

lemma filter_run_snoc:
  "filter_run step d (xs @ [x]) =
     filter_run step d xs @ [fst (step (filter_state step d xs) (fst x) (snd x))]"
  by (simp add: filter_run_append case_prod_unfold)

lemma filter_run_nth:
  assumes "i < length xs"
  shows "filter_run step d xs ! i =
     fst (step (filter_state step d (take i xs)) (fst (xs ! i)) (snd (xs ! i)))"
proof -
  have "filter_run step d (take i xs @ xs ! i # drop (Suc i) xs) ! i =
      fst (step (filter_state step d (take i xs)) (fst (xs ! i)) (snd (xs ! i)))"
    unfolding filter_run_append using assms by (simp add: nth_append case_prod_unfold)
  then show ?thesis using assms by (simp add: id_take_nth_drop [symmetric])
qed

lemma filter_run_take:
  "j < i \<Longrightarrow> i \<le> length xs \<Longrightarrow> filter_run step d (take i xs) ! j = filter_run step d xs ! j"
  using filter_run_append [of step d "take i xs" "drop i xs"] by (simp add: nth_append)

text \<open>The reference table holds, per key, the time of the latest alert that was let through.\<close>

definition sent_at :: "DeduplicatorConfig \<Rightarrow> (Alert \<times> u64) list \<Rightarrow> string \<Rightarrow> u64 \<Rightarrow> bool" where
  "sent_at cfg xs k t \<longleftrightarrow> (\<exists>j<length xs. \<not> filter_run (ref_suppress cfg) Map.empty xs ! j \<and>
     build_key (fst (xs ! j)) = k \<and> snd (xs ! j) = t)"

lemma ref_suppress_state:
  "snd (ref_suppress cfg m a now) =
     (if fst (ref_suppress cfg m a now) then m else m(build_key a \<mapsto> now))"
  by (simp add: ref_suppress_def split: option.splits)

lemma sent_at_snoc:
  "sent_at cfg (xs @ [x]) k t \<longleftrightarrow> sent_at cfg xs k t \<or>
     \<not> fst (ref_suppress cfg (filter_state (ref_suppress cfg) Map.empty xs) (fst x) (snd x)) \<and>
     build_key (fst x) = k \<and> snd x = t"
  unfolding sent_at_def filter_run_snoc
  by (simp add: ex_less_Suc_iff nth_append cong: conj_cong)

lemma ref_state_sent:
  assumes "sorted (map snd xs)"
  shows "case filter_state (ref_suppress cfg) Map.empty xs k of
      None \<Rightarrow> \<forall>t. \<not> sent_at cfg xs k t
    | Some t \<Rightarrow> sent_at cfg xs k t \<and> (\<forall>t'. sent_at cfg xs k t' \<longrightarrow> t' \<le> t)"
  using assms
proof (induction xs rule: rev_induct)
  case Nil
  show ?case by (simp add: filter_state_def sent_at_def)
next
  case (snoc x xs)
  let ?m = "filter_state (ref_suppress cfg) Map.empty xs"
  have state: "filter_state (ref_suppress cfg) Map.empty (xs @ [x]) = snd (ref_suppress cfg ?m (fst x) (snd x))"
    by (simp add: filter_state_def)
  have IH: "case ?m k of None \<Rightarrow> \<forall>t. \<not> sent_at cfg xs k t
      | Some t \<Rightarrow> sent_at cfg xs k t \<and> (\<forall>t'. sent_at cfg xs k t' \<longrightarrow> t' \<le> t)"
    using snoc by (simp add: sorted_append)
  have old: "t \<le> snd x" if "sent_at cfg xs k' t" for k' t
    using that snoc.prems by (auto simp: sent_at_def sorted_append)
  consider (kept) "snd (ref_suppress cfg ?m (fst x) (snd x)) k = ?m k"
      "fst (ref_suppress cfg ?m (fst x) (snd x)) \<or> build_key (fst x) \<noteq> k"
    | (sent) "snd (ref_suppress cfg ?m (fst x) (snd x)) k = Some (snd x)"
      "\<not> fst (ref_suppress cfg ?m (fst x) (snd x))" "build_key (fst x) = k"
    unfolding ref_suppress_state
    by (cases "fst (ref_suppress cfg ?m (fst x) (snd x))"; cases "build_key (fst x) = k") auto
  then show ?case
  proof cases
    case kept
    then show ?thesis unfolding state sent_at_snoc using IH by (auto split: option.splits)
  next
    case sent
    then show ?thesis unfolding state sent_at_snoc using old by auto
  qed
qed

lemma ref_suppressed_iff:
  fixes cfg :: DeduplicatorConfig
  assumes "sorted (map snd xs)" and i: "i < length xs"
  defines "ds \<equiv> filter_run (ref_suppress cfg) Map.empty xs"
  shows "ds ! i \<longleftrightarrow>
     (\<exists>j<i. \<not> ds ! j \<and> build_key (fst (xs ! j)) = build_key (fst (xs ! i)) \<and>
        unat (snd (xs ! i)) < unat (snd (xs ! j)) + unat (window_of cfg (al_rule_type (fst (xs ! i)))))"
proof -
  let ?k = "build_key (fst (xs ! i))"
  let ?w = "unat (window_of cfg (al_rule_type (fst (xs ! i))))"
  let ?m = "filter_state (ref_suppress cfg) Map.empty (take i xs)"
  have sorted: "sorted (map snd (take i xs))"
    using assms(1) by (metis sorted_wrt_take take_map)
  have sent: "sent_at cfg (take i xs) ?k t \<longleftrightarrow>
      (\<exists>j<i. \<not> ds ! j \<and> build_key (fst (xs ! j)) = ?k \<and> snd (xs ! j) = t)" for t
    using i by (auto simp: sent_at_def ds_def filter_run_take)
  have "ds ! i \<longleftrightarrow> (\<exists>t. ?m ?k = Some t \<and> unat (snd (xs ! i)) < unat t + ?w)"
    unfolding ds_def filter_run_nth [OF i] by (simp add: ref_suppress_def split: option.splits)
  also have "\<dots> \<longleftrightarrow> (\<exists>t. sent_at cfg (take i xs) ?k t \<and> unat (snd (xs ! i)) < unat t + ?w)"
    using ref_state_sent [OF sorted, of cfg ?k]
    by (auto simp: word_le_nat_alt split: option.splits)
  finally show ?thesis unfolding sent by blast
qed

interpretation dedup: alert_filter "new_deduplicator cfg" should_suppress build_key
  "\<lambda>a. window_of cfg (al_rule_type a)" for cfg
  by unfold_locales (simp only: dedup_run_eq ref_suppressed_iff)

section \<open>Bounds of the table\<close>

definition dedup_inv :: "AlertDeduplicator \<Rightarrow> bool" where
  "dedup_inv d \<longleftrightarrow> distinct (map fst (dd_last_fired_ms d)) \<and>
     dd_max_configured_window_ms d = max_window (dd_cfg d) \<and>
     (dd_processed_since_cleanup d = 0 \<or>
      dd_processed_since_cleanup d < dc_cleanup_every_n_alerts (dd_cfg d))"

lemma dedup_inv_init: "dedup_inv (new_deduplicator cfg)"
  by (simp add: dedup_inv_def new_deduplicator_def max_window_def)

lemma suppress_entry_frame:
  "dd_cfg (snd (suppress_entry d a now)) = dd_cfg d"
  "dd_max_configured_window_ms (snd (suppress_entry d a now)) = dd_max_configured_window_ms d"
  "dd_processed_since_cleanup (snd (suppress_entry d a now)) = dd_processed_since_cleanup d"
  "distinct (map fst (dd_last_fired_ms d)) \<Longrightarrow>
   distinct (map fst (dd_last_fired_ms (snd (suppress_entry d a now))))"
  by (auto simp: suppress_entry_def Let_def distinct_update split: option.splits)

lemma dedup_inv_step: "dedup_inv d \<Longrightarrow> dedup_inv (snd (should_suppress d a now))"
  using suppress_entry_frame [of d a now]
  by (auto simp: dedup_inv_def should_suppress_def cleanup_stale_entries_def Let_def case_prod_unfold
      distinct_map_filter not_le)

lemma suppress_entry_count:
  "tracked_keys_count (snd (suppress_entry d a now)) \<le> Suc (tracked_keys_count d)"
  using length_update_le [of "build_key a" now "dd_last_fired_ms d"]
  by (auto simp: tracked_keys_count_def suppress_entry_def Let_def split: option.splits)

lemma cleanup_exact:
  assumes "cleanup_stale_entries d now = (n, d')"
  shows "n + tracked_keys_count d' = tracked_keys_count d"
    and "set (dd_last_fired_ms d') = {e \<in> set (dd_last_fired_ms d).
       unat now \<le> unat (snd e) + unat (dd_max_configured_window_ms d)}"
proof -
  show "n + tracked_keys_count d' = tracked_keys_count d"
    using assms by (auto simp: cleanup_stale_entries_def Let_def tracked_keys_count_def
        sum_length_filter_compl)
  show "set (dd_last_fired_ms d') = {e \<in> set (dd_last_fired_ms d).
       unat now \<le> unat (snd e) + unat (dd_max_configured_window_ms d)}"
    using assms by (auto simp: cleanup_stale_entries_def Let_def is_stale_iff not_less)
qed

section \<open>Properties\<close>

text \<open>
  C12: what is suppressed.  On a non-decreasing clock an alert is suppressed exactly when an
  earlier alert with the same key was let through less than the rule's window before; the
  periodic sweep and the 64-bit subtraction do not change any decision.
\<close>

theorem dedup_exact:
  assumes "sorted (map snd xs)" and "i < length xs"
  shows "filter_run should_suppress (new_deduplicator cfg) xs ! i \<longleftrightarrow>
     (\<exists>j<i. \<not> filter_run should_suppress (new_deduplicator cfg) xs ! j \<and>
        build_key (fst (xs ! j)) = build_key (fst (xs ! i)) \<and>
        unat (snd (xs ! i)) < unat (snd (xs ! j)) + unat (window_of cfg (al_rule_type (fst (xs ! i)))))"
  using assms by (rule dedup.suppressed_iff)

definition sample_dedup :: DeduplicatorConfig where
  "sample_dedup = \<lparr>dc_default_window_ms = 60000, dc_per_rule_window_ms = [], dc_cleanup_every_n_alerts = 1\<rparr>"

theorem dedup_exact_witness:
  "filter_run should_suppress (new_deduplicator sample_dedup) [(zero_alert, 5), (zero_alert, 60004)] ! 1"
proof -
  have "\<not> filter_run should_suppress (new_deduplicator sample_dedup) [(zero_alert, 5), (zero_alert, 60004)] ! 0"
    by (simp add: should_suppress_def suppress_entry_def new_deduplicator_def Let_def sample_dedup_def)
  then show ?thesis
    using dedup_exact [of "[(zero_alert, 5), (zero_alert, 60004)]" 1 sample_dedup]
    by (simp add: window_of_def sample_dedup_def)
qed

text \<open>
  No storms and no silence.  Two alerts of one key that are both let through are at least
  the window apart, and the first alert of a key is always let through.
\<close>

theorem dedup_spacing:
  assumes "sorted (map snd xs)" and "i < length xs"
  shows "(\<forall>j<i. \<not> filter_run should_suppress (new_deduplicator cfg) xs ! i \<longrightarrow>
       \<not> filter_run should_suppress (new_deduplicator cfg) xs ! j \<longrightarrow>
       build_key (fst (xs ! j)) = build_key (fst (xs ! i)) \<longrightarrow>
       unat (snd (xs ! j)) + unat (window_of cfg (al_rule_type (fst (xs ! i)))) \<le> unat (snd (xs ! i))) \<and>
     ((\<forall>j<i. build_key (fst (xs ! j)) \<noteq> build_key (fst (xs ! i))) \<longrightarrow>
       \<not> filter_run should_suppress (new_deduplicator cfg) xs ! i)"
  using dedup.sends_apart [OF assms] dedup.first_of_key_sent [OF assms] by blast

theorem dedup_spacing_witness:
  "\<not> filter_run should_suppress (new_deduplicator sample_dedup) [(zero_alert, 5)] ! 0"
  using dedup_spacing [of "[(zero_alert, 5)]" 0 sample_dedup] by simp

text \<open>
  The key identifies what the alert is about: customer, rule, chain and token (an absent
  token counts as the empty text), provided that rule names contain no separator.
\<close>

theorem dedup_key_injective:
  assumes "CHR ''|'' \<notin> set (al_rule_type a)" and "CHR ''|'' \<notin> set (al_rule_type b)"
  shows "build_key a = build_key b \<longleftrightarrow>
     al_customer_id a = al_customer_id b \<and> al_rule_type a = al_rule_type b \<and>
     al_chain_id a = al_chain_id b \<and>
     case_option [] (\<lambda>t. t) (al_token_address a) = case_option [] (\<lambda>t. t) (al_token_address b)"
  using assms by (rule build_key_eq_iff)

theorem dedup_key_injective_witness:
  "build_key (zero_alert\<lparr>al_rule_type := ''governance''\<rparr>) \<noteq> build_key (zero_alert\<lparr>al_rule_type := ''approval''\<rparr>)"
  using dedup_key_injective [of "zero_alert\<lparr>al_rule_type := ''governance''\<rparr>" "zero_alert\<lparr>al_rule_type := ''approval''\<rparr>"]
  by simp



end
