(* ===== verification/Alert_Dispatcher.thy ===== *)
theory Alert_Dispatcher
  imports Alert_Channels Alert_Deduplicator Heartbeat
begin

text \<open>
  \<open>AlertDispatcher\<close> (\<open>risk/alert_dispatcher.cpp\<close>): the queue between the engine thread and the
  sending thread, the deduplication, the fan-out to the channels and the counters.  The queue is
  guarded by a mutex, so \<open>dispatch\<close>, \<open>stop\<close> and one turn of \<open>run\<close> (from the end of the wait to
  the next wait) are atomic steps; a history of the dispatcher is a list of such steps in any
  order.  The lemmas show that alerts are handled first in, first out, none lost; that the
  thread ends only with an empty queue; and that what is let through is what the filter
  contract of the deduplicator lets through.
\<close>

section \<open>Definitions\<close>

type_synonym counters = "(string \<times> nat) list"

record AlertDispatcher =
  ad_channels :: "Channel list"
  ad_queue :: "Alert list"
  ad_running :: bool
  ad_exited :: bool
  ad_metrics :: bool
  ad_heartbeat :: "Heartbeat option"
  ad_deduplicator :: AlertDeduplicator
  ad_sent_counters :: counters
  ad_failures_counters :: counters
  ad_deduplicated_counters :: counters
  ad_queue_depth :: nat
  ad_last_success :: "u64 option"
  ad_send_duration_count :: nat
  ad_signal_to_alert_count :: nat

definition new_dispatcher ::
  "bool \<Rightarrow> DeduplicatorConfig \<Rightarrow> string list \<Rightarrow> Heartbeat option \<Rightarrow> AlertDispatcher" where
  "new_dispatcher metrics dedup_cfg rule_types heartbeat =
     \<lparr>ad_channels = [], ad_queue = [], ad_running = False, ad_exited = False, ad_metrics = metrics,
      ad_heartbeat = heartbeat, ad_deduplicator = new_deduplicator dedup_cfg,
      ad_sent_counters = [], ad_failures_counters = [],
      ad_deduplicated_counters =
        (if metrics then fold (\<lambda>rt cs. AList.update rt 0 cs) rule_types [] else []),
      ad_queue_depth = 0, ad_last_success = None, ad_send_duration_count = 0,
      ad_signal_to_alert_count = 0\<rparr>"

text \<open>A channel is a possibly null pointer; the assertion fails when the thread already runs.\<close>

definition add_channel :: "Channel option \<Rightarrow> AlertDispatcher \<Rightarrow> AlertDispatcher option" where
  "add_channel channel d =
     (if ad_running d then None
      else Some (case channel of
        None \<Rightarrow> d
      | Some ch \<Rightarrow>
          let d' = (if ad_metrics d
                    then d\<lparr>ad_sent_counters := AList.update (channel_name ch) 0 (ad_sent_counters d),
                           ad_failures_counters := AList.update (channel_name ch) 0 (ad_failures_counters d)\<rparr>
                    else d)
          in d'\<lparr>ad_channels := ad_channels d' @ [ch]\<rparr>))"

definition dispatcher_stop :: "AlertDispatcher \<Rightarrow> AlertDispatcher" where
  "dispatcher_stop d = d\<lparr>ad_running := False\<rparr>"

definition dispatch :: "Alert \<Rightarrow> AlertDispatcher \<Rightarrow> AlertDispatcher" where
  "dispatch alert d =
     (let queue = ad_queue d @ [alert] in
      d\<lparr>ad_queue := queue,
        ad_queue_depth := (if ad_metrics d then length queue else ad_queue_depth d)\<rparr>)"

definition increment :: "string \<Rightarrow> counters \<Rightarrow> counters" where
  "increment name cs =
     (case map_of cs name of None \<Rightarrow> cs | Some n \<Rightarrow> AList.update name (n + 1) cs)"

definition send_all ::
  "channel_env \<Rightarrow> u64 \<Rightarrow> Alert \<Rightarrow> AlertDispatcher \<Rightarrow> outbox \<Rightarrow> bool \<times> AlertDispatcher \<times> outbox" where
  "send_all env now_ms alert d w =
     (let (results, channels, w') = fan_out (channel_send env now_ms alert) (ad_channels d) w;
          outcomes = zip (map channel_name (ad_channels d)) results;
          sent = map fst (filter (\<lambda>(_, e). e = None) outcomes);
          failed = map fst (filter (\<lambda>(_, e). e \<noteq> None) outcomes) in
      (sent \<noteq> [],
       d\<lparr>ad_channels := channels,
         ad_sent_counters := fold increment sent (ad_sent_counters d),
         ad_failures_counters := fold increment failed (ad_failures_counters d)\<rparr>,
       w'))"

definition record_metrics :: "u64 \<Rightarrow> bool \<Rightarrow> Alert \<Rightarrow> AlertDispatcher \<Rightarrow> AlertDispatcher" where
  "record_metrics now_s any_success alert d =
     (if \<not> ad_metrics d then d
      else d\<lparr>ad_last_success := (if any_success then Some now_s else ad_last_success d),
             ad_send_duration_count := ad_send_duration_count d + 1,
             ad_signal_to_alert_count := ad_signal_to_alert_count d +
               (if al_internal_ingress_time_ms alert > 0 then 1 else 0)\<rparr>)"

definition handle_alert ::
  "channel_env \<Rightarrow> u64 \<Rightarrow> u64 \<Rightarrow> Alert \<Rightarrow> AlertDispatcher \<Rightarrow> outbox \<Rightarrow> AlertDispatcher \<times> outbox" where
  "handle_alert env now_ms now_s alert d w =
     (let (suppress, dedup) = should_suppress (ad_deduplicator d) alert now_ms;
          d1 = d\<lparr>ad_deduplicator := dedup\<rparr> in
      if suppress
      then (d1\<lparr>ad_deduplicated_counters := increment (al_rule_type alert) (ad_deduplicated_counters d1)\<rparr>, w)
      else
        let (any_success, d2, w') = send_all env now_ms alert d1 w in
        (record_metrics now_s any_success alert d2, w'))"

text \<open>What one turn of the loop reads from outside: the stop token and the clocks.\<close>

record tick =
  tk_stop_requested :: bool
  tk_steady_ms :: u64
  tk_now_ms :: u64
  tk_now_s :: u64

definition dispatcher_start :: "AlertDispatcher \<Rightarrow> AlertDispatcher" where
  "dispatcher_start d = d\<lparr>ad_running := True\<rparr>"

definition dispatcher_turn ::
  "channel_env \<Rightarrow> tick \<Rightarrow> AlertDispatcher \<times> outbox \<Rightarrow> AlertDispatcher \<times> outbox" where
  "dispatcher_turn env tk dw =
     (let (d, w) = dw in
      if ad_exited d then (d, w)
      else
        let d1 = d\<lparr>ad_heartbeat := map_option (heartbeat_record (tk_steady_ms tk)) (ad_heartbeat d)\<rparr>;
            is_shutdown = (\<not> ad_running d1 \<or> tk_stop_requested tk) in
        case ad_queue d1 of
          [] \<Rightarrow> if is_shutdown then (d1\<lparr>ad_exited := True\<rparr>, w) else (d1, w)
        | alert # rest \<Rightarrow>
            handle_alert env (tk_now_ms tk) (tk_now_s tk) alert
              (d1\<lparr>ad_queue := rest,
                  ad_queue_depth := (if ad_metrics d1 then length rest else ad_queue_depth d1)\<rparr>) w)"

section \<open>Histories\<close>

datatype dispatcher_event = E_start | E_dispatch Alert | E_turn tick | E_stop

fun dispatcher_step ::
  "channel_env \<Rightarrow> dispatcher_event \<Rightarrow> AlertDispatcher \<times> outbox \<Rightarrow> AlertDispatcher \<times> outbox" where
  "dispatcher_step env E_start (d, w) = (dispatcher_start d, w)"
| "dispatcher_step env (E_dispatch a) (d, w) = (dispatch a d, w)"
| "dispatcher_step env (E_turn tk) dw = dispatcher_turn env tk dw"
| "dispatcher_step env E_stop (d, w) = (dispatcher_stop d, w)"

text \<open>The alert a step takes from the queue, with the time it was handled.\<close>

fun handled :: "dispatcher_event \<Rightarrow> AlertDispatcher \<Rightarrow> (Alert \<times> u64) list" where
  "handled (E_turn tk) d = (if ad_exited d \<or> ad_queue d = [] then [] else [(hd (ad_queue d), tk_now_ms tk)])"
| "handled _ d = []"

primrec handled_run ::
  "channel_env \<Rightarrow> dispatcher_event list \<Rightarrow> AlertDispatcher \<times> outbox \<Rightarrow> (Alert \<times> u64) list" where
  "handled_run env [] dw = []"
| "handled_run env (e # es) dw = handled e (fst dw) @ handled_run env es (dispatcher_step env e dw)"

definition dispatcher_run ::
  "channel_env \<Rightarrow> dispatcher_event list \<Rightarrow> AlertDispatcher \<times> outbox \<Rightarrow> AlertDispatcher \<times> outbox" where
  "dispatcher_run env es dw = fold (dispatcher_step env) es dw"

fun dispatched_by :: "dispatcher_event list \<Rightarrow> Alert list" where
  "dispatched_by [] = []"
| "dispatched_by (E_start # es) = dispatched_by es"
| "dispatched_by (E_dispatch a # es) = a # dispatched_by es"
| "dispatched_by (E_turn tk # es) = dispatched_by es"
| "dispatched_by (E_stop # es) = dispatched_by es"

section \<open>First in, first out\<close>

lemma send_all_queue [simp]:
  "ad_queue (fst (snd (send_all env now a d w))) = ad_queue d"
  "ad_exited (fst (snd (send_all env now a d w))) = ad_exited d"
  "ad_deduplicator (fst (snd (send_all env now a d w))) = ad_deduplicator d"
  "ad_running (fst (snd (send_all env now a d w))) = ad_running d"
  by (simp_all add: send_all_def Let_def case_prod_unfold)

lemma record_metrics_queue [simp]:
  "ad_queue (record_metrics t b a d) = ad_queue d"
  "ad_exited (record_metrics t b a d) = ad_exited d"
  "ad_deduplicator (record_metrics t b a d) = ad_deduplicator d"
  "ad_running (record_metrics t b a d) = ad_running d"
  by (simp_all add: record_metrics_def)

lemma handle_alert_queue [simp]:
  "ad_queue (fst (handle_alert env now s a d w)) = ad_queue d"
  "ad_exited (fst (handle_alert env now s a d w)) = ad_exited d"
  "ad_deduplicator (fst (handle_alert env now s a d w)) = snd (should_suppress (ad_deduplicator d) a now)"
  "ad_running (fst (handle_alert env now s a d w)) = ad_running d"
  by (simp_all add: handle_alert_def Let_def case_prod_unfold)

lemma step_queue:
  "map fst (handled e d) @ ad_queue (fst (dispatcher_step env e (d, w))) = ad_queue d @ dispatched_by [e]"
  by (cases e) (auto simp: dispatch_def dispatcher_start_def dispatcher_stop_def dispatcher_turn_def Let_def split: list.splits)

lemma dispatched_by_Cons: "dispatched_by (e # es) = dispatched_by [e] @ dispatched_by es"
  by (cases e) simp_all

lemma run_fifo:
  "map fst (handled_run env es dw) @ ad_queue (fst (dispatcher_run env es dw)) =
     ad_queue (fst dw) @ dispatched_by es"
proof (induction es arbitrary: dw)
  case (Cons e es)
  obtain d w where dw: "dw = (d, w)" by (cases dw)
  have "map fst (handled e d) @ map fst (handled_run env es (dispatcher_step env e dw)) @
      ad_queue (fst (dispatcher_run env es (dispatcher_step env e dw))) =
      map fst (handled e d) @ ad_queue (fst (dispatcher_step env e dw)) @ dispatched_by es"
    by (simp add: Cons.IH)
  also have "\<dots> = ad_queue d @ dispatched_by (e # es)"
    using step_queue [of e d env w] by (simp add: dw dispatched_by_Cons [of e es] flip: append_assoc)
  finally show ?case by (simp add: dw dispatcher_run_def)
qed (simp add: dispatcher_run_def)

section \<open>Shutdown\<close>

lemma exited_step:
  assumes "\<not> ad_exited d" and "ad_exited (fst (dispatcher_step env e (d, w)))"
  shows "ad_queue (fst (dispatcher_step env e (d, w))) = []"
  using assms
  by (cases e) (auto simp: dispatch_def dispatcher_start_def dispatcher_stop_def dispatcher_turn_def Let_def
      split: list.splits if_splits)

text \<open>
  After a stop, as many turns as the queue is long handle everything; the next one ends the loop,
  and later ones do nothing.
\<close>

lemma exited_stays:
  assumes "ad_exited d"
  shows "dispatcher_run env (map E_turn tks) (d, w) = (d, w)" and "handled_run env (map E_turn tks) (d, w) = []"
proof -
  have "dispatcher_run env (map E_turn tks) (d, w) = (d, w) \<and> handled_run env (map E_turn tks) (d, w) = []"
    using assms by (induction tks) (simp_all add: dispatcher_run_def dispatcher_turn_def)
  then show "dispatcher_run env (map E_turn tks) (d, w) = (d, w)" "handled_run env (map E_turn tks) (d, w) = []"
    by simp_all
qed

lemma dispatcher_run_Cons: "dispatcher_run env (e # es) dw = dispatcher_run env es (dispatcher_step env e dw)"
  by (simp add: dispatcher_run_def)

lemma turns_drain:
  assumes "\<not> ad_running d" and "\<not> ad_exited d" and "length (ad_queue d) < length tks"
  shows "ad_exited (fst (dispatcher_run env (map E_turn tks) (d, w))) \<and>
     ad_queue (fst (dispatcher_run env (map E_turn tks) (d, w))) = [] \<and>
     map fst (handled_run env (map E_turn tks) (d, w)) = ad_queue d"
  using assms
proof (induction tks arbitrary: d w)
  case (Cons tk tks)
  show ?case
  proof (cases "ad_queue d")
    case Nil
    then show ?thesis
      using Cons.prems
      by (simp add: dispatcher_run_Cons dispatcher_turn_def Let_def exited_stays)
  next
    case (Cons a rest)
    obtain d' w' where turn: "dispatcher_turn env tk (d, w) = (d', w')" by (cases "dispatcher_turn env tk (d, w)")
    have d': "ad_queue d' = rest" "\<not> ad_running d'" "\<not> ad_exited d'"
      using arg_cong [OF turn, of fst] Cons Cons.prems
      by (auto simp: dispatcher_turn_def Let_def)
    have "length rest < length tks" using Cons Cons.prems by simp
    with Cons.IH [of d' w'] d' show ?thesis
      using Cons Cons.prems by (simp add: dispatcher_run_Cons turn)
  qed
qed simp

section \<open>Deduplication and delivery\<close>

text \<open>The decision of the deduplicator at a step that handles an alert.\<close>

fun decision :: "dispatcher_event \<Rightarrow> AlertDispatcher \<Rightarrow> bool list" where
  "decision (E_turn tk) d = (if ad_exited d \<or> ad_queue d = [] then []
     else [fst (should_suppress (ad_deduplicator d) (hd (ad_queue d)) (tk_now_ms tk))])"
| "decision _ d = []"

primrec decision_run :: "channel_env \<Rightarrow> dispatcher_event list \<Rightarrow> AlertDispatcher \<times> outbox \<Rightarrow> bool list" where
  "decision_run env [] dw = []"
| "decision_run env (e # es) dw = decision e (fst dw) @ decision_run env es (dispatcher_step env e dw)"

lemma step_dedup:
  "ad_deduplicator (fst (dispatcher_step env e (d, w))) =
     filter_state should_suppress (ad_deduplicator d) (handled e d)"
  "decision e d = filter_run should_suppress (ad_deduplicator d) (handled e d)"
  by (cases e; auto simp: dispatch_def dispatcher_start_def dispatcher_stop_def dispatcher_turn_def Let_def filter_state_def
      case_prod_unfold split: list.splits)+

lemma decision_run_eq:
  "decision_run env es dw = filter_run should_suppress (ad_deduplicator (fst dw)) (handled_run env es dw)"
proof (induction es arbitrary: dw)
  case (Cons e es)
  obtain d w where "dw = (d, w)" by (cases dw)
  then show ?case
    using Cons.IH [of "dispatcher_step env e dw"] by (simp add: step_dedup filter_run_append)
qed simp

text \<open>A step reaches the channels exactly when it handles an alert that is not suppressed.\<close>

lemma turn_nothing:
  assumes "True \<in> set (decision e d) \<or> decision e d = []"
  shows "snd (dispatcher_step env e (d, w)) = w"
  using assms
  by (cases e) (auto simp: dispatcher_turn_def handle_alert_def Let_def case_prod_unfold split: list.splits if_splits)

lemma turn_sends:
  assumes "decision (E_turn tk) d = [False]"
  shows "snd (dispatcher_step env (E_turn tk) (d, w)) =
     snd (snd (fan_out (channel_send env (tk_now_ms tk) (hd (ad_queue d))) (ad_channels d) w))"
  using assms
  by (auto simp: dispatcher_turn_def handle_alert_def send_all_def Let_def case_prod_unfold
      split: list.splits if_splits)

lemma step_channels:
  "map (may_post b) (ad_channels (fst (dispatcher_step env e (d, w)))) = map (may_post b) (ad_channels d)"
  by (cases e) (auto simp: dispatch_def dispatcher_start_def dispatcher_stop_def dispatcher_turn_def handle_alert_def send_all_def
      record_metrics_def Let_def case_prod_unfold fan_out_may_post split: list.splits)

lemma step_posts:
  "\<exists>new. ob_posts (snd (dispatcher_step env e (d, w))) = ob_posts w @ new \<and>
     (\<forall>m\<in>set new. \<exists>a\<in>fst ` set (handled e d). \<exists>c\<in>set (ad_channels d). may_post a c m)"
proof (cases "\<exists>tk. e = E_turn tk \<and> decision e d = [False]")
  case True
  then obtain tk where tk: "e = E_turn tk" "decision (E_turn tk) d = [False]" by blast
  then have "handled e d = [(hd (ad_queue d), tk_now_ms tk)]" by (auto split: if_splits)
  with turn_sends [OF tk(2), of env w] channels.fan_out_appends [of env "tk_now_ms tk" "hd (ad_queue d)" "ad_channels d" w]
  show ?thesis by (simp add: tk(1))
next
  case False
  then have "True \<in> set (decision e d) \<or> decision e d = []" by (cases e) (auto split: if_splits)
  with turn_nothing show ?thesis by simp
qed

lemma run_posts:
  "\<exists>new. ob_posts (snd (dispatcher_run env es dw)) = ob_posts (snd dw) @ new \<and>
     (\<forall>m\<in>set new. \<exists>a\<in>fst ` set (handled_run env es dw). \<exists>c\<in>set (ad_channels (fst dw)). may_post a c m)"
proof (induction es arbitrary: dw)
  case (Cons e es)
  obtain d w where dw: "dw = (d, w)" by (cases dw)
  let ?dw = "dispatcher_step env e dw"
  obtain new where new: "ob_posts (snd ?dw) = ob_posts w @ new"
    "\<forall>m\<in>set new. \<exists>a\<in>fst ` set (handled e d). \<exists>c\<in>set (ad_channels d). may_post a c m"
    using step_posts dw by blast
  obtain new' where new': "ob_posts (snd (dispatcher_run env es ?dw)) = ob_posts (snd ?dw) @ new'"
    "\<forall>m\<in>set new'. \<exists>a\<in>fst ` set (handled_run env es ?dw). \<exists>c\<in>set (ad_channels (fst ?dw)). may_post a c m"
    using Cons.IH by blast
  have "may_post a ` set (ad_channels (fst ?dw)) = may_post a ` set (ad_channels d)" for a
    using arg_cong [OF step_channels [of a env e d w], of set] by (simp add: dw)
  then have swap: "\<exists>c\<in>set (ad_channels d). may_post a c m"
    if "\<exists>c\<in>set (ad_channels (fst ?dw)). may_post a c m" for a m
    using that by (metis imageE imageI)
  have "\<forall>m\<in>set (new @ new'). \<exists>a\<in>fst ` set (handled_run env (e # es) dw). \<exists>c\<in>set (ad_channels d). may_post a c m"
  proof
    fix m assume "m \<in> set (new @ new')"
    then consider "m \<in> set new" | "m \<in> set new'" by auto
    then show "\<exists>a\<in>fst ` set (handled_run env (e # es) dw). \<exists>c\<in>set (ad_channels d). may_post a c m"
    proof cases
      case 1
      with new(2) obtain a where "a \<in> fst ` set (handled e d)" "\<exists>c\<in>set (ad_channels d). may_post a c m" by blast
      then show ?thesis by (intro bexI [of _ a]) (auto simp: dw)
    next
      case 2
      with new'(2) obtain a where "a \<in> fst ` set (handled_run env es ?dw)"
        "\<exists>c\<in>set (ad_channels (fst ?dw)). may_post a c m" by blast
      then show ?thesis using swap by (intro bexI [of _ a]) auto
    qed
  qed
  then show ?case
    using new(1) new'(1) by (intro exI [of _ "new @ new'"]) (simp add: dw dispatcher_run_def)
qed (simp add: dispatcher_run_def)

section \<open>Properties\<close>

text \<open>
  No alert is lost or reordered.  In every history of dispatches, turns and stops, the alerts
  handled so far followed by the queue are the alerts dispatched, in order.
\<close>

theorem dispatcher_fifo:
  "map fst (handled_run env es (new_dispatcher m cfg rts h, w)) @
     ad_queue (fst (dispatcher_run env es (new_dispatcher m cfg rts h, w))) = dispatched_by es"
  using run_fifo [of env es "(new_dispatcher m cfg rts h, w)"] by (simp add: new_dispatcher_def)

text \<open>
  Orderly shutdown.  After a stop, one turn per queued alert handles them all and one more
  ends the thread; and a step can end the thread only when the queue is empty.
\<close>

theorem dispatcher_shutdown:
  assumes "\<not> ad_exited d" and "length (ad_queue d) < length tks"
  shows "(let es = E_stop # map E_turn tks in
       ad_exited (fst (dispatcher_run env es (d, w))) \<and>
       map fst (handled_run env es (d, w)) = ad_queue d) \<and>
     (ad_exited (fst (dispatcher_step env e (d, w))) \<longrightarrow> ad_queue (fst (dispatcher_step env e (d, w))) = [])"
proof -
  have "\<not> ad_running (dispatcher_stop d)" "\<not> ad_exited (dispatcher_stop d)"
    "ad_queue (dispatcher_stop d) = ad_queue d"
    using assms(1) by (simp_all add: dispatcher_stop_def)
  with turns_drain [of "dispatcher_stop d" tks env w] assms(2)
  have "let es = E_stop # map E_turn tks in
       ad_exited (fst (dispatcher_run env es (d, w))) \<and> map fst (handled_run env es (d, w)) = ad_queue d"
    by (simp add: Let_def dispatcher_run_def)
  then show ?thesis using exited_step [OF assms(1)] by blast
qed

definition sample_tick :: tick where
  "sample_tick = \<lparr>tk_stop_requested = False, tk_steady_ms = 1, tk_now_ms = 1, tk_now_s = 0\<rparr>"

definition sample_env :: channel_env where
  "sample_env = \<lparr>ce_dump = (\<lambda>_. Inr ''{}''), ce_dump_ordered = (\<lambda>_. Inr ''{}''), ce_curl_init = (\<lambda>_. True),
     ce_curl_perform = (\<lambda>_ _. Http_status 200), ce_write = (\<lambda>old line. (old @ line, True)), ce_ssl = sum_ssl\<rparr>"

definition sample_dispatcher :: AlertDispatcher where
  "sample_dispatcher = dispatch zero_alert (new_dispatcher True sample_dedup [] None)"

theorem dispatcher_shutdown_witness:
  "ad_exited (fst (dispatcher_run sample_env [E_stop, E_turn sample_tick, E_turn sample_tick]
     (sample_dispatcher, \<lparr>ob_console = [], ob_posts = []\<rparr>)))"
  using dispatcher_shutdown [of sample_dispatcher "[sample_tick, sample_tick]" sample_env
      "\<lparr>ob_console = [], ob_posts = []\<rparr>"]
  by (simp add: sample_dispatcher_def dispatch_def new_dispatcher_def Let_def)

text \<open>
  What the customers receive.  On a non-decreasing clock, the decisions taken along any
  history are those of the filter contract over the handled alerts: the i-th handled alert is
  withheld exactly when an earlier one of the same key was sent less than the window before.
\<close>

theorem dispatcher_dedup:
  assumes "xs = handled_run env es (new_dispatcher m cfg rts h, w)"
    and "ds = decision_run env es (new_dispatcher m cfg rts h, w)"
    and "sorted (map snd xs)" and "i < length xs"
  shows "length ds = length xs \<and> (ds ! i \<longleftrightarrow>
     (\<exists>j<i. \<not> ds ! j \<and> build_key (fst (xs ! j)) = build_key (fst (xs ! i)) \<and>
        unat (snd (xs ! i)) < unat (snd (xs ! j)) + unat (window_of cfg (al_rule_type (fst (xs ! i))))))"
proof -
  have "ds = filter_run should_suppress (new_deduplicator cfg) xs"
    using decision_run_eq [of env es "(new_dispatcher m cfg rts h, w)"] assms(1,2)
    by (simp add: new_dispatcher_def)
  then show ?thesis using dedup.suppressed_iff [OF assms(3,4), of cfg] by simp
qed

theorem dispatcher_dedup_witness:
  "decision_run sample_env [E_start, E_dispatch zero_alert, E_turn sample_tick]
     (new_dispatcher True sample_dedup [] None, \<lparr>ob_console = [], ob_posts = []\<rparr>) ! 0 = False"
proof -
  let ?es = "[E_start, E_dispatch zero_alert, E_turn sample_tick]"
  let ?dw = "(new_dispatcher True sample_dedup [] None, \<lparr>ob_console = [], ob_posts = []\<rparr>)"
  have "handled_run sample_env ?es ?dw = [(zero_alert, 1)]"
    by (simp add: dispatch_def new_dispatcher_def dispatcher_start_def Let_def sample_tick_def)
  with dispatcher_dedup [of _ sample_env ?es True sample_dedup "[]" None _ _ 0, OF refl refl] show ?thesis
    by simp
qed

text \<open>
  Confidentiality.  Every request posted along a history is one that a configured channel may
  send for an alert that was handled: to the configured bot, or to a webhook of that alert's
  own customer.
\<close>

theorem posts_confidential:
  "\<exists>new. ob_posts (snd (dispatcher_run env es (d, w))) = ob_posts w @ new \<and>
     list_all (\<lambda>p. \<exists>a\<in>fst ` set (handled_run env es (d, w)). \<exists>c\<in>set (ad_channels d). may_post a c p) new"
  using run_posts [of env es "(d, w)"] by (simp add: list_all_iff)

end
