(* ===== verification/Event_Source.thy ===== *)
theory Event_Source
  imports Normalize Heartbeat
begin

text \<open>
  \<open>EventSource\<close> (\<open>events/EventSource.cpp\<close>): the producer.  It follows the chain head, fetches logs
  in block ranges that it halves on errors, normalizes them and pushes them into the ring
  buffer, blocking while it is full.  The chain adapter, the ring buffer's \<open>try_push\<close> and the
  clocks act on a world of type \<open>'w\<close>: the record \<open>source_env\<close> holds them.  \<open>push_blocking\<close> may
  wait for ever, so it and everything above it returns an option.  The lemmas give the
  termination of the range search, the exact block ranges, and what a poll pushes on success
  and on failure.
\<close>

section \<open>Definitions\<close>

record 'w source_env =
  se_latestBlock :: "'w \<Rightarrow> u64 result \<times> 'w"
  se_blockTimestamp :: "u64 \<Rightarrow> 'w \<Rightarrow> u64 result \<times> 'w"
  se_getLogs :: "u64 \<Rightarrow> u64 \<Rightarrow> 'w \<Rightarrow> RawLog list result \<times> 'w"
  se_try_push :: "Signal \<Rightarrow> 'w \<Rightarrow> bool \<times> 'w"
  se_system_ms :: "'w \<Rightarrow> u64 \<times> 'w"
  se_steady_ms :: "'w \<Rightarrow> u64 \<times> 'w"
  se_stack :: "'w \<Rightarrow> bytes"

record EventSourceConfig =
  ec_start_block :: u64
  ec_max_block_range :: u64
  ec_min_block_range :: u64
  ec_backtest_end_block :: u64

record EventSource =
  es_cfg :: EventSourceConfig
  es_chain_id :: u64
  es_running :: bool
  es_next_block :: u64
  es_cold_start :: bool
  es_cached_chain_head :: u64
  es_heartbeat :: "Heartbeat option"
  es_metrics :: bool
  es_events_ingested :: nat
  es_signals_normalized :: nat
  es_ring_depth :: int
  es_last_seen_block :: u64
  es_last_processed_block :: u64

text \<open>The constructor asks the adapter for the chain id (its exception escapes).\<close>

definition new_event_source ::
  "('w \<Rightarrow> u64 result \<times> 'w) \<Rightarrow> EventSourceConfig \<Rightarrow> bool \<Rightarrow> Heartbeat option \<Rightarrow> 'w
   \<Rightarrow> EventSource result \<times> 'w" where
  "new_event_source chainId cfg metrics heartbeat w =
     (case chainId w of
        (Inl e, w') \<Rightarrow> (Inl e, w')
      | (Inr chain_id, w') \<Rightarrow>
          (Inr \<lparr>es_cfg = cfg, es_chain_id = chain_id, es_running = True,
                es_next_block = ec_start_block cfg, es_cold_start = (ec_start_block cfg = 0),
                es_cached_chain_head = 0, es_heartbeat = heartbeat, es_metrics = metrics,
                es_events_ingested = 0, es_signals_normalized = 0, es_ring_depth = 0,
                es_last_seen_block = 0, es_last_processed_block = 0\<rparr>, w'))"

definition source_stop :: "EventSource \<Rightarrow> EventSource" where
  "source_stop s = s\<lparr>es_running := False\<rparr>"

partial_function (option) push_blocking :: "'w source_env \<Rightarrow> Signal \<Rightarrow> 'w \<Rightarrow> 'w option" where
  "push_blocking env ev w =
     (case se_try_push env ev w of (ok, w') \<Rightarrow> if ok then Some w' else push_blocking env ev w')"

text \<open>Step 3 of the poll: the range-shrink retry.  The result is the logs and the last block.\<close>

function fetch_logs ::
  "'w source_env \<Rightarrow> u64 \<Rightarrow> u64 \<Rightarrow> u64 \<Rightarrow> 'w \<Rightarrow> (RawLog list \<times> u64) result \<times> 'w" where
  "fetch_logs env next_block min_range rng w =
     (case se_getLogs env next_block (next_block + rng - 1) w of
        (Inr logs, w') \<Rightarrow> (Inr (logs, next_block + rng - 1), w')
      | (Inl e, w') \<Rightarrow>
          if rng \<le> min_range then
            (Inl (RuntimeError ''Persistent RPC failure even with min_range''), w')
          else fetch_logs env next_block min_range (max (rng div 2) min_range) w')"
  by pat_completeness auto

lemma halving_decreases:
  fixes r m :: u64
  assumes "m < r"
  shows "unat (max (r div 2) m) < unat r"
proof -
  have "0 < unat r" using assms by (simp add: word_less_nat_alt)
  then have "unat (r div 2) < unat r" by (simp add: unat_div)
  then show ?thesis using assms by (simp add: max_def word_less_nat_alt)
qed

termination fetch_logs
  by (relation "measure (\<lambda>(env, nb, m, r, w). unat r)") (auto simp: halving_decreases not_le)

declare fetch_logs.simps [simp del]

text \<open>Step 4: normalize and push each log; an exception of the normalizer leaves the loop.\<close>

fun push_logs ::
  "'w source_env \<Rightarrow> u64 \<Rightarrow> RawLog list \<Rightarrow> EventSource \<times> 'w \<Rightarrow> (exn option \<times> EventSource \<times> 'w) option" where
  "push_logs env ts [] (s, w) = Some (None, s, w)"
| "push_logs env ts (raw # raws) (s, w) =
     (case normalize_log (se_stack env w) raw (es_chain_id s) ts of
        Inl e \<Rightarrow> Some (Some e, s, w)
      | Inr ev \<Rightarrow>
          (case se_steady_ms env w of (now, w1) \<Rightarrow>
             (let ev' = ev\<lparr>sig_meta := (sig_meta ev)\<lparr>sm_internal_ingress_time_ms := now\<rparr>\<rparr> in
              case push_blocking env ev' w1 of
                None \<Rightarrow> None
              | Some w2 \<Rightarrow>
                  push_logs env ts raws
                    (s\<lparr>es_signals_normalized := es_signals_normalized s + (if es_metrics s then 1 else 0),
                       es_ring_depth := es_ring_depth s + (if es_metrics s then 1 else 0)\<rparr>, w2))))"

definition batch_timestamp :: "'w source_env \<Rightarrow> u64 \<Rightarrow> 'w \<Rightarrow> u64 \<times> 'w" where
  "batch_timestamp env to_block w =
     (case se_blockTimestamp env to_block w of
        (Inr t, w') \<Rightarrow> (t * 1000, w')
      | (Inl e, w') \<Rightarrow> se_system_ms env w')"

text \<open>Steps 2 to 6, when there is work.\<close>

definition poll_batch ::
  "'w source_env \<Rightarrow> EventSource \<times> 'w \<Rightarrow> (bool result \<times> EventSource \<times> 'w) option" where
  "poll_batch env sw =
     (let (s, w) = sw;
          distance = es_cached_chain_head s - es_next_block s + 1;
          rng = max (min (ec_max_block_range (es_cfg s)) distance) (ec_min_block_range (es_cfg s)) in
      case fetch_logs env (es_next_block s) (ec_min_block_range (es_cfg s)) rng w of
        (Inl e, w1) \<Rightarrow> Some (Inl e, s, w1)
      | (Inr (logs, to_block), w1) \<Rightarrow>
          (case batch_timestamp env to_block w1 of (ts, w2) \<Rightarrow>
             (let s1 = s\<lparr>es_events_ingested := es_events_ingested s + (if es_metrics s then length logs else 0)\<rparr> in
              case push_logs env ts logs (s1, w2) of
                None \<Rightarrow> None
              | Some (Some e, s2, w3) \<Rightarrow> Some (Inl e, s2, w3)
              | Some (None, s2, w3) \<Rightarrow>
                  (let s3 = s2\<lparr>es_next_block := to_block + 1,
                       es_last_processed_block := (if es_metrics s2 then to_block else es_last_processed_block s2)\<rparr>
                   in Some (Inr (es_next_block s3 \<le> es_cached_chain_head s3), s3, w3)))))"

text \<open>Step 1: the chain head.  \<open>None\<close> in the first component: go on with the batch.\<close>

definition refresh_head ::
  "'w source_env \<Rightarrow> EventSource \<times> 'w \<Rightarrow> bool result option \<times> EventSource \<times> 'w" where
  "refresh_head env sw =
     (let (s, w) = sw in
      if es_cached_chain_head s = 0 \<or> es_next_block s > es_cached_chain_head s then
        (case se_latestBlock env w of
           (Inl e, w') \<Rightarrow> (Some (Inl (RuntimeError (''latestBlock failed: '' @ what e))), s, w')
         | (Inr head, w') \<Rightarrow>
             (let end_block = ec_backtest_end_block (es_cfg s);
                  s1 = s\<lparr>es_cached_chain_head := (if end_block \<noteq> 0 then min head end_block else head),
                         es_last_seen_block := (if es_metrics s then head else es_last_seen_block s)\<rparr> in
              if es_cold_start s then
                (Some (Inr False),
                 s1\<lparr>es_next_block := (if end_block = 0 then es_cached_chain_head s1 else es_next_block s1),
                    es_cold_start := False\<rparr>, w')
              else (None, s1, w')))
      else (None, s, w))"

definition poll_once ::
  "'w source_env \<Rightarrow> EventSource \<times> 'w \<Rightarrow> (bool result \<times> EventSource \<times> 'w) option" where
  "poll_once env sw =
     (case refresh_head env sw of
        (Some r, s, w) \<Rightarrow> Some (r, s, w)
      | (None, s, w) \<Rightarrow>
          if es_next_block s > es_cached_chain_head s then Some (Inr False, s, w)
          else poll_batch env (s, w))"

text \<open>One iteration of \<open>run\<close>; the first component tells whether the loop is left.\<close>

definition source_iter ::
  "'w source_env \<Rightarrow> bool \<Rightarrow> EventSource \<times> 'w \<Rightarrow> (bool \<times> EventSource \<times> 'w) option" where
  "source_iter env stop_requested sw =
     (let (s, w) = sw in
      if \<not> (es_running s \<and> \<not> stop_requested) then Some (True, s, w)
      else if ec_backtest_end_block (es_cfg s) \<noteq> 0 \<and> es_next_block s > ec_backtest_end_block (es_cfg s)
      then Some (True, s, w)
      else
        (let (now, w1) = (case es_heartbeat s of None \<Rightarrow> (0, w) | Some h \<Rightarrow> se_steady_ms env w);
             s1 = s\<lparr>es_heartbeat := map_option (heartbeat_record now) (es_heartbeat s)\<rparr> in
         case poll_once env (s1, w1) of
           None \<Rightarrow> None
         | Some (r, s2, w2) \<Rightarrow> Some (False, s2, w2)))"

primrec source_run ::
  "'w source_env \<Rightarrow> nat \<Rightarrow> EventSource \<times> 'w \<Rightarrow> (bool \<times> EventSource \<times> 'w) option" where
  "source_run env 0 sw = Some (False, sw)"
| "source_run env (Suc n) sw =
     (case source_iter env False sw of
        None \<Rightarrow> None
      | Some (True, sw') \<Rightarrow> Some (True, sw')
      | Some (False, sw') \<Rightarrow> source_run env n sw')"

section \<open>The range search\<close>

lemma fetch_logs_range:
  assumes "fetch_logs env nb m r w = (Inr (logs, to_block), w')" and "m \<le> r"
  shows "\<exists>r' w0. m \<le> r' \<and> r' \<le> r \<and> to_block = nb + r' - 1 \<and>
     se_getLogs env nb to_block w0 = (Inr logs, w')"
  using assms
proof (induction env nb m r w rule: fetch_logs.induct)
  case (1 env nb m r w)
  show ?case
  proof (cases "se_getLogs env nb (nb + r - 1) w")
    case (Pair res w1)
    show ?thesis
    proof (cases res)
      case (Inr ls)
      then show ?thesis
        using Pair "1.prems" by (auto simp: fetch_logs.simps [of env nb m r w] intro!: exI [of _ r])
    next
      case (Inl e)
      let ?r = "max (r div 2) m"
      have more: "\<not> r \<le> m" "fetch_logs env nb m ?r w1 = (Inr (logs, to_block), w')"
        using Inl Pair "1.prems" by (auto simp: fetch_logs.simps [of env nb m r w] split: if_splits)
      have "?r \<le> r"
        using halving_decreases [of m r] more(1) by (simp add: word_le_nat_alt not_le word_less_nat_alt)
      moreover have "\<exists>r' w0. m \<le> r' \<and> r' \<le> ?r \<and> to_block = nb + r' - 1 \<and>
          se_getLogs env nb to_block w0 = (Inr logs, w')"
        using "1.IH" [OF Pair [symmetric] Inl more] by simp
      ultimately show ?thesis using order_trans by blast
    qed
  qed
qed

lemma fetch_logs_error:
  "fetch_logs env nb m r w = (Inl e, w') \<Longrightarrow> e = RuntimeError ''Persistent RPC failure even with min_range''"
proof (induction env nb m r w rule: fetch_logs.induct)
  case (1 env nb m r w)
  show ?case
  proof (cases "se_getLogs env nb (nb + r - 1) w")
    case (Pair res w1)
    show ?thesis
    proof (cases res)
      case (Inl x)
      then show ?thesis
        using "1.IH" [OF Pair [symmetric] Inl] "1.prems" Pair
        by (auto simp: fetch_logs.simps [of env nb m r w] split: if_splits)
    qed (use "1.prems" Pair in \<open>simp add: fetch_logs.simps [of env nb m r w]\<close>)
  qed
qed

section \<open>What is pushed\<close>

text \<open>
  \<open>pushed w\<close> is the sequence of signals the ring buffer has accepted so far: a successful
  \<open>try_push\<close> appends its argument, nothing else of the environment changes it.
\<close>

definition tracks :: "'w source_env \<Rightarrow> ('w \<Rightarrow> Signal list) \<Rightarrow> bool" where
  "tracks env pushed \<longleftrightarrow>
     (\<forall>w. pushed (snd (se_latestBlock env w)) = pushed w) \<and>
     (\<forall>b w. pushed (snd (se_blockTimestamp env b w)) = pushed w) \<and>
     (\<forall>f t w. pushed (snd (se_getLogs env f t w)) = pushed w) \<and>
     (\<forall>w. pushed (snd (se_system_ms env w)) = pushed w) \<and>
     (\<forall>w. pushed (snd (se_steady_ms env w)) = pushed w) \<and>
     (\<forall>ev w. pushed (snd (se_try_push env ev w)) =
        pushed w @ (if fst (se_try_push env ev w) then [ev] else []))"

lemma push_blocking_pushes:
  assumes "tracks env pushed" and "push_blocking env ev w = Some w'"
  shows "pushed w' = pushed w @ [ev]"
proof -
  have "tracks env pushed \<longrightarrow> pushed w' = pushed w @ [ev]"
  proof (rule push_blocking.raw_induct [OF _ assms(2)])
    fix pb env ev w w'
    assume IH: "\<And>env ev w w'. pb env ev w = Some w' \<Longrightarrow> tracks env pushed \<longrightarrow> pushed w' = pushed w @ [ev]"
      and step: "(case se_try_push env ev w of (ok, w') \<Rightarrow> if ok then Some w' else pb env ev w') = Some w'"
    show "tracks env pushed \<longrightarrow> pushed w' = pushed w @ [ev]"
    proof
      assume tr: "tracks env pushed"
      then have "pushed (snd (se_try_push env ev w)) = pushed w @ (if fst (se_try_push env ev w) then [ev] else [])"
        by (simp add: tracks_def)
      then show "pushed w' = pushed w @ [ev]"
        using step IH [of env ev "snd (se_try_push env ev w)" w'] tr
        by (auto simp: case_prod_unfold split: if_splits)
    qed
  qed
  then show ?thesis using assms(1) by blast
qed

definition signal_of :: "u64 \<Rightarrow> u64 \<Rightarrow> RawLog \<Rightarrow> Signal \<Rightarrow> bool" where
  "signal_of chain_id ts raw ev \<longleftrightarrow>
     (\<exists>h now ev0. normalize_log h raw chain_id ts = Inr ev0 \<and>
        ev = ev0\<lparr>sig_meta := (sig_meta ev0)\<lparr>sm_internal_ingress_time_ms := now\<rparr>\<rparr>)"

lemma push_logs_pushes:
  assumes "tracks env pushed" and "push_logs env ts logs (s, w) = Some (e, s', w')"
  shows "\<exists>done sigs. pushed w' = pushed w @ sigs \<and> list_all2 (signal_of (es_chain_id s) ts) done sigs \<and>
     (case e of None \<Rightarrow> done = logs
      | Some x \<Rightarrow> \<exists>raw rest h. logs = done @ raw # rest \<and> normalize_log h raw (es_chain_id s) ts = Inl x)"
  using assms(2)
proof (induction logs arbitrary: s w)
  case Nil
  then show ?case by auto
next
  case (Cons raw raws)
  show ?case
  proof (cases "normalize_log (se_stack env w) raw (es_chain_id s) ts")
    case (Inl x)
    then show ?thesis using Cons.prems by (intro exI [of _ "[]"]) auto
  next
    case (Inr ev)
    define now where "now = fst (se_steady_ms env w)"
    define ev' where "ev' = ev\<lparr>sig_meta := (sig_meta ev)\<lparr>sm_internal_ingress_time_ms := now\<rparr>\<rparr>"
    define s1 where "s1 = s\<lparr>es_signals_normalized := es_signals_normalized s + (if es_metrics s then 1 else 0),
      es_ring_depth := es_ring_depth s + (if es_metrics s then 1 else 0)\<rparr>"
    obtain w2 where w2: "push_blocking env ev' (snd (se_steady_ms env w)) = Some w2"
      and rest: "push_logs env ts raws (s1, w2) = Some (e, s', w')"
      using Cons.prems Inr
      by (auto simp: ev'_def now_def s1_def case_prod_unfold Let_def split: option.splits)
    have p: "pushed w2 = pushed w @ [ev']"
      using push_blocking_pushes [OF assms(1) w2] assms(1) by (simp add: tracks_def)
    have here: "signal_of (es_chain_id s) ts raw ev'"
      using Inr by (auto simp: signal_of_def ev'_def)
    have id: "es_chain_id s1 = es_chain_id s" by (simp add: s1_def)
    from Cons.IH [OF rest] obtain ds sigs where
      "pushed w' = pushed w2 @ sigs" "list_all2 (signal_of (es_chain_id s) ts) ds sigs"
      "case e of None \<Rightarrow> ds = raws
        | Some x \<Rightarrow> \<exists>raw rest h. raws = ds @ raw # rest \<and> normalize_log h raw (es_chain_id s) ts = Inl x"
      unfolding id by blast
    then show ?thesis
      using p here by (intro exI [of _ "raw # ds"] exI [of _ "ev' # sigs"]) (auto split: option.splits)
  qed
qed

lemma push_logs_frame:
  "push_logs env ts logs (s, w) = Some (e, s', w') \<Longrightarrow>
   es_next_block s' = es_next_block s \<and> es_cached_chain_head s' = es_cached_chain_head s \<and>
   es_cfg s' = es_cfg s \<and> es_cold_start s' = es_cold_start s \<and> es_running s' = es_running s \<and>
   es_chain_id s' = es_chain_id s"
proof (induction logs arbitrary: s w)
  case (Cons raw raws)
  then show ?case
    by (auto simp: case_prod_unfold Let_def split: sum.splits option.splits dest!: Cons.IH)
qed simp

section \<open>One poll\<close>

lemma fetch_logs_pushed:
  assumes "tracks env pushed"
  shows "pushed (snd (fetch_logs env nb m r w)) = pushed w"
  using assms
proof (induction env nb m r w rule: fetch_logs.induct)
  case (1 env nb m r w)
  have "pushed (snd (se_getLogs env nb (nb + r - 1) w)) = pushed w"
    using "1.prems" by (simp add: tracks_def)
  then show ?case
    using "1.IH" [OF surjective_pairing [symmetric]] "1.prems"
    by (subst fetch_logs.simps) (auto simp: case_prod_unfold split: sum.splits)
qed

lemma batch_timestamp_pushed: "tracks env pushed \<Longrightarrow> pushed (snd (batch_timestamp env b w)) = pushed w"
  by (simp add: tracks_def batch_timestamp_def case_prod_unfold split: sum.splits)

definition batch_range :: "EventSource \<Rightarrow> u64" where
  "batch_range s = max (min (ec_max_block_range (es_cfg s)) (es_cached_chain_head s - es_next_block s + 1))
     (ec_min_block_range (es_cfg s))"

text \<open>A finished batch: the range asked for, its logs, and one pushed signal per log, in order.\<close>

definition batch_done ::
  "'w source_env \<Rightarrow> ('w \<Rightarrow> Signal list) \<Rightarrow> EventSource \<Rightarrow> 'w \<Rightarrow> u64 \<Rightarrow> EventSource \<Rightarrow> 'w \<Rightarrow> bool" where
  "batch_done env pushed s w to_block s' w' \<longleftrightarrow>
     (\<exists>r logs ts sigs w0 w1. ec_min_block_range (es_cfg s) \<le> r \<and> r \<le> batch_range s \<and>
        to_block = es_next_block s + r - 1 \<and>
        se_getLogs env (es_next_block s) to_block w0 = (Inr logs, w1) \<and>
        pushed w' = pushed w @ sigs \<and> list_all2 (signal_of (es_chain_id s) ts) logs sigs)"

lemma poll_batch_fetched:
  assumes "fetch_logs env (es_next_block s) (ec_min_block_range (es_cfg s)) (batch_range s) w =
      (Inr (logs, to_block), w1)"
    and "batch_timestamp env to_block w1 = (ts, w2)"
  shows "poll_batch env (s, w) =
     (case push_logs env ts logs
        (s\<lparr>es_events_ingested := es_events_ingested s + (if es_metrics s then length logs else 0)\<rparr>, w2) of
        None \<Rightarrow> None
      | Some (Some e, s2, w3) \<Rightarrow> Some (Inl e, s2, w3)
      | Some (None, s2, w3) \<Rightarrow>
          Some (Inr (to_block + 1 \<le> es_cached_chain_head s2),
            s2\<lparr>es_next_block := to_block + 1,
              es_last_processed_block := (if es_metrics s2 then to_block else es_last_processed_block s2)\<rparr>, w3))"
  using assms by (simp add: poll_batch_def batch_range_def Let_def split: option.splits prod.splits)

lemma poll_batch_ok:
  assumes tr: "tracks env pushed" and poll: "poll_batch env (s, w) = Some (Inr behind, s', w')"
  shows "\<exists>to_block. batch_done env pushed s w to_block s' w' \<and> es_next_block s' = to_block + 1 \<and>
     es_cached_chain_head s' = es_cached_chain_head s \<and> es_cfg s' = es_cfg s \<and>
     es_cold_start s' = es_cold_start s \<and> es_running s' = es_running s \<and>
     (behind \<longleftrightarrow> to_block + 1 \<le> es_cached_chain_head s)"
proof -
  obtain logs to_block w1 where fetch: "fetch_logs env (es_next_block s) (ec_min_block_range (es_cfg s))
      (batch_range s) w = (Inr (logs, to_block), w1)"
    using poll by (auto simp: poll_batch_def batch_range_def Let_def split: prod.splits sum.splits)
  obtain ts w2 where bt: "batch_timestamp env to_block w1 = (ts, w2)" by fastforce
  define s1 where "s1 = s\<lparr>es_events_ingested := es_events_ingested s + (if es_metrics s then length logs else 0)\<rparr>"
  obtain s2 where push: "push_logs env ts logs (s1, w2) = Some (None, s2, w')"
    and s': "s' = s2\<lparr>es_next_block := to_block + 1,
       es_last_processed_block := (if es_metrics s2 then to_block else es_last_processed_block s2)\<rparr>"
    and behind: "behind \<longleftrightarrow> to_block + 1 \<le> es_cached_chain_head s2"
    using poll unfolding poll_batch_fetched [OF fetch bt] s1_def [symmetric]
    by (auto split: option.splits)
  obtain r w0 where r: "ec_min_block_range (es_cfg s) \<le> r" "r \<le> batch_range s"
    "to_block = es_next_block s + r - 1" "se_getLogs env (es_next_block s) to_block w0 = (Inr logs, w1)"
    using fetch_logs_range [OF fetch] by (auto simp: batch_range_def)
  have "pushed w2 = pushed w"
    using fetch_logs_pushed [OF tr, of "es_next_block s" "ec_min_block_range (es_cfg s)" "batch_range s" w]
      batch_timestamp_pushed [OF tr, of to_block w1] fetch bt
    by simp
  with push_logs_pushes [OF tr push] obtain sigs where
    sigs: "pushed w' = pushed w @ sigs" "list_all2 (signal_of (es_chain_id s) ts) logs sigs"
    by (auto simp: s1_def)
  have batch: "batch_done env pushed s w to_block s' w'"
    unfolding batch_done_def using r sigs by blast
  note frame = push_logs_frame [OF push]
  show ?thesis
    using batch frame behind by (intro exI [of _ to_block]) (simp add: s' s1_def)
qed

text \<open>The two ways a batch can go: no logs were fetched, or they were handed to the push loop.\<close>

lemma poll_batch_parts [consumes 2, case_names failed pushing]:
  assumes tr: "tracks env pushed" and poll: "poll_batch env (s, w) = Some (r, s', w')"
  obtains (failed) e where "r = Inl e" "s' = s" "pushed w' = pushed w"
  | (pushing) ts logs k e s2 w2 nb lp where
      "push_logs env ts logs (s\<lparr>es_events_ingested := k\<rparr>, w2) = Some (e, s2, w')" "pushed w2 = pushed w"
      "s' = (if e = None then s2\<lparr>es_next_block := nb, es_last_processed_block := lp\<rparr> else s2)"
      "(\<exists>x. r = Inl x) \<longleftrightarrow> e \<noteq> None"
proof (cases "fetch_logs env (es_next_block s) (ec_min_block_range (es_cfg s)) (batch_range s) w")
  case (Pair res w1)
  have w1: "pushed w1 = pushed w"
    using fetch_logs_pushed [OF tr, of "es_next_block s" "ec_min_block_range (es_cfg s)" "batch_range s" w] Pair
    by simp
  show ?thesis
  proof (cases res)
    case (Inl x)
    then show ?thesis using poll Pair w1 by (auto simp: poll_batch_def batch_range_def Let_def intro!: failed)
  next
    case (Inr lt)
    obtain logs to_block where lt: "lt = (logs, to_block)" by fastforce
    obtain ts w2 where bt: "batch_timestamp env to_block w1 = (ts, w2)" by fastforce
    have w2: "pushed w2 = pushed w" using batch_timestamp_pushed [OF tr, of to_block w1] w1 bt by simp
    obtain e s2 where push: "push_logs env ts logs
        (s\<lparr>es_events_ingested := es_events_ingested s + (if es_metrics s then length logs else 0)\<rparr>, w2) = Some (e, s2, w')"
      and s': "s' = (if e = None then s2\<lparr>es_next_block := to_block + 1,
          es_last_processed_block := (if es_metrics s2 then to_block else es_last_processed_block s2)\<rparr> else s2)"
      and r: "(\<exists>x. r = Inl x) \<longleftrightarrow> e \<noteq> None"
      using poll unfolding poll_batch_fetched [OF Pair [unfolded Inr lt] bt] by (auto split: option.splits)
    show ?thesis by (rule pushing [OF push w2 s' r])
  qed
qed

lemma poll_batch_error:
  assumes tr: "tracks env pushed" and poll: "poll_batch env (s, w) = Some (Inl e, s', w')"
  shows "es_next_block s' = es_next_block s \<and> (\<exists>sigs. pushed w' = pushed w @ sigs)"
  using assms
proof (cases rule: poll_batch_parts)
  case (pushing ts logs k x s2 w2)
  then show ?thesis using push_logs_pushes [OF tr pushing(1)] push_logs_frame [OF pushing(1)] by auto
qed simp

text \<open>
  The head refresh: it leaves the cursor alone except for the one jump of a live cold start, and
  caps the head by the end of a backtest.
\<close>

lemma refresh_head_cases:
  assumes "refresh_head env (s, w) = (r, s', w')"
  shows "es_cfg s' = es_cfg s" and "es_running s' = es_running s" and "es_chain_id s' = es_chain_id s"
    and "r = None \<Longrightarrow> es_next_block s' = es_next_block s \<and> es_cold_start s' = es_cold_start s"
    and "r = Some (Inl e) \<Longrightarrow> s' = s"
    and "r = Some (Inr b) \<Longrightarrow> \<not> b \<and> es_cold_start s \<and> \<not> es_cold_start s' \<and>
      es_next_block s' = (if ec_backtest_end_block (es_cfg s) = 0 then es_cached_chain_head s' else es_next_block s)"
  using assms
  by (auto simp: refresh_head_def Let_def split: if_splits prod.splits sum.splits)

lemma refresh_head_pushed:
  "tracks env pushed \<Longrightarrow> refresh_head env (s, w) = (r, s', w') \<Longrightarrow> pushed w' = pushed w"
  by (auto simp: refresh_head_def Let_def tracks_def split: if_splits prod.splits sum.splits)
    (metis snd_conv)+

text \<open>The three ways a poll can end without an exception.\<close>

lemma poll_once_ok:
  assumes tr: "tracks env pushed" and poll: "poll_once env (s, w) = Some (Inr behind, s', w')"
  shows "(\<exists>s1 w1 to_block. es_next_block s1 = es_next_block s \<and> es_cfg s1 = es_cfg s \<and> es_chain_id s1 = es_chain_id s \<and>
       es_next_block s1 \<le> es_cached_chain_head s1 \<and> es_cached_chain_head s' = es_cached_chain_head s1 \<and>
       pushed w1 = pushed w \<and> batch_done env pushed s1 w1 to_block s' w' \<and> es_next_block s' = to_block + 1 \<and>
       (behind \<longleftrightarrow> to_block + 1 \<le> es_cached_chain_head s')) \<or>
     \<not> behind \<and> pushed w' = pushed w \<and>
       (es_next_block s' = es_next_block s \<or>
        es_cold_start s \<and> \<not> es_cold_start s' \<and> ec_backtest_end_block (es_cfg s) = 0 \<and>
        es_next_block s' = es_cached_chain_head s')"
proof -
  obtain r s1 w1 where head: "refresh_head env (s, w) = (r, s1, w1)" by (metis prod_cases3)
  note c = refresh_head_cases [OF head] and p = refresh_head_pushed [OF tr head]
  show ?thesis
  proof (cases r)
    case (Some x)
    then have x: "x = Inr behind" "s1 = s'" "w1 = w'" using poll by (auto simp: poll_once_def head)
    show ?thesis using c(6) [of behind] Some p unfolding x by auto
  next
    case None
    note c' = c(4) [OF None]
    show ?thesis
    proof (cases "es_next_block s1 > es_cached_chain_head s1")
      case True
      then show ?thesis using poll None p c' by (auto simp: poll_once_def head)
    next
      case False
      then have "poll_batch env (s1, w1) = Some (Inr behind, s', w')"
        using poll None by (simp add: poll_once_def head)
      from poll_batch_ok [OF tr this] show ?thesis
        using False c(1,3) c' p by (intro disjI1 exI [of _ s1] exI [of _ w1]) (auto simp: not_less)
    qed
  qed
qed

lemma poll_once_error:
  assumes tr: "tracks env pushed" and poll: "poll_once env (s, w) = Some (Inl e, s', w')"
  shows "es_next_block s' = es_next_block s \<and> (\<exists>sigs. pushed w' = pushed w @ sigs)"
proof -
  obtain r s1 w1 where head: "refresh_head env (s, w) = (r, s1, w1)" by (metis prod_cases3)
  note c = refresh_head_cases [OF head] and p = refresh_head_pushed [OF tr head]
  show ?thesis
  proof (cases r)
    case (Some x)
    then have x: "x = Inl e" "s1 = s'" "w1 = w'" using poll by (auto simp: poll_once_def head)
    show ?thesis using c(5) [of e] Some p unfolding x by auto
  next
    case None
    then have "poll_batch env (s1, w1) = Some (Inl e, s', w')"
      using poll by (auto simp: poll_once_def head split: if_splits)
    from poll_batch_error [OF tr this] show ?thesis using c(4) [OF None] p by simp
  qed
qed

section \<open>Block arithmetic\<close>

text \<open>With the shipped minimum of one block, a batch neither overruns the head nor wraps around.\<close>

lemma batch_numbers:
  assumes "ec_min_block_range (es_cfg s) = 1" and "1 \<le> ec_max_block_range (es_cfg s)"
    and "es_next_block s \<le> es_cached_chain_head s" and "unat (es_cached_chain_head s) < 2 ^ 64 - 1"
    and "1 \<le> r" and "r \<le> batch_range s" and "to_block = es_next_block s + r - 1"
  shows "unat (to_block + 1) = unat (es_next_block s) + unat r"
    and "unat (to_block + 1) \<le> unat (es_cached_chain_head s) + 1"
    and "unat r \<le> unat (ec_max_block_range (es_cfg s))"
    and "es_next_block s \<le> to_block"
    and "unat to_block + 1 = unat (es_next_block s) + unat r"
proof -
  let ?n = "unat (es_next_block s)" and ?h = "unat (es_cached_chain_head s)"
  let ?d = "es_cached_chain_head s - es_next_block s + 1"
  have nh: "?n \<le> ?h" using assms(3) by (simp add: word_le_nat_alt)
  have diff: "unat (es_cached_chain_head s - es_next_block s) = ?h - ?n" using assms(3) by (rule unat_sub)
  have d: "unat ?d = ?h - ?n + 1"
    using assms(4) diff by (subst unat_add_lem [THEN iffD1]) auto
  have "1 \<le> ?d" using d by (simp add: word_le_nat_alt)
  with assms(1,2) have range_eq: "batch_range s = min (ec_max_block_range (es_cfg s)) ?d"
    by (simp add: batch_range_def max_def min_def)
  have r: "unat r \<le> ?h - ?n + 1" "unat r \<le> unat (ec_max_block_range (es_cfg s))" "1 \<le> unat r"
    using assms(5,6) d unfolding range_eq by (auto simp: word_le_nat_alt min_def split: if_splits)
  have tb: "to_block + 1 = es_next_block s + r" by (simp add: assms(7))
  have sum: "?n + unat r \<le> ?h + 1" using r(1) nh by simp
  show u: "unat (to_block + 1) = ?n + unat r"
    unfolding tb using sum assms(4) by (subst unat_add_lem [THEN iffD1]) auto
  show "unat (to_block + 1) \<le> ?h + 1" using u sum by simp
  show "unat r \<le> unat (ec_max_block_range (es_cfg s))" using r(2) .
  have last: "unat to_block = ?n + unat r - 1"
  proof -
    have "to_block = (to_block + 1) - 1" by simp
    also have "unat \<dots> = unat (to_block + 1) - 1"
      using u r(3) by (subst unat_sub) (auto simp: word_le_nat_alt)
    finally show ?thesis using u by simp
  qed
  then show "es_next_block s \<le> to_block" using r(3) by (simp add: word_le_nat_alt)
  show "unat to_block + 1 = ?n + unat r" using last r(3) by simp
qed

section \<open>A backtest ends\<close>

text \<open>
  An environment without faults: the head is known, every range has well-formed logs, and the
  consumer keeps the ring buffer from being full.
\<close>

definition benign :: "'w source_env \<Rightarrow> u64 \<Rightarrow> bool" where
  "benign env head \<longleftrightarrow> (\<forall>w. fst (se_latestBlock env w) = Inr head) \<and>
     (\<forall>f t w. \<exists>logs. fst (se_getLogs env f t w) = Inr logs \<and> list_all raw_ok logs) \<and>
     (\<forall>ev w. fst (se_try_push env ev w))"

definition backtest_ok :: "u64 \<Rightarrow> EventSource \<Rightarrow> bool" where
  "backtest_ok head s \<longleftrightarrow> es_running s \<and> ec_min_block_range (es_cfg s) = 1 \<and>
     1 \<le> ec_max_block_range (es_cfg s) \<and> ec_backtest_end_block (es_cfg s) \<noteq> 0 \<and>
     ec_backtest_end_block (es_cfg s) \<le> head \<and> unat (ec_backtest_end_block (es_cfg s)) < 2 ^ 64 - 1 \<and>
     es_cached_chain_head s \<in> {0, ec_backtest_end_block (es_cfg s)}"

lemma push_logs_total:
  assumes "\<forall>ev w. fst (se_try_push env ev w)" and "list_all raw_ok logs"
  shows "\<exists>s' w'. push_logs env ts logs (s, w) = Some (None, s', w')"
  using assms(2)
proof (induction logs arbitrary: s w)
  case (Cons raw raws)
  obtain ev where ev: "normalize_log (se_stack env w) raw (es_chain_id s) ts = Inr ev"
    using Cons.prems normalize_ok_iff [of "se_stack env w" raw "es_chain_id s" ts] by auto
  have "\<exists>w'. push_blocking env x w = Some w'" for x w
    using assms(1) by (subst push_blocking.simps) (simp add: case_prod_unfold)
  then show ?case
    using Cons ev by (simp add: case_prod_unfold Let_def) (metis option.simps(5))
qed simp

lemma backtest_batch:
  assumes "benign env head" and "backtest_ok head s" and "\<not> es_cold_start s"
    and "es_cached_chain_head s = ec_backtest_end_block (es_cfg s)"
    and "es_next_block s \<le> ec_backtest_end_block (es_cfg s)"
  shows "\<exists>b s' w'. poll_batch env (s, w) = Some (Inr b, s', w') \<and> backtest_ok head s' \<and> \<not> es_cold_start s' \<and>
     es_cfg s' = es_cfg s \<and> unat (es_next_block s) < unat (es_next_block s') \<and>
     unat (es_next_block s') \<le> unat (ec_backtest_end_block (es_cfg s)) + 1"
proof -
  define to_block where "to_block = es_next_block s + batch_range s - 1"
  obtain logs where logs: "fst (se_getLogs env (es_next_block s) to_block w) = Inr logs" "list_all raw_ok logs"
    using assms(1) unfolding benign_def by blast
  define w1 where "w1 = snd (se_getLogs env (es_next_block s) to_block w)"
  have fetch: "fetch_logs env (es_next_block s) (ec_min_block_range (es_cfg s)) (batch_range s) w =
      (Inr (logs, to_block), w1)"
    using logs(1) by (subst fetch_logs.simps) (simp add: to_block_def w1_def case_prod_unfold)
  obtain ts w2 where bt: "batch_timestamp env to_block w1 = (ts, w2)" by fastforce
  obtain s2 w3 where push: "push_logs env ts logs
      (s\<lparr>es_events_ingested := es_events_ingested s + (if es_metrics s then length logs else 0)\<rparr>, w2) =
      Some (None, s2, w3)"
    using push_logs_total [of env logs ts] assms(1) logs(2) unfolding benign_def by blast
  have "1 \<le> batch_range s" using assms(2) by (simp add: batch_range_def backtest_ok_def)
  moreover have "ec_min_block_range (es_cfg s) = 1" "1 \<le> ec_max_block_range (es_cfg s)"
    "es_next_block s \<le> es_cached_chain_head s" "unat (es_cached_chain_head s) < 2 ^ 64 - 1"
    using assms by (simp_all add: backtest_ok_def)
  ultimately have n: "unat (to_block + 1) = unat (es_next_block s) + unat (batch_range s)"
    "unat (to_block + 1) \<le> unat (es_cached_chain_head s) + 1" "1 \<le> unat (batch_range s)"
    using batch_numbers [of s "batch_range s" to_block] by (simp_all add: to_block_def word_le_nat_alt)
  show ?thesis
    unfolding poll_batch_fetched [OF fetch bt] push
    using push_logs_frame [OF push] assms n by (auto simp: backtest_ok_def)
qed

lemma backtest_head:
  assumes env: "benign env head" and ok: "backtest_ok head s" and cold: "\<not> es_cold_start s"
  shows "\<exists>s' w'. refresh_head env (s, w) = (None, s', w') \<and> es_cfg s' = es_cfg s \<and>
     es_next_block s' = es_next_block s \<and> \<not> es_cold_start s' \<and> es_running s' \<and>
     es_cached_chain_head s' = ec_backtest_end_block (es_cfg s)"
proof (cases "es_cached_chain_head s = 0 \<or> es_next_block s > es_cached_chain_head s")
  case True
  obtain w' where "se_latestBlock env w = (Inr head, w')"
    using env by (cases "se_latestBlock env w") (metis benign_def fst_conv)
  with True show ?thesis
    using ok cold by (simp add: refresh_head_def backtest_ok_def Let_def min_absorb2)
next
  case False
  then show ?thesis using ok cold by (simp add: refresh_head_def backtest_ok_def)
qed

lemma backtest_iter:
  assumes env: "benign env head" and ok: "backtest_ok head s" and cold: "\<not> es_cold_start s"
    and next_le: "es_next_block s \<le> ec_backtest_end_block (es_cfg s)"
  shows "\<exists>s' w'. source_iter env False (s, w) = Some (False, s', w') \<and> backtest_ok head s' \<and> \<not> es_cold_start s' \<and>
     es_cfg s' = es_cfg s \<and> unat (es_next_block s) < unat (es_next_block s') \<and>
     unat (es_next_block s') \<le> unat (ec_backtest_end_block (es_cfg s)) + 1"
proof -
  obtain now w1 where hb: "(case es_heartbeat s of None \<Rightarrow> (0, w) | Some h \<Rightarrow> se_steady_ms env w) = (now, w1)"
    by fastforce
  define s1 where "s1 = s\<lparr>es_heartbeat := map_option (heartbeat_record now) (es_heartbeat s)\<rparr>"
  obtain s2 w2 where head: "refresh_head env (s1, w1) = (None, s2, w2)"
    and s2: "es_cached_chain_head s2 = ec_backtest_end_block (es_cfg s)" "es_cfg s2 = es_cfg s"
      "es_next_block s2 = es_next_block s" "\<not> es_cold_start s2" "es_running s2"
    using backtest_head [OF env, of s1 w1] ok cold by (auto simp: s1_def backtest_ok_def)
  have ok2: "backtest_ok head s2" using ok s2 by (simp add: backtest_ok_def)
  obtain b s' w' where batch: "poll_batch env (s2, w2) = Some (Inr b, s', w')" and s':
    "backtest_ok head s'" "\<not> es_cold_start s'" "es_cfg s' = es_cfg s2"
    "unat (es_next_block s2) < unat (es_next_block s')"
    "unat (es_next_block s') \<le> unat (ec_backtest_end_block (es_cfg s2)) + 1"
    using backtest_batch [OF env ok2 s2(4), of w2] s2 next_le by auto
  have not_past: "\<not> ec_backtest_end_block (es_cfg s) < es_next_block s" using next_le by (simp add: not_less)
  then have "poll_once env (s1, w1) = Some (Inr b, s', w')"
    using head batch s2 by (simp add: poll_once_def)
  then have "source_iter env False (s, w) = Some (False, s', w')"
    using hb ok not_past by (auto simp: source_iter_def Let_def backtest_ok_def simp flip: s1_def split: option.splits)
  with s' s2 show ?thesis by auto
qed

lemma backtest_runs:
  assumes "benign env head" and "backtest_ok head s" and "\<not> es_cold_start s"
    and "unat (es_next_block s) \<le> unat (ec_backtest_end_block (es_cfg s)) + 1"
  shows "\<exists>n s' w'. n \<le> unat (ec_backtest_end_block (es_cfg s)) + 2 - unat (es_next_block s) \<and>
     source_run env n (s, w) = Some (True, s', w') \<and>
     unat (es_next_block s') = unat (ec_backtest_end_block (es_cfg s)) + 1"
  using assms
proof (induction "unat (ec_backtest_end_block (es_cfg s)) + 1 - unat (es_next_block s)" arbitrary: s w
    rule: less_induct)
  case less
  let ?e = "unat (ec_backtest_end_block (es_cfg s))"
  show ?case
  proof (cases "es_next_block s > ec_backtest_end_block (es_cfg s)")
    case True
    then have "source_iter env False (s, w) = Some (True, s, w)"
      using less.prems(2) by (simp add: source_iter_def backtest_ok_def)
    moreover have "unat (es_next_block s) = ?e + 1"
      using True less.prems(4) by (simp add: word_less_nat_alt)
    ultimately show ?thesis by (intro exI [of _ 1] exI [of _ s] exI [of _ w]) simp
  next
    case False
    then obtain s1 w1 where step: "source_iter env False (s, w) = Some (False, s1, w1)" and s1:
      "backtest_ok head s1" "\<not> es_cold_start s1" "es_cfg s1 = es_cfg s"
      "unat (es_next_block s) < unat (es_next_block s1)" "unat (es_next_block s1) \<le> ?e + 1"
      using backtest_iter [OF less.prems(1-3), of w] by (auto simp: not_less)
    have "?e + 1 - unat (es_next_block s1) < ?e + 1 - unat (es_next_block s)" using s1(4,5) by linarith
    with less.hyps [of s1 w1] less.prems(1) s1 obtain n s' w' where
      "n \<le> ?e + 2 - unat (es_next_block s1)" "source_run env n (s1, w1) = Some (True, s', w')"
      "unat (es_next_block s') = ?e + 1"
      by auto
    then show ?thesis
      using step s1(4,5) by (intro exI [of _ "Suc n"] exI [of _ s'] exI [of _ w']) simp
  qed
qed

text \<open>What a successful poll has done to the cursor and the ring buffer.\<close>

lemma poll_advance:
  assumes "tracks env pushed" and "poll_once env (s, w) = Some (Inr behind, s', w')" and "\<not> es_cold_start s"
    and "ec_min_block_range (es_cfg s) = 1" and "1 \<le> ec_max_block_range (es_cfg s)"
    and "unat (es_cached_chain_head s') < 2 ^ 64 - 1"
  shows "es_next_block s' = es_next_block s \<and> pushed w' = pushed w \<and> \<not> behind \<or>
     (\<exists>to_block logs ts sigs w0 w1.
        se_getLogs env (es_next_block s) to_block w0 = (Inr logs, w1) \<and>
        es_next_block s \<le> to_block \<and> unat (es_next_block s') = unat to_block + 1 \<and>
        to_block \<le> es_cached_chain_head s' \<and>
        unat (es_next_block s') \<le> unat (es_next_block s) + unat (ec_max_block_range (es_cfg s)) \<and>
        pushed w' = pushed w @ sigs \<and> list_all2 (signal_of (es_chain_id s) ts) logs sigs \<and>
        (behind \<longleftrightarrow> es_next_block s' \<le> es_cached_chain_head s'))"
proof -
  from poll_once_ok [OF assms(1,2)] assms(3) consider
    (idle) "\<not> behind" "pushed w' = pushed w" "es_next_block s' = es_next_block s"
  | (batch) s1 w1 to_block where "es_next_block s1 = es_next_block s" "es_cfg s1 = es_cfg s"
      "es_chain_id s1 = es_chain_id s" "es_next_block s1 \<le> es_cached_chain_head s1"
      "es_cached_chain_head s' = es_cached_chain_head s1" "pushed w1 = pushed w"
      "batch_done env pushed s1 w1 to_block s' w'" "es_next_block s' = to_block + 1"
      "behind \<longleftrightarrow> to_block + 1 \<le> es_cached_chain_head s'"
    by blast
  then show ?thesis
  proof cases
    case idle
    then show ?thesis by simp
  next
    case batch
    from batch(7) obtain r logs ts sigs w0 w2 where r: "ec_min_block_range (es_cfg s1) \<le> r"
      "r \<le> batch_range s1" "to_block = es_next_block s1 + r - 1"
      "se_getLogs env (es_next_block s1) to_block w0 = (Inr logs, w2)"
      "pushed w' = pushed w1 @ sigs" "list_all2 (signal_of (es_chain_id s1) ts) logs sigs"
      unfolding batch_done_def by blast
    note n = batch_numbers [of s1 r to_block]
    have n': "unat (to_block + 1) = unat (es_next_block s1) + unat r"
      "unat (to_block + 1) \<le> unat (es_cached_chain_head s1) + 1"
      "unat r \<le> unat (ec_max_block_range (es_cfg s1))" "es_next_block s1 \<le> to_block"
      "unat to_block + 1 = unat (es_next_block s1) + unat r"
      using n batch(2,4,5) assms(4-6) r(1-3) by simp_all
    show ?thesis
      using batch n' r by (intro disjI2 exI [of _ to_block] exI [of _ logs] exI [of _ ts] exI [of _ sigs]
          exI [of _ w0] exI [of _ w2]) (auto simp: word_le_nat_alt)
  qed
qed

section \<open>Properties\<close>

text \<open>
  No block is skipped.  A poll that succeeds (after the cold start) either leaves the cursor
  and the ring buffer alone, or has fetched exactly the blocks from the cursor to a last block
  not beyond the head, at most the configured maximum, pushed the normalized signal of every
  log in order, and moved the cursor right behind them.
\<close>

theorem poll_advances_exactly:
  assumes "tracks env pushed" and "poll_once env (s, w) = Some (Inr behind, s', w')" and "\<not> es_cold_start s"
    and "ec_min_block_range (es_cfg s) = 1" and "1 \<le> ec_max_block_range (es_cfg s)"
    and "unat (es_cached_chain_head s') < 2 ^ 64 - 1"
  shows "es_next_block s' = es_next_block s \<and> pushed w' = pushed w \<and> \<not> behind \<or>
     (\<exists>to_block logs ts sigs w0 w1.
        se_getLogs env (es_next_block s) to_block w0 = (Inr logs, w1) \<and>
        es_next_block s \<le> to_block \<and> unat (es_next_block s') = unat to_block + 1 \<and>
        to_block \<le> es_cached_chain_head s' \<and>
        unat (es_next_block s') \<le> unat (es_next_block s) + unat (ec_max_block_range (es_cfg s)) \<and>
        pushed w' = pushed w @ sigs \<and> list_all2 (signal_of (es_chain_id s) ts) logs sigs \<and>
        (behind \<longleftrightarrow> es_next_block s' \<le> es_cached_chain_head s'))"
  using poll_advance [OF assms] .

definition list_env :: "RawLog list \<Rightarrow> Signal list source_env" where
  "list_env logs = \<lparr>se_latestBlock = (\<lambda>w. (Inr 10, w)), se_blockTimestamp = (\<lambda>b w. (Inr 5, w)),
     se_getLogs = (\<lambda>f t w. (Inr logs, w)), se_try_push = (\<lambda>ev w. (True, w @ [ev])),
     se_system_ms = (\<lambda>w. (0, w)), se_steady_ms = (\<lambda>w. (3, w)), se_stack = (\<lambda>w. replicate 32 0)\<rparr>"

definition sample_source :: "u64 \<Rightarrow> EventSource" where
  "sample_source end_block = \<lparr>es_cfg = \<lparr>ec_start_block = 4, ec_max_block_range = 1000, ec_min_block_range = 1,
       ec_backtest_end_block = end_block\<rparr>,
     es_chain_id = 1, es_running = True, es_next_block = 4, es_cold_start = False, es_cached_chain_head = 0,
     es_heartbeat = None, es_metrics = True, es_events_ingested = 0, es_signals_normalized = 0,
     es_ring_depth = 0, es_last_seen_block = 0, es_last_processed_block = 0\<rparr>"

lemma list_env_tracks: "tracks (list_env logs) (\<lambda>w. w)"
  by (simp add: tracks_def list_env_def)

lemma list_env_poll:
  "\<exists>s'. poll_once (list_env []) (sample_source 0, []) = Some (Inr False, s', []) \<and> es_cached_chain_head s' = 10"
  by (simp add: poll_once_def refresh_head_def list_env_def sample_source_def poll_batch_def Let_def
      fetch_logs.simps batch_timestamp_def)

theorem poll_advances_exactly_witness:
  "\<exists>s'. poll_once (list_env []) (sample_source 0, []) = Some (Inr False, s', []) \<and>
     unat (es_next_block s') \<le> 1004"
proof -
  obtain s' where s': "poll_once (list_env []) (sample_source 0, []) = Some (Inr False, s', [])"
    "es_cached_chain_head s' = 10"
    using list_env_poll by blast
  from poll_advances_exactly [OF list_env_tracks s'(1)] s'(2) show ?thesis
    using s'(1) by (auto simp: sample_source_def)
qed

text \<open>
  C34: delivery is at least once.  A poll that fails leaves the cursor where it was, so the whole
  range is fetched again; signals pushed before the failure stay in the ring buffer and are
  pushed a second time.
\<close>

theorem poll_failure_keeps_cursor:
  assumes "tracks env pushed" and "poll_once env (s, w) = Some (Inl e, s', w')"
  shows "es_next_block s' = es_next_block s \<and> (\<exists>sigs. pushed w' = pushed w @ sigs)"
  using assms by (rule poll_once_error)

theorem poll_failure_keeps_cursor_witness:
  "\<exists>e s'. poll_once ((list_env [])\<lparr>se_latestBlock := (\<lambda>w. (Inl (RuntimeError ''down''), w))\<rparr>)
       (sample_source 0, []) = Some (Inl e, s', []) \<and> es_next_block s' = 4"
proof -
  let ?env = "(list_env [])\<lparr>se_latestBlock := (\<lambda>w. (Inl (RuntimeError ''down''), w))\<rparr>"
  have tr: "tracks ?env (\<lambda>w. w)" by (simp add: tracks_def list_env_def)
  have poll: "poll_once ?env (sample_source 0, []) =
      Some (Inl (RuntimeError (''latestBlock failed: '' @ ''down'')), sample_source 0, [])"
    by (simp add: poll_once_def refresh_head_def sample_source_def)
  from poll_failure_keeps_cursor [OF tr poll] poll show ?thesis
    by (simp add: sample_source_def)
qed

text \<open>
  The retry search.  The halving of the range always ends; it either returns the logs of a
  range between the minimum and the first attempt, starting at the cursor, or reports a
  persistent failure.
\<close>

theorem range_retry_exact:
  assumes "m \<le> r"
  shows "case fetch_logs env nb m r w of
      (Inr (logs, to_block), w') \<Rightarrow> \<exists>r' w0. m \<le> r' \<and> r' \<le> r \<and> to_block = nb + r' - 1 \<and>
        se_getLogs env nb to_block w0 = (Inr logs, w')
    | (Inl e, w') \<Rightarrow> e = RuntimeError ''Persistent RPC failure even with min_range''"
  using fetch_logs_range [of env nb m r w] fetch_logs_error [of env nb m r w] assms
  by (auto split: prod.splits sum.splits)

theorem range_retry_exact_witness:
  "(1 :: u64) \<le> 8 \<and> fst (fetch_logs (list_env []) 5 1 8 []) = Inr ([], 12)"
  using range_retry_exact [where m = 1 and r = 8 and env = "list_env []" and nb = 5 and w = "[]"] by (simp add: fetch_logs.simps list_env_def)

text \<open>
  C35: a backtest ends and covers its range.  In an environment without faults, the loop reaches
  the block after the configured last block and exits, within at most one iteration per block
  of the range and two more.
\<close>

theorem backtest_terminates:
  assumes "benign env head" and "backtest_ok head s" and "\<not> es_cold_start s"
    and "es_next_block s \<le> ec_backtest_end_block (es_cfg s)"
  shows "\<exists>n s' w'. n \<le> unat (ec_backtest_end_block (es_cfg s)) + 2 - unat (es_next_block s) \<and>
     source_run env n (s, w) = Some (True, s', w') \<and>
     es_next_block s' = ec_backtest_end_block (es_cfg s) + 1"
proof -
  have "unat (es_next_block s) \<le> unat (ec_backtest_end_block (es_cfg s)) + 1"
    using assms(4) by (simp add: word_le_nat_alt)
  from backtest_runs [OF assms(1-3) this] obtain n s' w' where
    n: "n \<le> unat (ec_backtest_end_block (es_cfg s)) + 2 - unat (es_next_block s)"
      "source_run env n (s, w) = Some (True, s', w')"
      "unat (es_next_block s') = unat (ec_backtest_end_block (es_cfg s)) + 1"
    by blast
  have "unat (ec_backtest_end_block (es_cfg s) + 1) = unat (ec_backtest_end_block (es_cfg s)) + 1"
    using assms(2) by (subst unat_add_lem [THEN iffD1]) (auto simp: backtest_ok_def)
  with n show ?thesis by (metis word_unat_eq_iff)
qed

theorem backtest_terminates_witness:
  "\<exists>n s' w'. source_run (list_env []) n (sample_source 9, []) = Some (True, s', w') \<and> es_next_block s' = 10"
  using backtest_terminates [of "list_env []" 10 "sample_source 9" "[]"]
  by (simp add: benign_def list_env_def backtest_ok_def sample_source_def) blast

end
