(* ===== verification/Chain_Adapters.thy ===== *)
theory Chain_Adapters
  imports Event_Source Json
begin

text \<open>
  \<open>JsonRpcClient\<close> (\<open>rpc/JsonRpcClient.cpp\<close>) and the two chain adapters
  (\<open>chains/arbitrum/ArbitrumAdapter.cpp\<close>, \<open>chains/ethereum/EthereumAdapter.cpp\<close>).  libcurl and
  the JSON parser and printer are the record \<open>rpc_env\<close> over a world \<open>'w\<close>; the client's counters
  are part of the threaded state.  The lemmas show that the two adapters behave alike, what
  each request asks for, which responses are accepted, and which failures are counted.
\<close>

section \<open>Logs as JSON\<close>

text \<open>\<open>jlog.get<RawLog>()\<close>: every member is required.\<close>

definition rawlog_from_json :: "jvalue \<Rightarrow> RawLog result" where
  "rawlog_from_json j =
     bindE (bindE (jat j ''address'') jget_string) (\<lambda>address.
     bindE (bindE (jat j ''topics'') jget_strings) (\<lambda>topics.
     bindE (bindE (jat j ''data'') jget_string) (\<lambda>data.
     bindE (bindE (jat j ''blockNumber'') jget_string) (\<lambda>blockNumber.
     bindE (bindE (jat j ''transactionHash'') jget_string) (\<lambda>transactionHash.
     bindE (bindE (jat j ''logIndex'') jget_string) (\<lambda>logIndex.
     bindE (bindE (jat j ''transactionIndex'') jget_string) (\<lambda>transactionIndex.
     bindE (bindE (jat j ''removed'') jget_bool) (\<lambda>removed.
       Inr \<lparr>rl_address = address, rl_topics = topics, rl_data = data, rl_blockNumber = blockNumber,
            rl_transactionHash = transactionHash, rl_logIndex = logIndex,
            rl_transactionIndex = transactionIndex, rl_removed = removed\<rparr>))))))))"

text \<open>The writer that the same macro defines.\<close>

definition rawlog_to_json :: "RawLog \<Rightarrow> jvalue" where
  "rawlog_to_json l = J_obj
     [(''address'', J_str (rl_address l)), (''topics'', J_arr (map J_str (rl_topics l))),
      (''data'', J_str (rl_data l)), (''blockNumber'', J_str (rl_blockNumber l)),
      (''transactionHash'', J_str (rl_transactionHash l)), (''logIndex'', J_str (rl_logIndex l)),
      (''transactionIndex'', J_str (rl_transactionIndex l)), (''removed'', J_bool (rl_removed l))]"

section \<open>The JSON-RPC client\<close>

record 'w rpc_env =
  re_curl_init :: "'w \<Rightarrow> bool \<times> 'w"
  re_perform :: "string \<Rightarrow> string \<Rightarrow> 'w \<Rightarrow> (string + int \<times> string) \<times> 'w"
  re_now_s :: "'w \<Rightarrow> u64 \<times> 'w"
  re_parse :: "string \<Rightarrow> jvalue result"
  re_dump :: "jvalue \<Rightarrow> string"
  re_int_text :: "int \<Rightarrow> string"

record JsonRpcClient =
  jc_endpoint :: string
  jc_metrics :: bool
  jc_counters :: "(string \<times> nat) list"
  jc_histograms :: "(string \<times> nat) list"
  jc_last_success :: "u64 option"

definition rpc_methods :: "string list" where
  "rpc_methods = [''eth_getLogs'', ''eth_blockNumber'', ''eth_getBlockByNumber'', ''eth_chainId'']"

definition new_rpc_client :: "string \<Rightarrow> bool \<Rightarrow> JsonRpcClient result" where
  "new_rpc_client endpoint metrics =
     (if endpoint = [] then Inl (RuntimeError ''JsonRpcClient endpoint is empty'')
      else Inr \<lparr>jc_endpoint = endpoint, jc_metrics = metrics,
        jc_counters = (if metrics then [(m @ '':'' @ st, 0). m \<leftarrow> rpc_methods, st \<leftarrow> [''success'', ''error'']] else []),
        jc_histograms = (if metrics then [(m, 0). m \<leftarrow> rpc_methods] else []),
        jc_last_success = None\<rparr>)"

definition bump :: "string \<Rightarrow> (string \<times> nat) list \<Rightarrow> (string \<times> nat) list" where
  "bump k cs = (case map_of cs k of None \<Rightarrow> cs | Some n \<Rightarrow> AList.update k (n + 1) cs)"

definition count_rpc :: "string \<Rightarrow> string \<Rightarrow> JsonRpcClient \<Rightarrow> JsonRpcClient" where
  "count_rpc method status c = c\<lparr>jc_counters := bump (method @ '':'' @ status) (jc_counters c)\<rparr>"

definition rpc_request :: "string \<Rightarrow> jvalue \<Rightarrow> jvalue" where
  "rpc_request method params =
     J_obj [(''jsonrpc'', J_str ''2.0''), (''id'', J_num 1), (''method'', J_str method), (''params'', params)]"

text \<open>The checks on a response with status 200; the second component tells whether it is counted.\<close>

definition check_response :: "'w rpc_env \<Rightarrow> string \<Rightarrow> jvalue result \<times> bool" where
  "check_response env response =
     (case re_parse env response of
        Inl e \<Rightarrow> (Inl (RuntimeError (''JSON parse failed: '' @ what e @ '', response='' @ response)), False)
      | Inr j \<Rightarrow>
          if jcontains j ''error'' then
            (Inl (RuntimeError (''JSON-RPC error: '' @
               (case jat j ''error'' of Inr x \<Rightarrow> re_dump env x | Inl _ \<Rightarrow> []))), True)
          else if \<not> jcontains j ''result'' then
            (Inl (RuntimeError (''JSON-RPC response missing result field: '' @ re_dump env j)), True)
          else (Inr j, True))"

definition rpc_call ::
  "'w rpc_env \<Rightarrow> string \<Rightarrow> jvalue \<Rightarrow> JsonRpcClient \<times> 'w \<Rightarrow> jvalue result \<times> JsonRpcClient \<times> 'w" where
  "rpc_call env method params cw =
     (let (c, w) = cw; (init, w1) = re_curl_init env w in
      if \<not> init then (Inl (RuntimeError ''curl_easy_init failed''), count_rpc method ''error'' c, w1)
      else
        let (r, w2) = re_perform env (jc_endpoint c) (re_dump env (rpc_request method params)) w1 in
        case r of
          Inl err \<Rightarrow>
            (Inl (RuntimeError (''curl_easy_perform failed: '' @ err)), count_rpc method ''error'' c, w2)
        | Inr (code, response) \<Rightarrow>
            if code \<noteq> 200 then
              (Inl (RuntimeError (''JSON-RPC HTTP error: '' @ re_int_text env code @ '', response='' @ response)),
               count_rpc method ''error'' c, w2)
            else case check_response env response of
              (Inl e, counted) \<Rightarrow> (Inl e, if counted then count_rpc method ''error'' c else c, w2)
            | (Inr j, _) \<Rightarrow>
                if jc_metrics c then
                  (let (now, w3) = re_now_s env w2 in
                   (Inr j, (count_rpc method ''success'' c)
                      \<lparr>jc_last_success := Some now, jc_histograms := bump method (jc_histograms c)\<rparr>, w3))
                else (Inr j, c, w2))"

section \<open>The adapters\<close>

text \<open>
  \<open>std::stoull(text, nullptr, 16)\<close>: white space, sign, an optional second \<open>0x\<close>, the longest run of
  hexadecimal digits; the rest of the text is ignored.
\<close>

definition stoull16 :: "string \<Rightarrow> u64 result" where
  "stoull16 s =
     (let t = dropWhile is_space s;
          neg = (take 1 t = ''-'');
          u = (if take 1 t = ''-'' \<or> take 1 t = ''+'' then drop 1 t else t);
          v = (if (take 2 u = ''0x'' \<or> take 2 u = ''0X'') \<and> takeWhile is_hex_digit (drop 2 u) \<noteq> []
               then drop 2 u else u);
          digits = takeWhile is_hex_digit v in
      if digits = [] then Inl (InvalidArgument ''stoull'')
      else if hex_value digits \<ge> 2 ^ 64 then Inl (OutOfRange ''stoull'')
      else Inr (if neg then - word_of_nat (hex_value digits) else word_of_nat (hex_value digits)))"

definition parseHexU64 :: "string \<Rightarrow> u64 result" where
  "parseHexU64 hex =
     (if length hex < 3 \<or> take 2 hex \<noteq> ''0x'' then
        Inl (RuntimeError (''Expected 0x-prefixed hex string, got: '' @ hex))
      else stoull16 (drop 2 hex))"

type_synonym ('w, 'a) rpc_action = "JsonRpcClient \<times> 'w \<Rightarrow> 'a result \<times> JsonRpcClient \<times> 'w"

definition arbitrum_chainId :: "'w rpc_env \<Rightarrow> ('w, u64) rpc_action" where
  "arbitrum_chainId env cw =
     (case rpc_call env ''eth_chainId'' (J_arr []) cw of (r, cw') \<Rightarrow>
        (bindE r (\<lambda>res. if \<not> jcontains res ''result'' then Inl (RuntimeError ''eth_chainId: missing result field'')
           else bindE (bindE (jat res ''result'') jget_string) parseHexU64), cw'))"

definition arbitrum_latestBlock :: "'w rpc_env \<Rightarrow> ('w, u64) rpc_action" where
  "arbitrum_latestBlock env cw =
     (case rpc_call env ''eth_blockNumber'' (J_arr []) cw of (r, cw') \<Rightarrow>
        (bindE r (\<lambda>res. if \<not> jcontains res ''result'' then Inl (RuntimeError ''eth_blockNumber: missing result field'')
           else bindE (bindE (jat res ''result'') jget_string) parseHexU64), cw'))"

definition arbitrum_blockTimestamp :: "'w rpc_env \<Rightarrow> u64 \<Rightarrow> ('w, u64) rpc_action" where
  "arbitrum_blockTimestamp env block_number cw =
     (case rpc_call env ''eth_getBlockByNumber'' (J_arr [J_str (to_hex_quantity block_number), J_bool False]) cw of
        (r, cw') \<Rightarrow>
          (bindE r (\<lambda>res.
             if \<not> jcontains res ''result'' \<or> jat res ''result'' = Inr J_null then
               Inl (RuntimeError ''eth_getBlockByNumber: missing result'')
             else bindE (jat res ''result'') (\<lambda>result.
               if \<not> jcontains result ''timestamp'' then
                 Inl (RuntimeError ''eth_getBlockByNumber: missing timestamp'')
               else bindE (bindE (jat result ''timestamp'') jget_string) parseHexU64)), cw'))"

definition logs_filter :: "u64 \<Rightarrow> u64 \<Rightarrow> jvalue" where
  "logs_filter from_block to_block =
     J_arr [J_obj [(''fromBlock'', J_str (to_hex_quantity from_block)),
                   (''toBlock'', J_str (to_hex_quantity to_block))]]"

definition arbitrum_getLogs :: "'w rpc_env \<Rightarrow> u64 \<Rightarrow> u64 \<Rightarrow> ('w, RawLog list) rpc_action" where
  "arbitrum_getLogs env from_block to_block cw =
     (if to_block < from_block then (Inl (RuntimeError ''getLogs: to_block < from_block''), cw)
      else case rpc_call env ''eth_getLogs'' (logs_filter from_block to_block) cw of (r, cw') \<Rightarrow>
        (bindE r (\<lambda>res.
           case jat res ''result'' of
             Inr (J_arr arr) \<Rightarrow> mapE rawlog_from_json arr
           | _ \<Rightarrow> Inl (RuntimeError ''eth_getLogs: missing result array'')), cw'))"

definition ethereum_chainId :: "'w rpc_env \<Rightarrow> ('w, u64) rpc_action" where
  "ethereum_chainId env cw =
     (case rpc_call env ''eth_chainId'' (J_arr []) cw of (r, cw') \<Rightarrow>
        (bindE r (\<lambda>res. if \<not> jcontains res ''result'' then Inl (RuntimeError ''eth_chainId: missing result field'')
           else bindE (bindE (jat res ''result'') jget_string) parseHexU64), cw'))"

definition ethereum_latestBlock :: "'w rpc_env \<Rightarrow> ('w, u64) rpc_action" where
  "ethereum_latestBlock env cw =
     (case rpc_call env ''eth_blockNumber'' (J_arr []) cw of (r, cw') \<Rightarrow>
        (bindE r (\<lambda>res. if \<not> jcontains res ''result'' then Inl (RuntimeError ''eth_blockNumber: missing result field'')
           else bindE (bindE (jat res ''result'') jget_string) parseHexU64), cw'))"

definition ethereum_blockTimestamp :: "'w rpc_env \<Rightarrow> u64 \<Rightarrow> ('w, u64) rpc_action" where
  "ethereum_blockTimestamp env block_number cw =
     (case rpc_call env ''eth_getBlockByNumber'' (J_arr [J_str (to_hex_quantity block_number), J_bool False]) cw of
        (r, cw') \<Rightarrow>
          (bindE r (\<lambda>res.
             if \<not> jcontains res ''result'' \<or> jat res ''result'' = Inr J_null then
               Inl (RuntimeError ''eth_getBlockByNumber: missing result'')
             else bindE (jat res ''result'') (\<lambda>result.
               if \<not> jcontains result ''timestamp'' then
                 Inl (RuntimeError ''eth_getBlockByNumber: missing timestamp'')
               else bindE (bindE (jat result ''timestamp'') jget_string) parseHexU64)), cw'))"

definition ethereum_getLogs :: "'w rpc_env \<Rightarrow> u64 \<Rightarrow> u64 \<Rightarrow> ('w, RawLog list) rpc_action" where
  "ethereum_getLogs env from_block to_block cw =
     (if to_block < from_block then (Inl (RuntimeError ''getLogs: to_block < from_block''), cw)
      else case rpc_call env ''eth_getLogs'' (logs_filter from_block to_block) cw of (r, cw') \<Rightarrow>
        (bindE r (\<lambda>res.
           case jat res ''result'' of
             Inr (J_arr arr) \<Rightarrow> mapE rawlog_from_json arr
           | _ \<Rightarrow> Inl (RuntimeError ''eth_getLogs: missing result array'')), cw'))"


section \<open>Reading what a node writes\<close>

lemma mapE_map: "mapE f (map g xs) = mapE (\<lambda>x. f (g x)) xs"
  by (induction xs) simp_all

lemma mapE_Inr [simp]: "mapE (\<lambda>x. Inr (h x)) xs = Inr (map h xs)"
  by (induction xs) simp_all

lemma rawlog_json_round_trip [simp]: "rawlog_from_json (rawlog_to_json l) = Inr l"
  by (simp add: rawlog_from_json_def rawlog_to_json_def jat_def jget_string_def jget_strings_def
      jget_bool_def mapE_map)

lemma hex_digit_not_special:
  assumes "is_hex_digit c"
  shows "\<not> is_space c" and "c \<noteq> CHR ''-''" and "c \<noteq> CHR ''+''" and "c \<noteq> CHR ''x''" and "c \<noteq> CHR ''X''"
proof -
  have n: "48 \<le> (of_char c :: nat) \<and> (of_char c :: nat) \<le> 57 \<or> 97 \<le> (of_char c :: nat) \<and> (of_char c :: nat) \<le> 102
      \<or> 65 \<le> (of_char c :: nat) \<and> (of_char c :: nat) \<le> 70"
    using assms by (auto simp: is_hex_digit_def hex_nibble_def less_eq_char_def split: if_splits)
  then show "\<not> is_space c" by (auto simp: is_space_def)
  show "c \<noteq> CHR ''-''" "c \<noteq> CHR ''+''" "c \<noteq> CHR ''x''" "c \<noteq> CHR ''X''" using n by auto
qed

lemma hex_run: "list_all is_hex_digit s \<Longrightarrow> takeWhile is_hex_digit s = s"
  by (induction s) simp_all

text \<open>On a digit string the lenient parser agrees with the strict one, overflow apart.\<close>

lemma stoull16_digits:
  assumes "list_all is_hex_digit s" and "s \<noteq> []"
  shows "stoull16 s = (if hex_value s < 2 ^ 64 then Inr (word_of_nat (hex_value s)) else Inl (OutOfRange ''stoull''))"
proof -
  obtain c cs where s: "s = c # cs" using assms(2) by (cases s) auto
  note c = hex_digit_not_special [of c]
  have x: "\<not> (take 2 s = ''0x'' \<or> take 2 s = ''0X'')"
    using assms(1) hex_digit_not_special [of "hd cs"] unfolding s by (cases cs) auto
  have t: "dropWhile is_space s = s" "take 1 s \<noteq> ''-''" "take 1 s \<noteq> ''+''"
    using assms(1) c unfolding s by auto
  show ?thesis
    unfolding stoull16_def Let_def t(1)
    using t(2,3) x assms(2) hex_run [OF assms(1)] by (auto simp del: takeWhile_eq_all_conv)
qed

lemma parseHexU64_quantity [simp]: "parseHexU64 (to_hex_quantity w) = Inr w"
proof -
  have "list_all is_hex_digit (hex_digits (unat w))"
    using hex_digits_digits by (auto simp: list_all_iff)
  moreover have "hex_digits (unat w) \<noteq> []" by (subst hex_digits.simps) simp
  moreover have "unat w < 2 ^ 64" using unsigned_less [of w] by simp
  ultimately have "stoull16 (hex_digits (unat w)) = Inr w" by (simp add: stoull16_digits)
  moreover have "\<not> length (to_hex_quantity w) < 3"
    using \<open>hex_digits (unat w) \<noteq> []\<close> by (cases "hex_digits (unat w)") (auto simp: to_hex_quantity_def)
  ultimately show ?thesis by (simp add: parseHexU64_def to_hex_quantity_def)
qed


section \<open>The client's counters\<close>

definition rpc_count :: "string \<Rightarrow> string \<Rightarrow> JsonRpcClient \<Rightarrow> nat" where
  "rpc_count method status c = (case map_of (jc_counters c) (method @ '':'' @ status) of None \<Rightarrow> 0 | Some n \<Rightarrow> n)"

definition counted :: "string \<Rightarrow> JsonRpcClient \<Rightarrow> bool" where
  "counted method c \<longleftrightarrow> (\<forall>status\<in>{''success'', ''error''}. map_of (jc_counters c) (method @ '':'' @ status) \<noteq> None)"

lemma map_of_bump: "map_of (bump k cs) k' = (if k' = k then map_option Suc (map_of cs k) else map_of cs k')"
  by (simp add: bump_def update_conv' split: option.splits)

lemma rpc_count_count_rpc:
  "counted method c \<Longrightarrow> status \<in> {''success'', ''error''} \<Longrightarrow>
   rpc_count method status' (count_rpc method status c) =
     rpc_count method status' c + (if status' = status then 1 else 0)"
  by (auto simp: rpc_count_def count_rpc_def counted_def map_of_bump split: option.splits)

lemma rpc_count_other [simp]:
  "rpc_count m st (c\<lparr>jc_last_success := x\<rparr>) = rpc_count m st c"
  "rpc_count m st (c\<lparr>jc_histograms := y\<rparr>) = rpc_count m st c"
  by (simp_all add: rpc_count_def)

text \<open>A client built with metrics counts every method the adapters use.\<close>

lemma new_rpc_client_counted:
  "new_rpc_client endpoint True = Inr c \<Longrightarrow> method \<in> set rpc_methods \<Longrightarrow> counted method c"
  by (auto simp: new_rpc_client_def counted_def rpc_methods_def split: if_splits)


text \<open>When a call returns: the transport worked, and the response has a result and no error.\<close>

lemma rpc_call_ok_iff:
  "(\<exists>cw'. rpc_call env method params (c, w) = (Inr j, cw')) \<longleftrightarrow>
   fst (re_curl_init env w) \<and>
   (\<exists>response. fst (re_perform env (jc_endpoint c) (re_dump env (rpc_request method params))
        (snd (re_curl_init env w))) = Inr (200, response) \<and>
      re_parse env response = Inr j \<and> \<not> jcontains j ''error'' \<and> jcontains j ''result'')"
  by (auto simp: rpc_call_def Let_def case_prod_unfold check_response_def split: sum.splits prod.splits if_splits)

definition parse_failure :: "'w rpc_env \<Rightarrow> exn \<Rightarrow> bool" where
  "parse_failure env e \<longleftrightarrow> (\<exists>response x. re_parse env response = Inl x \<and>
     e = RuntimeError (''JSON parse failed: '' @ what x @ '', response='' @ response))"

lemma rpc_call_counts:
  assumes "counted method c" and "jc_metrics c" and "rpc_call env method params (c, w) = (r, c', w')"
  shows "r = Inr j \<Longrightarrow> rpc_count method ''success'' c' = rpc_count method ''success'' c + 1 \<and>
       rpc_count method ''error'' c' = rpc_count method ''error'' c \<and> (\<exists>now. jc_last_success c' = Some now)"
    and "r = Inl e \<Longrightarrow> c' = (if parse_failure env e then c else count_rpc method ''error'' c)"
proof -
  have count: "rpc_count method st (count_rpc method st' c) = rpc_count method st c + (if st = st' then 1 else 0)"
    if "st' \<in> {''success'', ''error''}" for st st'
    using rpc_count_count_rpc [OF assms(1) that] .
  show "r = Inr j \<Longrightarrow> rpc_count method ''success'' c' = rpc_count method ''success'' c + 1 \<and>
       rpc_count method ''error'' c' = rpc_count method ''error'' c \<and> (\<exists>now. jc_last_success c' = Some now)"
    using assms(2,3)
    by (auto simp: rpc_call_def Let_def case_prod_unfold count split: sum.splits prod.splits if_splits)
  show "r = Inl e \<Longrightarrow> c' = (if parse_failure env e then c else count_rpc method ''error'' c)"
    using assms(3)
    by (auto simp: rpc_call_def check_response_def Let_def case_prod_unfold parse_failure_def
        split: sum.splits prod.splits if_splits)
qed

section \<open>The adapter interface\<close>

text \<open>
  \<open>ChainAdapter\<close> (\<open>chains/ChainAdapter.hpp\<close>) is the interface the event source is written against.
  What it promises, for a node that answers: quantities and logs are read back exactly as the
  node encoded them, and an empty block range is refused without asking the node.
\<close>

definition node_answers ::
  "'w rpc_env \<Rightarrow> string \<Rightarrow> jvalue \<Rightarrow> jvalue \<Rightarrow> JsonRpcClient \<times> 'w \<Rightarrow> JsonRpcClient \<times> 'w \<Rightarrow> bool" where
  "node_answers env method params result cw cw' \<longleftrightarrow>
     (\<exists>j. rpc_call env method params cw = (Inr j, cw') \<and> jat j ''result'' = Inr result)"

text \<open>The event source's environment over an adapter (world \<open>'c\<close>) and a ring buffer with clocks (world \<open>'q\<close>).\<close>

definition on_fst :: "('c \<Rightarrow> 'a \<times> 'c) \<Rightarrow> 'c \<times> 'q \<Rightarrow> 'a \<times> 'c \<times> 'q" where
  "on_fst f cq = (case f (fst cq) of (r, c) \<Rightarrow> (r, c, snd cq))"

definition on_snd :: "('q \<Rightarrow> 'a \<times> 'q) \<Rightarrow> 'c \<times> 'q \<Rightarrow> 'a \<times> 'c \<times> 'q" where
  "on_snd f cq = (case f (snd cq) of (r, q) \<Rightarrow> (r, fst cq, q))"

record 'q ring_env =
  rg_try_push :: "Signal \<Rightarrow> 'q \<Rightarrow> bool \<times> 'q"
  rg_system_ms :: "'q \<Rightarrow> u64 \<times> 'q"
  rg_steady_ms :: "'q \<Rightarrow> u64 \<times> 'q"
  rg_stack :: "'q \<Rightarrow> bytes"

definition adapter_env ::
  "('c \<Rightarrow> u64 result \<times> 'c) \<Rightarrow> (u64 \<Rightarrow> 'c \<Rightarrow> u64 result \<times> 'c) \<Rightarrow>
   (u64 \<Rightarrow> u64 \<Rightarrow> 'c \<Rightarrow> RawLog list result \<times> 'c) \<Rightarrow> 'q ring_env \<Rightarrow> ('c \<times> 'q) source_env" where
  "adapter_env latestBlock blockTimestamp getLogs ring =
     \<lparr>se_latestBlock = on_fst latestBlock, se_blockTimestamp = (\<lambda>b. on_fst (blockTimestamp b)),
      se_getLogs = (\<lambda>f t. on_fst (getLogs f t)), se_try_push = (\<lambda>ev. on_snd (rg_try_push ring ev)),
      se_system_ms = on_snd (rg_system_ms ring), se_steady_ms = on_snd (rg_steady_ms ring),
      se_stack = (\<lambda>cq. rg_stack ring (snd cq))\<rparr>"

text \<open>A ring buffer with room: every push is accepted and appended, the clocks leave it alone.\<close>

definition roomy :: "'q ring_env \<Rightarrow> ('q \<Rightarrow> Signal list) \<Rightarrow> bool" where
  "roomy ring pushed \<longleftrightarrow>
     (\<forall>ev q. fst (rg_try_push ring ev q) \<and> pushed (snd (rg_try_push ring ev q)) = pushed q @ [ev]) \<and>
     (\<forall>q. pushed (snd (rg_system_ms ring q)) = pushed q) \<and> (\<forall>q. pushed (snd (rg_steady_ms ring q)) = pushed q)"

lemma adapter_env_tracks: "roomy ring pushed \<Longrightarrow> tracks (adapter_env l b g ring) (\<lambda>cq. pushed (snd cq))"
  by (simp add: tracks_def roomy_def adapter_env_def on_fst_def on_snd_def case_prod_unfold)

lemma adapter_push_blocking_frame:
  "push_blocking (adapter_env l b g ring) ev (c, q) = Some w' \<Longrightarrow> roomy ring pushed \<Longrightarrow> fst w' = c"
  by (subst (asm) push_blocking.simps) (auto simp: adapter_env_def on_snd_def case_prod_unfold roomy_def)

lemma adapter_steady: "se_steady_ms (adapter_env l b g ring) (c, q) =
   (fst (rg_steady_ms ring q), c, snd (rg_steady_ms ring q))"
  by (simp add: adapter_env_def on_snd_def case_prod_unfold)

lemma adapter_push_frame:
  assumes "push_logs (adapter_env l b g ring) ts logs (s, c, q) = Some (e, s', c', q')" and "roomy ring pushed"
  shows "c' = c"
  using assms(1)
proof (induction logs arbitrary: s c q)
  case (Cons raw raws)
  show ?case
    using Cons.prems
    by (auto simp: case_prod_unfold Let_def adapter_steady split: sum.splits option.splits
        dest!: Cons.IH adapter_push_blocking_frame [OF _ assms(2), of l b g])
qed simp

locale chain_adapter =
  fixes env :: "'w rpc_env"
    and latestBlock :: "('w, u64) rpc_action"
    and blockTimestamp :: "u64 \<Rightarrow> ('w, u64) rpc_action"
    and getLogs :: "u64 \<Rightarrow> u64 \<Rightarrow> ('w, RawLog list) rpc_action"
  assumes reads_head: "node_answers env ''eth_blockNumber'' (J_arr []) (J_str (to_hex_quantity n)) cw cw' \<Longrightarrow>
      latestBlock cw = (Inr n, cw')"
    and reads_timestamp: "node_answers env ''eth_getBlockByNumber'' (J_arr [J_str (to_hex_quantity b), J_bool False])
      block cw cw' \<Longrightarrow> jat block ''timestamp'' = Inr (J_str (to_hex_quantity t)) \<Longrightarrow> blockTimestamp b cw = (Inr t, cw')"
    and reads_logs: "f \<le> to_block \<Longrightarrow>
      node_answers env ''eth_getLogs'' (logs_filter f to_block) (J_arr (map rawlog_to_json logs)) cw cw' \<Longrightarrow>
      getLogs f to_block cw = (Inr logs, cw')"
    and refuses_empty: "to_block < f \<Longrightarrow> \<exists>e. getLogs f to_block cw = (Inl e, cw)"
begin

text \<open>The first fetch of a batch succeeds on the whole range.\<close>

lemma fetches_range:
  assumes "f \<le> f + r - 1"
    and "node_answers env ''eth_getLogs'' (logs_filter f (f + r - 1)) (J_arr (map rawlog_to_json logs)) cw cw'"
  shows "fetch_logs (adapter_env latestBlock blockTimestamp getLogs ring) f m r (cw, q) =
     (Inr (logs, f + r - 1), cw', q)"
  using reads_logs [OF assms] by (simp add: fetch_logs.simps adapter_env_def on_fst_def)

lemma reads_batch_timestamp:
  assumes "node_answers env ''eth_getBlockByNumber'' (J_arr [J_str (to_hex_quantity b), J_bool False]) block cw cw'"
    and "jat block ''timestamp'' = Inr (J_str (to_hex_quantity t))"
  shows "batch_timestamp (adapter_env latestBlock blockTimestamp getLogs ring) b (cw, q) = (t * 1000, cw', q)"
  using reads_timestamp [OF assms] by (simp add: batch_timestamp_def adapter_env_def on_fst_def)

lemma delivers_batch:
  assumes ring: "roomy ring pushed"
    and range: "es_next_block s \<le> es_next_block s + batch_range s - 1"
    and logs: "node_answers env ''eth_getLogs'' (logs_filter (es_next_block s) (es_next_block s + batch_range s - 1))
       (J_arr (map rawlog_to_json logs)) cw cw1" "list_all raw_ok logs"
    and block: "node_answers env ''eth_getBlockByNumber''
       (J_arr [J_str (to_hex_quantity (es_next_block s + batch_range s - 1)), J_bool False]) block cw1 cw2"
       "jat block ''timestamp'' = Inr (J_str (to_hex_quantity t))"
  shows "\<exists>s' q' sigs behind.
     poll_batch (adapter_env latestBlock blockTimestamp getLogs ring) (s, cw, q) = Some (Inr behind, s', cw2, q') \<and>
     es_next_block s' = es_next_block s + batch_range s \<and> pushed q' = pushed q @ sigs \<and>
     list_all2 (signal_of (es_chain_id s) (t * 1000)) logs sigs"
proof -
  let ?env = "adapter_env latestBlock blockTimestamp getLogs ring"
  let ?s1 = "s\<lparr>es_events_ingested := es_events_ingested s + (if es_metrics s then length logs else 0)\<rparr>"
  note fetch = fetches_range [OF range logs(1)] and ts = reads_batch_timestamp [OF block]
  have "\<forall>ev w. fst (se_try_push ?env ev w)"
    using ring by (simp add: adapter_env_def on_snd_def case_prod_unfold roomy_def)
  from push_logs_total [OF this logs(2)] obtain s2 c q' where
    push: "push_logs ?env (t * 1000) logs (?s1, cw2, q) = Some (None, s2, c, q')" by (metis surj_pair)
  have "c = cw2" using adapter_push_frame [OF push ring] by simp
  then show ?thesis
    using push_logs_pushes [OF adapter_env_tracks [OF ring] push] push_logs_frame [OF push] push
    unfolding poll_batch_fetched [OF fetch ts] by (auto simp: algebra_simps)
qed

end

interpretation arbitrum: chain_adapter env "arbitrum_latestBlock env" "arbitrum_blockTimestamp env" "arbitrum_getLogs env"
  for env
  by unfold_locales
     (auto simp: node_answers_def arbitrum_latestBlock_def arbitrum_blockTimestamp_def arbitrum_getLogs_def
        jat_jcontains jget_string_def mapE_map not_less)

interpretation ethereum: chain_adapter env "ethereum_latestBlock env" "ethereum_blockTimestamp env" "ethereum_getLogs env"
  for env
  by unfold_locales
     (auto simp: node_answers_def ethereum_latestBlock_def ethereum_blockTimestamp_def ethereum_getLogs_def
        jat_jcontains jget_string_def mapE_map not_less)


section \<open>Properties\<close>

text \<open>
  C14: from the node to the ring buffer.  Over either adapter and a node that answers the
  three requests of a batch with the JSON encoding of its logs and of the block, one batch of
  the event source pushes, in order, one normalized signal per log the node holds in the
  requested range, stamped with the block's time in milliseconds, and moves the cursor behind
  the range.
\<close>

theorem node_logs_delivered:
  assumes "(latest, timestamp, logs_of) \<in>
      {(arbitrum_latestBlock env, arbitrum_blockTimestamp env, arbitrum_getLogs env),
       (ethereum_latestBlock env, ethereum_blockTimestamp env, ethereum_getLogs env)}"
    and "roomy ring pushed" and "list_all raw_ok logs"
    and "es_next_block s \<le> es_next_block s + batch_range s - 1"
    and "node_answers env ''eth_getLogs'' (logs_filter (es_next_block s) (es_next_block s + batch_range s - 1))
      (J_arr (map rawlog_to_json logs)) cw cw1"
    and "node_answers env ''eth_getBlockByNumber''
      (J_arr [J_str (to_hex_quantity (es_next_block s + batch_range s - 1)), J_bool False]) block cw1 cw2"
    and "jat block ''timestamp'' = Inr (J_str (to_hex_quantity t))"
  shows "\<exists>s' q' sigs behind.
     poll_batch (adapter_env latest timestamp logs_of ring) (s, cw, q) = Some (Inr behind, s', cw2, q') \<and>
     es_next_block s' = es_next_block s + batch_range s \<and> pushed q' = pushed q @ sigs \<and>
     list_all2 (signal_of (es_chain_id s) (t * 1000)) logs sigs"
  using assms(1)
    arbitrum.delivers_batch [OF assms(2,4,5,3,6,7), of q] ethereum.delivers_batch [OF assms(2,4,5,3,6,7), of q]
  by auto

definition list_ring :: "Signal list ring_env" where
  "list_ring = \<lparr>rg_try_push = (\<lambda>ev q. (True, q @ [ev])), rg_system_ms = (\<lambda>q. (0, q)),
     rg_steady_ms = (\<lambda>q. (7, q)), rg_stack = (\<lambda>q. replicate 32 0)\<rparr>"

text \<open>A node with one log; requests are told apart by their method.\<close>

definition sample_node :: "RawLog list \<Rightarrow> unit rpc_env" where
  "sample_node logs = \<lparr>re_curl_init = (\<lambda>w. (True, w)), re_perform = (\<lambda>url body w. (Inr (200, body), w)),
     re_now_s = (\<lambda>w. (9, w)),
     re_parse = (\<lambda>body. Inr (J_obj [(''result'',
        if body = ''eth_getLogs'' then J_arr (map rawlog_to_json logs)
        else J_obj [(''timestamp'', J_str ''0x64'')])])),
     re_dump = (\<lambda>j. case jat j ''method'' of Inr (J_str m) \<Rightarrow> m | _ \<Rightarrow> []),
     re_int_text = (\<lambda>i. [])\<rparr>"

definition sample_client :: JsonRpcClient where
  "sample_client = \<lparr>jc_endpoint = ''http://node'', jc_metrics = False, jc_counters = [], jc_histograms = [],
     jc_last_success = None\<rparr>"

theorem node_logs_delivered_witness:
  "\<exists>s' q' sigs behind.
     poll_batch (adapter_env (arbitrum_latestBlock (sample_node [sample_transfer]))
        (arbitrum_blockTimestamp (sample_node [sample_transfer])) (arbitrum_getLogs (sample_node [sample_transfer])) list_ring)
       ((sample_source 0)\<lparr>es_cached_chain_head := 6\<rparr>, (sample_client, ()), []) =
       Some (Inr behind, s', (sample_client, ()), q') \<and>
     es_next_block s' = 7 \<and> q' = sigs \<and> list_all2 (signal_of 1 100000) [sample_transfer] sigs"
proof -
  let ?s = "(sample_source 0)\<lparr>es_cached_chain_head := 6\<rparr>" and ?env = "sample_node [sample_transfer]"
  have r: "batch_range ?s = 3" "es_next_block ?s = 4" "es_chain_id ?s = 1"
    by (simp_all add: batch_range_def sample_source_def)
  have logs: "node_answers ?env ''eth_getLogs'' p (J_arr (map rawlog_to_json [sample_transfer]))
      (sample_client, ()) (sample_client, ())"
    and block: "node_answers ?env ''eth_getBlockByNumber'' p (J_obj [(''timestamp'', J_str ''0x64'')])
      (sample_client, ()) (sample_client, ())" for p
    by (simp_all add: node_answers_def rpc_call_def sample_node_def sample_client_def rpc_request_def jat_def
        check_response_def jcontains_def)
  have ring: "roomy list_ring (\<lambda>q. q)" by (simp add: roomy_def list_ring_def)
  have t: "jat (J_obj [(''timestamp'', J_str ''0x64'')]) ''timestamp'' = Inr (J_str (to_hex_quantity 100))"
    by code_simp
  show ?thesis
    using node_logs_delivered [where env = ?env and s = ?s and q = "[]",
        OF insertI1 ring _ _ logs block t] sample_ok
    by (simp add: r)
qed


text \<open>
  The accounting of remote calls.  A client built with metrics counts every call of an
  adapter's method exactly once: as a success, with the time of success recorded, when it
  returns, and as an error when it throws, unless the response is not JSON, which is counted
  nowhere.
\<close>

theorem rpc_calls_counted:
  assumes "counted method c" and "jc_metrics c" and "rpc_call env method params (c, w) = (r, c', w')"
  shows "case r of
      Inr j \<Rightarrow> rpc_count method ''success'' c' = rpc_count method ''success'' c + 1 \<and>
        rpc_count method ''error'' c' = rpc_count method ''error'' c \<and> jc_last_success c' \<noteq> None
    | Inl e \<Rightarrow> rpc_count method ''success'' c' = rpc_count method ''success'' c \<and>
        jc_last_success c' = jc_last_success c \<and>
        rpc_count method ''error'' c' = rpc_count method ''error'' c +
          (if parse_failure env e then 0 else 1)"
proof (cases r)
  case (Inr j)
  then show ?thesis using rpc_call_counts(1) [OF assms Inr] by auto
next
  case (Inl e)
  have "jc_last_success (count_rpc method ''error'' c) = jc_last_success c" by (simp add: count_rpc_def)
  then show ?thesis using rpc_call_counts(2) [OF assms Inl] assms(1) Inl by (simp add: rpc_count_count_rpc)
qed


definition garbled_node :: "unit rpc_env" where
  "garbled_node = (sample_node [])\<lparr>re_parse := (\<lambda>body. Inl (JsonError ''parse_error''))\<rparr>"

definition counting_client :: JsonRpcClient where
  "counting_client = (case new_rpc_client ''http://node'' True of Inr c \<Rightarrow> c)"

theorem rpc_calls_counted_witness:
  "(let (r, c', w') = rpc_call (sample_node []) ''eth_blockNumber'' (J_arr []) (counting_client, ()) in
     rpc_count ''eth_blockNumber'' ''success'' c' = 1) \<and>
   (let (r, c', w') = rpc_call garbled_node ''eth_blockNumber'' (J_arr []) (counting_client, ()) in
     rpc_count ''eth_blockNumber'' ''error'' c' = 0)"
proof -
  have c: "counted ''eth_blockNumber'' counting_client" "jc_metrics counting_client"
    by code_simp+
  have z: "rpc_count ''eth_blockNumber'' ''success'' counting_client = 0"
    "rpc_count ''eth_blockNumber'' ''error'' counting_client = 0"
    by code_simp+
  obtain r c' w' where ok: "rpc_call (sample_node []) ''eth_blockNumber'' (J_arr []) (counting_client, ()) = (r, c', w')"
    by (metis prod_cases3)
  obtain r2 c2 w2 where bad: "rpc_call garbled_node ''eth_blockNumber'' (J_arr []) (counting_client, ()) = (r2, c2, w2)"
    by (metis prod_cases3)
  have "\<exists>j. r = Inr j"
    using ok by (simp add: rpc_call_def sample_node_def rpc_request_def jat_def check_response_def jcontains_def c(2))
      (auto simp: jcontains_def)
  moreover have "\<exists>e. r2 = Inl e \<and> parse_failure garbled_node e"
    using bad by (auto simp: rpc_call_def garbled_node_def sample_node_def check_response_def parse_failure_def)
  ultimately show ?thesis
    using rpc_calls_counted [OF c ok] rpc_calls_counted [OF c bad] z ok bad by auto
qed

end
