(* ===== verification/Health.thy ===== *)
theory Health
  imports Heartbeat
begin

text \<open>
  \<open>health/health_checks.cpp\<close> and the request handlers of \<open>health/health_server.cpp\<close>: the readiness
  report over the three pipeline heartbeats, the database probe and the time of the last
  successful remote call.  The clock readings are arguments; the two \<open>std::function\<close> inputs are
  the value they return at the call, or \<open>None\<close> when they are empty.
\<close>

section \<open>Definitions\<close>

record CheckResult =
  cr_ok :: bool
  cr_detail :: string

record HealthChecksConfig =
  hc_heartbeat_max_age_ms :: u64
  hc_rpc_max_silence_ms :: u64

record HealthCheckInputs =
  hi_event_source :: "Heartbeat option"
  hi_risk_engine :: "Heartbeat option"
  hi_dispatcher :: "Heartbeat option"
  hi_rpc_last_success_unix_s :: "u64 option"
  hi_db_probe :: "bool option"

record ReadinessReport =
  rr_ready :: bool
  rr_checks :: "(string \<times> CheckResult) list"

definition check_hb :: "u64 \<Rightarrow> HealthChecksConfig \<Rightarrow> Heartbeat option \<times> string \<Rightarrow> CheckResult \<Rightarrow> CheckResult" where
  "check_hb now_ms cfg hn r =
     (case hn of
        (None, name) \<Rightarrow> r\<lparr>cr_ok := False, cr_detail := cr_detail r @ name @ '' heartbeat missing; ''\<rparr>
      | (Some hb, name) \<Rightarrow>
          (let age = age_ms now_ms hb in
           if age > hc_heartbeat_max_age_ms cfg then
             r\<lparr>cr_ok := False, cr_detail := cr_detail r @ name @ '' stale ('' @ to_string age @ ''ms); ''\<rparr>
           else r))"

definition check_recorded :: "Heartbeat option \<times> string \<Rightarrow> CheckResult \<Rightarrow> CheckResult" where
  "check_recorded hn r =
     (case hn of
        (None, name) \<Rightarrow> r\<lparr>cr_ok := False, cr_detail := cr_detail r @ name @ '' not yet recorded; ''\<rparr>
      | (Some hb, name) \<Rightarrow>
          if last_ms hb = 0 then r\<lparr>cr_ok := False, cr_detail := cr_detail r @ name @ '' not yet recorded; ''\<rparr>
          else r)"

definition trim_detail :: "CheckResult \<Rightarrow> CheckResult" where
  "trim_detail r = (if cr_detail r \<noteq> [] \<and> last (cr_detail r) = CHR '' '' then r\<lparr>cr_detail := butlast (cr_detail r)\<rparr> else r)"

definition hb_inputs :: "HealthCheckInputs \<Rightarrow> (Heartbeat option \<times> string) list" where
  "hb_inputs inputs = [(hi_event_source inputs, ''event_source''), (hi_risk_engine inputs, ''risk_engine''),
     (hi_dispatcher inputs, ''dispatcher'')]"

definition threads_alive :: "u64 \<Rightarrow> HealthChecksConfig \<Rightarrow> HealthCheckInputs \<Rightarrow> CheckResult" where
  "threads_alive now_ms cfg inputs =
     trim_detail (fold (check_hb now_ms cfg) (hb_inputs inputs) \<lparr>cr_ok = True, cr_detail = []\<rparr>)"

definition db_connected :: "HealthCheckInputs \<Rightarrow> CheckResult" where
  "db_connected inputs =
     (let ok = (case hi_db_probe inputs of None \<Rightarrow> False | Some b \<Rightarrow> b) in
      \<lparr>cr_ok = ok, cr_detail = (if ok then [] else ''DB probe failed'')\<rparr>)"

definition rpc_recent :: "u64 \<Rightarrow> HealthChecksConfig \<Rightarrow> HealthCheckInputs \<Rightarrow> CheckResult" where
  "rpc_recent now_s cfg inputs =
     (case hi_rpc_last_success_unix_s inputs of
        None \<Rightarrow> \<lparr>cr_ok = True, cr_detail = []\<rparr>
      | Some last_s \<Rightarrow>
          if last_s = 0 then \<lparr>cr_ok = True, cr_detail = ''no RPC calls yet''\<rparr>
          else
            (let silence_s = (if now_s \<ge> last_s then now_s - last_s else 0);
                 max_silence_s = hc_rpc_max_silence_ms cfg div 1000 in
             if silence_s \<ge> max_silence_s then
               \<lparr>cr_ok = False, cr_detail = ''last RPC success '' @ to_string silence_s @ ''s ago''\<rparr>
             else \<lparr>cr_ok = True, cr_detail = []\<rparr>))"

definition heartbeats_recorded :: "HealthCheckInputs \<Rightarrow> CheckResult" where
  "heartbeats_recorded inputs =
     trim_detail (fold check_recorded (hb_inputs inputs) \<lparr>cr_ok = True, cr_detail = []\<rparr>)"

definition add_check :: "string \<Rightarrow> CheckResult \<Rightarrow> ReadinessReport \<Rightarrow> ReadinessReport" where
  "add_check name r report =
     report\<lparr>rr_checks := AList.update name r (rr_checks report), rr_ready := rr_ready report \<and> cr_ok r\<rparr>"

definition evaluate_readiness ::
  "u64 \<Rightarrow> u64 \<Rightarrow> HealthCheckInputs \<Rightarrow> HealthChecksConfig \<Rightarrow> ReadinessReport" where
  "evaluate_readiness now_ms now_s inputs cfg =
     (let report = \<lparr>rr_ready = True, rr_checks = []\<rparr>;
          report = add_check ''threads_alive'' (threads_alive now_ms cfg inputs) report;
          report = add_check ''db_connected'' (db_connected inputs) report;
          report = add_check ''rpc_recent'' (rpc_recent now_s cfg inputs) report in
      add_check ''heartbeats_recorded'' (heartbeats_recorded inputs) report)"

definition evaluate_liveness :: CheckResult where
  "evaluate_liveness = \<lparr>cr_ok = True, cr_detail = []\<rparr>"

text \<open>The two request handlers: status code, and the body resp.\ the report that is dumped as JSON.\<close>

definition healthz :: "nat \<times> string" where
  "healthz = (let r = evaluate_liveness in if cr_ok r then (200, ''OK'') else (503, cr_detail r))"

definition readyz :: "u64 \<Rightarrow> u64 \<Rightarrow> HealthCheckInputs \<Rightarrow> HealthChecksConfig \<Rightarrow> nat \<times> ReadinessReport" where
  "readyz now_ms now_s inputs cfg =
     (let report = evaluate_readiness now_ms now_s inputs cfg in
      (if rr_ready report then 200 else 503, report))"

text \<open>\<open>std::stoi\<close>: white space, an optional sign, digits; the value must fit in 32 bits.\<close>

definition stoi :: "string \<Rightarrow> int result" where
  "stoi s =
     (let t = dropWhile is_space s;
          digits = takeWhile is_dec_digit (if take 1 t = ''-'' \<or> take 1 t = ''+'' then drop 1 t else t);
          v = (if take 1 t = ''-'' then - int (dec_value digits) else int (dec_value digits)) in
      if digits = [] then Inl (InvalidArgument ''stoi'')
      else if v < - (2 ^ 31) \<or> v \<ge> 2 ^ 31 then Inl (OutOfRange ''stoi'')
      else Inr v)"

text \<open>\<open>addr.rfind(':')\<close> splits at the last colon.\<close>

definition parse_address :: "string \<Rightarrow> (string \<times> int) result" where
  "parse_address addr =
     (let after = rev (takeWhile (\<lambda>c. c \<noteq> CHR '':'') (rev addr)) in
      if CHR '':'' \<notin> set addr \<or> length after + 1 = length addr then
        Inl (RuntimeError (''HealthServer: invalid listen_address: '' @ addr))
      else bindE (stoi after) (\<lambda>port. Inr (take (length addr - length after - 1) addr, port)))"

text \<open>
  The server object: its configuration and, when its thread runs, the address that the thread
  listens on.  A thread that cannot bind the address only logs.
\<close>

record HealthServer =
  hs_listen_address :: string
  hs_checks :: HealthChecksConfig
  hs_thread :: "(string \<times> int) option"

definition default_checks :: HealthChecksConfig where
  "default_checks = \<lparr>hc_heartbeat_max_age_ms = 5000, hc_rpc_max_silence_ms = 120000\<rparr>"

definition new_health_server :: "string \<Rightarrow> HealthServer" where
  "new_health_server listen_address =
     \<lparr>hs_listen_address = listen_address, hs_checks = default_checks, hs_thread = None\<rparr>"

definition health_start :: "HealthServer \<Rightarrow> HealthServer result" where
  "health_start s = bindE (parse_address (hs_listen_address s)) (\<lambda>addr. Inr (s\<lparr>hs_thread := Some addr\<rparr>))"

definition health_stop :: "HealthServer \<Rightarrow> HealthServer" where
  "health_stop s = s\<lparr>hs_thread := None\<rparr>"

section \<open>Lemmas\<close>

definition hb_fresh :: "u64 \<Rightarrow> u64 \<Rightarrow> Heartbeat option \<Rightarrow> bool" where
  "hb_fresh now_ms max_age h = (case h of None \<Rightarrow> False
     | Some hb \<Rightarrow> hb_last_ms hb \<noteq> 0 \<and> unat now_ms - unat (hb_last_ms hb) \<le> unat max_age)"

lemma trim_detail_ok [simp]: "cr_ok (trim_detail r) = cr_ok r"
  by (simp add: trim_detail_def)

lemma check_hb_ok: "cr_ok (check_hb now cfg hn r) \<longleftrightarrow>
   cr_ok r \<and> (case fst hn of None \<Rightarrow> False | Some hb \<Rightarrow> age_ms now hb \<le> hc_heartbeat_max_age_ms cfg)"
  by (auto simp: check_hb_def Let_def split: prod.splits option.splits)

lemma check_recorded_ok: "cr_ok (check_recorded hn r) \<longleftrightarrow>
   cr_ok r \<and> (case fst hn of None \<Rightarrow> False | Some hb \<Rightarrow> hb_last_ms hb \<noteq> 0)"
  by (auto simp: check_recorded_def last_ms_def split: prod.splits option.splits)

lemma fresh_iff:
  "(case h of None \<Rightarrow> False | Some hb \<Rightarrow> age_ms now hb \<le> max_age) \<and>
   (case h of None \<Rightarrow> False | Some hb \<Rightarrow> hb_last_ms hb \<noteq> 0) \<longleftrightarrow> hb_fresh now max_age h"
  by (auto simp: hb_fresh_def word_le_nat_alt age_ms_correct split: option.splits)

lemma rpc_recent_ok: "cr_ok (rpc_recent now_s cfg inputs) \<longleftrightarrow>
   (case hi_rpc_last_success_unix_s inputs of None \<Rightarrow> True
    | Some last_s \<Rightarrow> last_s = 0 \<or> unat now_s - unat last_s < unat (hc_rpc_max_silence_ms cfg) div 1000)"
  by (auto simp: rpc_recent_def Let_def word_le_nat_alt unat_div unat_sub not_le split: option.splits)

lemma stoi_to_string:
  assumes "unat w < 2 ^ 31"
  shows "stoi (to_string w) = Inr (int (unat w))"
proof -
  obtain c cs where s: "to_string w = c # cs" by (cases "to_string w") (auto dest: to_string_nonempty [THEN notE])
  have digits: "is_dec_digit c" "\<forall>x\<in>set cs. is_dec_digit x"
    using to_string_digits [of _ w] by (auto simp: s)
  then have run: "takeWhile is_dec_digit cs = cs" by (simp add: takeWhile_eq_all_conv)
  have "dec_value (c # cs) = unat w" by (simp flip: s add: to_string_def)
  moreover have "int (unat w) < int (2 ^ 31)" using assms by (simp only: of_nat_less_iff)
  then have "uint w < 2147483648" "\<not> uint w < - 2147483648" using uint_ge_0 [of w] by (simp, linarith)
  ultimately show ?thesis
    using digits digit_not_special [of c] assms unfolding s by (simp add: stoi_def Let_def run)
qed

section \<open>Properties\<close>

text \<open>
  C40: readiness.  The endpoint answers 200 exactly when each of the three pipeline threads has
  ticked at least once and not longer ago than the limit, the database probe succeeds, and the
  last successful remote call, if there was one, is younger than the limit in whole seconds;
  it answers 503 otherwise.
\<close>

theorem readiness_exact:
  "fst (readyz now_ms now_s inputs cfg) =
     (if hb_fresh now_ms (hc_heartbeat_max_age_ms cfg) (hi_event_source inputs) \<and>
         hb_fresh now_ms (hc_heartbeat_max_age_ms cfg) (hi_risk_engine inputs) \<and>
         hb_fresh now_ms (hc_heartbeat_max_age_ms cfg) (hi_dispatcher inputs) \<and>
         hi_db_probe inputs = Some True \<and>
         (case hi_rpc_last_success_unix_s inputs of None \<Rightarrow> True
          | Some last_s \<Rightarrow> last_s = 0 \<or> unat now_s - unat last_s < unat (hc_rpc_max_silence_ms cfg) div 1000)
      then 200 else 503)"
proof -
  have "rr_ready (evaluate_readiness now_ms now_s inputs cfg) \<longleftrightarrow>
    cr_ok (threads_alive now_ms cfg inputs) \<and> cr_ok (db_connected inputs) \<and>
    cr_ok (rpc_recent now_s cfg inputs) \<and> cr_ok (heartbeats_recorded inputs)"
    by (simp add: evaluate_readiness_def add_check_def Let_def)
  moreover have "cr_ok (db_connected inputs) \<longleftrightarrow> hi_db_probe inputs = Some True"
    by (auto simp: db_connected_def Let_def split: option.splits)
  moreover have "cr_ok (threads_alive now_ms cfg inputs) \<and> cr_ok (heartbeats_recorded inputs) \<longleftrightarrow>
    hb_fresh now_ms (hc_heartbeat_max_age_ms cfg) (hi_event_source inputs) \<and>
    hb_fresh now_ms (hc_heartbeat_max_age_ms cfg) (hi_risk_engine inputs) \<and>
    hb_fresh now_ms (hc_heartbeat_max_age_ms cfg) (hi_dispatcher inputs)"
    by (auto simp: threads_alive_def heartbeats_recorded_def check_hb_ok check_recorded_ok hb_inputs_def
        simp flip: fresh_iff)
  ultimately show ?thesis
    by (auto simp: readyz_def Let_def rpc_recent_ok)
qed

text \<open>
  The listen address.  A non-empty host and a port written in decimal are read back from
  \<open>host:port\<close>, whatever the host contains (an IPv6 host with colons included).
\<close>

theorem listen_address_parsed:
  assumes "host \<noteq> []" and "unat (port :: u32) < 2 ^ 31"
  shows "parse_address (host @ '':'' @ to_string port) = Inr (host, int (unat port))"
proof -
  have "takeWhile (\<lambda>c. c \<noteq> CHR '':'') (rev (to_string port) @ CHR '':'' # rev host) = rev (to_string port)"
    using to_string_digits [of "CHR '':''" port]
    by (subst takeWhile_append2) (auto simp: is_dec_digit_nat)
  then show ?thesis
    using assms stoi_to_string [of port] by (simp add: parse_address_def Let_def)
qed

theorem listen_address_parsed_witness:
  "parse_address (''0.0.0.0'' @ '':'' @ to_string (8081 :: u32)) = Inr (''0.0.0.0'', 8081)"
  using listen_address_parsed [of "''0.0.0.0''" 8081] by simp

end
