(* ===== verification/Checkpoint_Store.thy ===== *)
theory Checkpoint_Store
  imports Sentinel_Prelude
begin

text \<open>
  \<open>DbCheckpointStore\<close> (\<open>db_checkpoint_store.cpp\<close>): the table \<open>checkpoints\<close> with one row per chain.
  Each operation is one transaction; \<open>fault\<close> is the exception the database library throws inside
  it, if any, and a transaction that throws is rolled back.  The column is a signed \<open>BIGINT\<close>, the
  block number an unsigned 64-bit integer; the casts between the two are written out.  The locale
  \<open>block_store\<close> is what the program may rely on.
\<close>

section \<open>Definitions\<close>

text \<open>The table, absent before \<open>CREATE TABLE IF NOT EXISTS\<close>.\<close>

type_synonym checkpoints = "(string \<times> int) list option"

definition as_long_long :: "u64 \<Rightarrow> int" where
  "as_long_long n = sint n"

definition ensure_schema :: "exn option \<Rightarrow> checkpoints \<Rightarrow> unit result \<times> checkpoints" where
  "ensure_schema fault db =
     (case fault of Some e \<Rightarrow> (Inl e, db)
      | None \<Rightarrow> (Inr (), Some (case db of None \<Rightarrow> [] | Some rows \<Rightarrow> rows)))"

definition undefined_table :: exn where
  "undefined_table = RuntimeError ''relation checkpoints does not exist''"

definition get_or_init_checkpoint :: "exn option \<Rightarrow> string \<Rightarrow> checkpoints \<Rightarrow> u64 result \<times> checkpoints" where
  "get_or_init_checkpoint fault chain db =
     (case fault of Some e \<Rightarrow> (Inl e, db)
      | None \<Rightarrow>
          (case db of None \<Rightarrow> (Inl undefined_table, db)
           | Some rows \<Rightarrow>
               (case map_of rows chain of
                  Some v \<Rightarrow> (Inr (word_of_int v), db)
                | None \<Rightarrow> (Inr 0, Some (rows @ [(chain, 0)])))))"

definition upsert_checkpoint :: "exn option \<Rightarrow> string \<Rightarrow> u64 \<Rightarrow> checkpoints \<Rightarrow> unit result \<times> checkpoints" where
  "upsert_checkpoint fault chain last_block db =
     (case fault of Some e \<Rightarrow> (Inl e, db)
      | None \<Rightarrow>
          (case db of None \<Rightarrow> (Inl undefined_table, db)
           | Some rows \<Rightarrow> (Inr (), Some (AList.update chain (as_long_long last_block) rows))))"

text \<open>The primary key and the range of the column.\<close>

definition table_ok :: "checkpoints \<Rightarrow> bool" where
  "table_ok db \<longleftrightarrow> (case db of None \<Rightarrow> True
     | Some rows \<Rightarrow> distinct (map fst rows) \<and> list_all (\<lambda>(_, v). - (2 ^ 63) \<le> v \<and> v < 2 ^ 63) rows)"

text \<open>The block a chain resumes from.\<close>

definition stored_block :: "checkpoints \<Rightarrow> string \<Rightarrow> u64" where
  "stored_block db chain =
     (case db of None \<Rightarrow> 0 | Some rows \<Rightarrow> (case map_of rows chain of None \<Rightarrow> 0 | Some v \<Rightarrow> word_of_int v))"

section \<open>The contract of a store\<close>

locale block_store =
  fixes ensure :: "exn option \<Rightarrow> 's \<Rightarrow> unit result \<times> 's"
    and get :: "exn option \<Rightarrow> string \<Rightarrow> 's \<Rightarrow> u64 result \<times> 's"
    and put :: "exn option \<Rightarrow> string \<Rightarrow> u64 \<Rightarrow> 's \<Rightarrow> unit result \<times> 's"
    and inv :: "'s \<Rightarrow> bool" and ready :: "'s \<Rightarrow> bool" and at :: "'s \<Rightarrow> string \<Rightarrow> u64"
  assumes ensure_fault: "ensure (Some e) s = (Inl e, s)"
    and ensure_ok: "inv s \<Longrightarrow> \<exists>s'. ensure None s = (Inr (), s') \<and> inv s' \<and> ready s' \<and> at s' = at s"
    and get_fault: "get (Some e) c s = (Inl e, s)"
    and get_ok: "inv s \<Longrightarrow> ready s \<Longrightarrow> \<exists>s'. get None c s = (Inr (at s c), s') \<and> inv s' \<and> ready s' \<and> at s' = at s"
    and put_fault: "put (Some e) c n s = (Inl e, s)"
    and put_ok: "inv s \<Longrightarrow> ready s \<Longrightarrow> \<exists>s'. put None c n s = (Inr (), s') \<and> inv s' \<and> ready s' \<and> at s' = (at s)(c := n)"
begin

text \<open>What was written last is read back, by every chain.\<close>

lemma read_back:
  assumes "inv s" and "ready s"
  shows "fst (get None c' (snd (put None c n s))) = Inr (if c' = c then n else at s c')"
proof -
  from put_ok [OF assms, of c n] obtain s' where s': "put None c n s = (Inr (), s')" "inv s'" "ready s'" "at s' = (at s)(c := n)"
    by blast
  from get_ok [OF s'(2,3), of c'] obtain s'' where "get None c' s' = (Inr (at s' c'), s'')" by blast
  with s' show ?thesis by simp
qed

text \<open>Start-up: the schema, then the checkpoint.\<close>

lemma start_up:
  assumes "inv s"
  shows "fst (get None c (snd (ensure None s))) = Inr (at s c)"
    and "at (snd (get None c (snd (ensure None s)))) = at s"
proof -
  from ensure_ok [OF assms] obtain s' where s': "ensure None s = (Inr (), s')" "inv s'" "ready s'" "at s' = at s" by blast
  from get_ok [OF s'(2,3), of c] obtain s'' where "get None c s' = (Inr (at s' c), s'')" "at s'' = at s'" by blast
  with s' show "fst (get None c (snd (ensure None s))) = Inr (at s c)"
    "at (snd (get None c (snd (ensure None s)))) = at s" by simp_all
qed

end

lemma long_long_round_trip [simp]: "word_of_int (as_long_long n) = n"
  by (simp add: as_long_long_def)

lemma long_long_range: "- (2 ^ 63) \<le> as_long_long n" "as_long_long n < 2 ^ 63"
  using sint_ge [of n] sint_lt [of n] by (simp_all add: as_long_long_def)

lemma distinct_AList_update: "distinct (map fst rows) \<Longrightarrow> distinct (map fst (AList.update k v rows))"
  by (rule distinct_update)

lemma list_all_AList_update: "list_all P rows \<Longrightarrow> P (k, v) \<Longrightarrow> list_all P (AList.update k v rows)"
  by (induction rows) auto

interpretation checkpoint_store: block_store ensure_schema get_or_init_checkpoint upsert_checkpoint
  table_ok "\<lambda>db. db \<noteq> None" stored_block
proof (unfold_locales, goal_cases)
  case (2 s)
  then show ?case by (cases s) (auto simp: ensure_schema_def table_ok_def stored_block_def fun_eq_iff)
next
  case (4 s c)
  then show ?case
    by (auto simp: get_or_init_checkpoint_def table_ok_def stored_block_def fun_eq_iff map_add_def
        dom_map_of_conv_image_fst [symmetric] domIff split: option.splits)
next
  case (6 s c n)
  then show ?case
    by (auto simp: upsert_checkpoint_def table_ok_def stored_block_def fun_eq_iff long_long_range [simplified]
        distinct_AList_update intro!: list_all_AList_update split: option.splits)
qed (simp_all add: ensure_schema_def get_or_init_checkpoint_def upsert_checkpoint_def)

section \<open>Properties\<close>

text \<open>
  A checkpoint survives the signed column.  After \<open>upsert_checkpoint\<close> the stored block of the
  chain is read back unchanged for every unsigned 64-bit number, those above \<open>2 ^ 63\<close> that the
  column holds as negative numbers included, and the checkpoints of the other chains are as
  before.
\<close>

theorem checkpoint_read_back:
  assumes "table_ok db" and "db \<noteq> None"
  shows "fst (get_or_init_checkpoint None chain' (snd (upsert_checkpoint None chain n db))) =
     Inr (if chain' = chain then n else stored_block db chain')"
  using assms by (rule checkpoint_store.read_back)

theorem checkpoint_read_back_witness:
  "fst (get_or_init_checkpoint None ''ethereum'' (snd (upsert_checkpoint None ''ethereum'' 0xFFFFFFFFFFFFFFFF
     (Some [(''arbitrum'', 5)])))) = Inr 0xFFFFFFFFFFFFFFFF"
  using checkpoint_read_back [of "Some [(''arbitrum'', 5)]" "''ethereum''" "''ethereum''" "0xFFFFFFFFFFFFFFFF"]
  by (simp add: table_ok_def)

end
