(* ===== verification/App_Modules.thy ===== *)
theory App_Modules
  imports Config_Loaders Alert_Dispatcher Chain_Adapters Health Checkpoint_Store "HOL-Library.Monad_Syntax"
begin

text \<open>
  The start-up of \<open>App\<close> (\<open>app/app.hpp\<close>, \<open>app/app.cpp\<close>): the object with its members, the connection
  loop, the construction of the modules and the registration of the rules.  A module pointer is
  an option; an exception leaves the members as they are at that moment.  The database's answers,
  the environment variables, the JSON library, OpenSSL, libcurl and the metrics exposer are the
  record \<open>app_env\<close>.  The lemmas show what the engine and the dispatcher are after a successful
  start-up, for every content of the database.
\<close>

section \<open>The object\<close>

record AppConfig =
  cfg_chain :: string
  cfg_database_url :: string
  cfg_rpc_url :: string
  cfg_event_source :: EventSourceConfig
  cfg_debug :: bool
  cfg_readiness_file :: string
  cfg_shutdown_drain_timeout :: u64
  cfg_metrics_listen_address :: string
  cfg_health_listen_address :: string

definition default_event_source_config :: EventSourceConfig where
  "default_event_source_config =
     \<lparr>ec_start_block = 0, ec_max_block_range = 1000, ec_min_block_range = 1, ec_backtest_end_block = 0\<rparr>"

definition default_app_config :: AppConfig where
  "default_app_config =
     \<lparr>cfg_chain = [], cfg_database_url = [], cfg_rpc_url = [], cfg_event_source = default_event_source_config,
      cfg_debug = False, cfg_readiness_file = ''/tmp/sentinel.ready'', cfg_shutdown_drain_timeout = 5000,
      cfg_metrics_listen_address = ''0.0.0.0:8080'', cfg_health_listen_address = ''0.0.0.0:8081''\<rparr>"

datatype adapter = ArbitrumAdapter | EthereumAdapter

record App =
  app_cfg :: AppConfig
  app_customer_id_to_key :: customer_map
  app_token_addresses_to_symbols :: token_map
  app_governance_rules :: governance_map
  app_mint_burn_rules :: mint_burn_map
  app_approval_rules :: approval_map
  app_bridge :: BridgeTransferRule
  app_oracle_configs :: oracle_map
  app_customer_webhooks :: webhook_map
  app_stopped :: bool
  app_conn :: "bool option"
  app_health_server :: "HealthServer option"
  app_metrics :: bool
  app_ring_buffer :: bool
  app_rpc :: "JsonRpcClient option"
  app_adapter :: "adapter option"
  app_event_source :: "EventSource option"
  app_dispatcher :: "AlertDispatcher option"
  app_risk_engine :: "RiskEngine option"
  app_rules :: rule_store

definition new_app :: "AppConfig \<Rightarrow> App" where
  "new_app cfg =
     \<lparr>app_cfg = cfg, app_customer_id_to_key = [], app_token_addresses_to_symbols = [],
      app_governance_rules = [], app_mint_burn_rules = [], app_approval_rules = [],
      app_bridge = empty_bridge, app_oracle_configs = [], app_customer_webhooks = [],
      app_stopped = False, app_conn = None, app_health_server = None, app_metrics = False,
      app_ring_buffer = False, app_rpc = None, app_adapter = None, app_event_source = None,
      app_dispatcher = None, app_risk_engine = None, app_rules = []\<rparr>"

section \<open>What the object reads from outside\<close>

text \<open>The answers of the database to the queries of the loaders.\<close>

record app_queries =
  q_large_transfer :: "large_transfer_row list result"
  q_governance :: "governance_row list result"
  q_mint_burn :: "mint_burn_row list result"
  q_approval :: "approval_row list result"
  q_bridge_contracts :: "bridge_contract_row list result"
  q_bridge_rules :: "customer_bridge_row list result"
  q_oracle :: "oracle_row list result"
  q_customers :: "customer_row list result"
  q_webhooks :: "webhook_row list result"

text \<open>
  \<open>av_connect i\<close> is the outcome of the \<open>i\<close>-th attempt to connect: an exception, or whether the
  connection is open; \<open>av_schema_fault\<close> and \<open>av_checkpoint_fault\<close> are exceptions inside the two
  transactions of the checkpoint store; \<open>av_exposer\<close> what the constructor of the metrics throws.
\<close>

record 'w app_env =
  av_connect :: "nat \<Rightarrow> bool result"
  av_schema_fault :: "exn option"
  av_checkpoint_fault :: "exn option"
  av_getenv :: "string \<Rightarrow> string option"
  av_parse_json :: "string \<Rightarrow> jvalue result"
  av_ssl :: openssl
  av_exposer :: "string \<Rightarrow> exn option"
  av_rpc :: "'w rpc_env"
  av_queries :: app_queries

section \<open>Database\<close>

text \<open>
  \<open>catch (const std::exception &)\<close> does not catch the text that the hexadecimal helpers throw.
\<close>

definition is_std_exception :: "exn \<Rightarrow> bool" where
  "is_std_exception e = (case e of LiteralThrown _ \<Rightarrow> False | _ \<Rightarrow> True)"

text \<open>The retry loop; \<open>i\<close> counts the attempts made, the result is \<open>conn_\<close> and that count.\<close>

primrec connect_loop :: "(nat \<Rightarrow> bool result) \<Rightarrow> nat \<Rightarrow> nat \<Rightarrow> bool option \<Rightarrow> bool option \<times> nat" where
  "connect_loop connect 0 i conn = (conn, i)"
| "connect_loop connect (Suc retries) i conn =
     (case connect i of
        Inl e \<Rightarrow> connect_loop connect retries (Suc i) conn
      | Inr is_open \<Rightarrow> if is_open then (Some True, Suc i) else connect_loop connect retries (Suc i) (Some False))"

definition init_db :: "'w app_env \<Rightarrow> App \<Rightarrow> checkpoints \<Rightarrow> bool \<times> App \<times> checkpoints" where
  "init_db env app db =
     (if cfg_database_url (app_cfg app) = [] then (False, app, db)
      else
        let conn = fst (connect_loop (av_connect env) 15 0 (app_conn app));
            app1 = app\<lparr>app_conn := conn\<rparr> in
        if conn \<noteq> Some True then (False, app1, db)
        else case ensure_schema (av_schema_fault env) db of
          (Inl e, db1) \<Rightarrow> (False, app1, db1)
        | (Inr _, db1) \<Rightarrow>
            (case get_or_init_checkpoint (av_checkpoint_fault env) (cfg_chain (app_cfg app)) db1 of
               (Inl e, db2) \<Rightarrow> (False, app1, db2)
             | (Inr last_block, db2) \<Rightarrow>
                 (True, app1\<lparr>app_cfg := (app_cfg app1)\<lparr>cfg_event_source :=
                    (cfg_event_source (app_cfg app1))\<lparr>ec_start_block := last_block\<rparr>\<rparr>\<rparr>, db2)))"
section \<open>Modules\<close>

definition adapter_for :: "string \<Rightarrow> adapter option" where
  "adapter_for chain =
     (if chain = ''arbitrum'' then Some ArbitrumAdapter
      else if chain = ''ethereum'' then Some EthereumAdapter else None)"

primrec adapter_chainId :: "adapter \<Rightarrow> 'w rpc_env \<Rightarrow> ('w, u64) rpc_action" where
  "adapter_chainId ArbitrumAdapter = arbitrum_chainId"
| "adapter_chainId EthereumAdapter = ethereum_chainId"

text \<open>From the ring buffer to the event source, whose constructor asks the node for its chain.\<close>

definition init_pipeline :: "'w app_env \<Rightarrow> App \<Rightarrow> 'w \<Rightarrow> exn option \<times> App \<times> 'w" where
  "init_pipeline env app w =
     (let cfg = app_cfg app; app1 = app\<lparr>app_ring_buffer := True\<rparr> in
      if cfg_rpc_url cfg = [] then (Some (RuntimeError ''RPC_URL is empty''), app1, w)
      else case av_exposer env (cfg_metrics_listen_address cfg) of
        Some e \<Rightarrow> (Some e, app1, w)
      | None \<Rightarrow>
          let app2 = app1\<lparr>app_metrics := True\<rparr> in
          case new_rpc_client (cfg_rpc_url cfg) True of
            Inl e \<Rightarrow> (Some e, app2, w)
          | Inr client \<Rightarrow>
              (case adapter_for (cfg_chain cfg) of
                 None \<Rightarrow> (Some (RuntimeError (''Unknown chain: '' @ cfg_chain cfg)), app2\<lparr>app_rpc := Some client\<rparr>, w)
               | Some ad \<Rightarrow>
                   (case new_event_source (adapter_chainId ad (av_rpc env)) (cfg_event_source cfg) True
                           (Some new_heartbeat) (client, w) of
                      (r, client', w') \<Rightarrow>
                        let app3 = app2\<lparr>app_rpc := Some client', app_adapter := Some ad\<rparr> in
                        case r of Inl e \<Rightarrow> (Some e, app3, w')
                        | Inr es \<Rightarrow> (None, app3\<lparr>app_event_source := Some es\<rparr>, w'))))"

text \<open>The loaders, in the order of the calls.\<close>

definition load_configs :: "'w app_env \<Rightarrow> App \<Rightarrow> App" where
  "load_configs env app =
     (let q = av_queries env in
      app\<lparr>app_customer_id_to_key := load_customer_map (q_customers q) (app_customer_id_to_key app),
          app_token_addresses_to_symbols := load_token_map (app_token_addresses_to_symbols app),
          app_governance_rules := load_governance_configs (q_governance q) (app_governance_rules app),
          app_mint_burn_rules := load_mint_burn_configs (q_mint_burn q) (app_mint_burn_rules app),
          app_approval_rules := load_approval_configs (q_approval q) (app_approval_rules app),
          app_bridge := load_bridge_configs (q_bridge_contracts q) (q_bridge_rules q) (app_bridge app),
          app_oracle_configs := load_oracle_configs (q_oracle q) (app_oracle_configs app),
          app_customer_webhooks := load_webhook_channels (av_ssl env) (av_getenv env ''SENTINEL_SECRET_MASTER_KEY'')
            (q_webhooks q) (app_customer_webhooks app)\<rparr>)"

definition dedup_cfg :: DeduplicatorConfig where
  "dedup_cfg =
     \<lparr>dc_default_window_ms = 60000,
      dc_per_rule_window_ms =
        [(''large_transfer'', 60000), (''governance'', 3600000), (''mint_burn'', 60000),
         (''approval'', 300000), (''bridge_transfer'', 60000), (''oracle_update'', 300000)],
      dc_cleanup_every_n_alerts = 100\<rparr>"

definition rule_types :: "string list" where
  "rule_types = [''large_transfer'', ''governance'', ''mint_burn'', ''approval'', ''bridge_transfer'', ''oracle_update'']"

text \<open>
  \<open>add_channel\<close> asserts that the dispatcher does not run yet; a failed assertion would leave this
  function (it never does, see \<open>init_dispatcher_some\<close>).
\<close>

definition telegram_channel :: "'w app_env \<Rightarrow> App \<Rightarrow> Channel option" where
  "telegram_channel env app =
     (case (av_getenv env ''TELEGRAM_BOT_TOKEN'', av_getenv env ''TELEGRAM_CHAT_ID'') of
        (Some bot_token, Some chat_id) \<Rightarrow>
          Some (C_Telegram \<lparr>tg_bot_token = bot_token, tg_chat_id = chat_id,
            tg_customer_map = Some (app_customer_id_to_key app),
            tg_token_map = Some (app_token_addresses_to_symbols app)\<rparr>)
      | _ \<Rightarrow> None)"

definition init_dispatcher :: "'w app_env \<Rightarrow> App \<Rightarrow> App option" where
  "init_dispatcher env app =
     do { d1 \<leftarrow> add_channel (Some C_Console)
            (new_dispatcher (app_metrics app) dedup_cfg rule_types (Some new_heartbeat));
          d2 \<leftarrow> (case telegram_channel env app of None \<Rightarrow> Some d1 | Some ch \<Rightarrow> add_channel (Some ch) d1);
          if app_customer_webhooks app = [] then Some (app\<lparr>app_dispatcher := Some d2\<rparr>)
          else do { d3 \<leftarrow> add_channel (Some (C_Webhook (app_customer_webhooks app))) d2;
                    Some (app\<lparr>app_dispatcher := Some d3, app_customer_webhooks := []\<rparr>) } }"

definition init_modules :: "'w app_env \<Rightarrow> App \<Rightarrow> 'w \<Rightarrow> (exn option \<times> App \<times> 'w) option" where
  "init_modules env app w =
     (case init_pipeline env app w of
        (Some e, app1, w') \<Rightarrow> Some (Some e, app1, w')
      | (None, app1, w') \<Rightarrow>
          do { app2 \<leftarrow> init_dispatcher env (load_configs env app1);
               Some (None, app2\<lparr>app_risk_engine := Some (new_engine (app_metrics app2) (Some new_heartbeat)),
                 app_health_server := Some (new_health_server (cfg_health_listen_address (app_cfg app2)))\<rparr>, w') })"

text \<open>\<open>risk_engine_->register_rule(rule.get()); rules_.push_back(std::move(rule));\<close>\<close>

definition add_rule :: "RiskRule \<Rightarrow> rule_store \<times> RiskEngine \<Rightarrow> rule_store \<times> RiskEngine" where
  "add_rule r se = (let store = fst se @ [r] in (store, register_rule store (length (fst se)) (snd se)))"

definition app_rule_list :: "'w app_env \<Rightarrow> App \<Rightarrow> RiskRule list" where
  "app_rule_list env app =
     [R_LargeTransfer (load_large_transfer_configs (av_parse_json env) (q_large_transfer (av_queries env))),
      R_Governance (app_governance_rules app), R_MintBurn (app_mint_burn_rules app),
      R_Approval (app_approval_rules app), R_BridgeTransfer (app_bridge app),
      R_OracleUpdate \<lparr>ou_configs_by_feed = app_oracle_configs app, ou_last_by_feed = []\<rparr>]"

definition register_rules :: "'w app_env \<Rightarrow> App \<Rightarrow> App" where
  "register_rules env app =
     (case app_risk_engine app of
        None \<Rightarrow> app
      | Some engine \<Rightarrow>
          (case fold add_rule (app_rule_list env app) (app_rules app, engine) of
             (store, engine') \<Rightarrow>
               app\<lparr>app_rules := store, app_risk_engine := Some engine',
                   app_bridge := (app_bridge app)\<lparr>br_configs_by_key := []\<rparr>, app_oracle_configs := []\<rparr>))"


text \<open>The inputs of the health server, which point into the object.\<close>

definition health_inputs :: "bool \<Rightarrow> App \<Rightarrow> HealthCheckInputs" where
  "health_inputs select_ok app =
     \<lparr>hi_event_source = Option.bind (app_event_source app) es_heartbeat,
      hi_risk_engine = Option.bind (app_risk_engine app) re_heartbeat,
      hi_dispatcher = Option.bind (app_dispatcher app) ad_heartbeat,
      hi_rpc_last_success_unix_s =
        Some (case Option.bind (app_rpc app) jc_last_success of None \<Rightarrow> 0 | Some t \<Rightarrow> t),
      hi_db_probe = Some (app_conn app = Some True \<and> select_ok)\<rparr>"

section \<open>The connection loop\<close>

lemma connect_loop_attempts: "snd (connect_loop connect n i conn) \<le> i + n"
proof (induction n arbitrary: i conn)
  case (Suc n)
  from Suc [of "Suc i"] show ?case by (auto split: sum.splits)
qed simp

lemma connect_loop_open:
  assumes "conn \<noteq> Some True"
  shows "fst (connect_loop connect n i conn) = Some True \<longleftrightarrow> (\<exists>j<n. connect (i + j) = Inr True)"
  using assms
proof (induction n arbitrary: i conn)
  case (Suc n)
  have "(\<exists>j<Suc n. connect (i + j) = Inr True) \<longleftrightarrow>
      connect i = Inr True \<or> (\<exists>j<n. connect (Suc i + j) = Inr True)"
    by (auto simp: less_Suc_eq_0_disj)
  with Suc.IH [of conn "Suc i"] Suc.IH [of "Some False" "Suc i"] Suc.prems show ?case
    by (auto split: sum.splits)
qed simp

section \<open>What start-up builds\<close>

lemma register_rule_append: "p < length store \<Longrightarrow> register_rule (store @ rs) p = register_rule store p"
  by (simp add: register_rule_def nth_append fun_eq_iff)

lemma fold_add_rule:
  "fold add_rule rs (store, e) =
     (store @ rs, fold (register_rule (store @ rs)) [length store..<length store + length rs] e)"
proof (induction rs arbitrary: store e)
  case (Cons r rs)
  have "[length store..<length store + length (r # rs)] =
      length store # [length (store @ [r])..<length (store @ [r]) + length rs]"
    by (simp add: upt_conv_Cons del: upt_Suc)
  moreover have "register_rule (store @ r # rs) (length store) = register_rule (store @ [r]) (length store)"
    using register_rule_append [of "length store" "store @ [r]" rs] by simp
  ultimately show ?case
    using Cons [of "store @ [r]"] by (simp add: add_rule_def [of r] Let_def del: upt_Suc)
qed simp

lemma register_from_empty: "fold add_rule rs ([], e) = (rs, register_all rs e)"
  by (simp add: fold_add_rule register_all_def)

text \<open>An object as \<open>init_db\<close> leaves it.\<close>

definition fresh :: "App \<Rightarrow> bool" where
  "fresh app \<longleftrightarrow> app_customer_id_to_key app = [] \<and> app_token_addresses_to_symbols app = [] \<and>
     app_governance_rules app = [] \<and> app_mint_burn_rules app = [] \<and> app_approval_rules app = [] \<and>
     app_bridge app = empty_bridge \<and> app_oracle_configs app = [] \<and> app_customer_webhooks app = [] \<and>
     app_rules app = [] \<and> \<not> app_stopped app \<and> app_event_source app = None \<and> app_dispatcher app = None \<and>
     app_risk_engine app = None \<and> app_health_server app = None"

lemma new_app_fresh [simp]: "fresh (new_app cfg)"
  by (simp add: fresh_def new_app_def)

lemma init_db_fresh: "fresh app \<Longrightarrow> init_db env app db = (ok, app', db') \<Longrightarrow> fresh app'"
  by (auto simp: init_db_def fresh_def Let_def split: if_splits prod.splits sum.splits)

text \<open>The rules that the rows of the database describe.\<close>

definition db_rules :: "'w app_env \<Rightarrow> rule_store" where
  "db_rules env =
     (let q = av_queries env in
     [R_LargeTransfer (load_large_transfer_configs (av_parse_json env) (q_large_transfer q)),
      R_Governance (load_governance_configs (q_governance q) []), R_MintBurn (load_mint_burn_configs (q_mint_burn q) []),
      R_Approval (load_approval_configs (q_approval q) []),
      R_BridgeTransfer (load_bridge_configs (q_bridge_contracts q) (q_bridge_rules q) empty_bridge),
      R_OracleUpdate \<lparr>ou_configs_by_feed = load_oracle_configs (q_oracle q) [], ou_last_by_feed = []\<rparr>])"

lemma init_dispatcher_some: "\<exists>app'. init_dispatcher env app = Some app'"
  by (simp add: init_dispatcher_def add_channel_def new_dispatcher_def Let_def split: option.splits)


lemma init_pipeline_frame:
  assumes "init_pipeline env app w = (None, app1, w')"
  shows "app_metrics app1" and "fresh app \<Longrightarrow> fresh (app1\<lparr>app_event_source := None\<rparr>)"
  using assms
  by (auto simp: init_pipeline_def Let_def fresh_def split: if_splits option.splits sum.splits prod.splits)

lemma init_dispatcher_frame:
  assumes "init_dispatcher env app = Some app'"
  shows "app_governance_rules app' = app_governance_rules app" "app_mint_burn_rules app' = app_mint_burn_rules app"
    "app_approval_rules app' = app_approval_rules app" "app_bridge app' = app_bridge app"
    "app_oracle_configs app' = app_oracle_configs app" "app_rules app' = app_rules app"
    "app_metrics app' = app_metrics app" "app_stopped app' = app_stopped app"
    "app_event_source app' = app_event_source app" "app_cfg app' = app_cfg app"
  using assms by (auto simp: init_dispatcher_def split: if_splits bind_splits)

text \<open>After a start-up that throws nothing.\<close>

definition started :: "'w app_env \<Rightarrow> App \<Rightarrow> bool" where
  "started env app \<longleftrightarrow> (\<exists>app0 w app1 w'. fresh app0 \<and> init_modules env app0 w = Some (None, app1, w') \<and>
     app = register_rules env app1)"

lemma started_rules:
  assumes "started env app"
  shows "app_rules app = db_rules env"
    and "app_risk_engine app = Some (register_all (db_rules env) (new_engine True (Some new_heartbeat)))"
proof -
  from assms obtain app0 w app1 w' where fresh: "fresh app0" and init: "init_modules env app0 w = Some (None, app1, w')"
    and reg: "app = register_rules env app1" by (auto simp: started_def)
  from init obtain appa app2 where pipe: "init_pipeline env app0 w = (None, appa, w')"
    and disp: "init_dispatcher env (load_configs env appa) = Some app2"
    and app1: "app1 = app2\<lparr>app_risk_engine := Some (new_engine (app_metrics app2) (Some new_heartbeat)),
                 app_health_server := Some (new_health_server (cfg_health_listen_address (app_cfg app2)))\<rparr>"
    by (auto simp: init_modules_def split: prod.splits option.splits bind_splits)
  note facts = init_dispatcher_frame [OF disp] init_pipeline_frame(1) [OF pipe]
    init_pipeline_frame(2) [OF pipe fresh, unfolded fresh_def]
  have list: "app_rule_list env app1 = db_rules env" and empty: "app_rules app1 = []"
    using facts by (simp_all add: app1 app_rule_list_def db_rules_def load_configs_def Let_def)
  have "app_risk_engine app1 = Some (new_engine True (Some new_heartbeat))"
    using facts by (simp add: app1 load_configs_def Let_def)
  then show "app_rules app = db_rules env"
    "app_risk_engine app = Some (register_all (db_rules env) (new_engine True (Some new_heartbeat)))"
    by (simp_all add: reg register_rules_def list empty register_from_empty)
qed

lemma db_rules_names: "map rule_type_name (db_rules env) = rule_types"
  by (simp add: db_rules_def rule_types_def Let_def)

lemma db_rules_wf: "list_all rule_wf (db_rules env)"
  unfolding db_rules_def Let_def list.pred_inject
  by (intro conjI TrueI load_large_transfer_wf load_bridge_wf)
     (simp_all add: load_governance_configs_def load_mint_burn_configs_def load_approval_configs_def
        load_oracle_configs_def governance_loader.loaded_entries_ok mint_burn_loader.loaded_entries_ok
        approval_loader.loaded_entries_ok oracle_loader.loaded_entries_ok oracle_inv_def)

section \<open>The dispatcher that start-up builds\<close>

text \<open>What adding a channel changes of a dispatcher that does not run.\<close>

definition same_but_channels :: "AlertDispatcher \<Rightarrow> Channel list \<Rightarrow> AlertDispatcher \<Rightarrow> bool" where
  "same_but_channels d chs d' \<longleftrightarrow> ad_channels d' = ad_channels d @ chs \<and> ad_queue d' = ad_queue d \<and>
     ad_running d' = ad_running d \<and> ad_exited d' = ad_exited d \<and> ad_deduplicator d' = ad_deduplicator d \<and>
     ad_deduplicated_counters d' = ad_deduplicated_counters d"

lemma add_channel_changes:
  "add_channel (Some ch) d = Some d' \<Longrightarrow> same_but_channels d [ch] d'"
  by (auto simp: add_channel_def same_but_channels_def Let_def split: if_splits)

lemma same_but_channels_trans:
  "same_but_channels d xs d1 \<Longrightarrow> same_but_channels d1 ys d2 \<Longrightarrow> same_but_channels d (xs @ ys) d2"
  by (simp add: same_but_channels_def)

lemma init_dispatcher_result:
  assumes "init_dispatcher env app = Some app'"
  obtains d where "app_dispatcher app' = Some d"
    and "same_but_channels (new_dispatcher (app_metrics app) dedup_cfg rule_types (Some new_heartbeat))
       (C_Console # (case telegram_channel env app of None \<Rightarrow> [] | Some ch \<Rightarrow> [ch]) @
         (if app_customer_webhooks app = [] then [] else [C_Webhook (app_customer_webhooks app)])) d"
proof -
  let ?d = "new_dispatcher (app_metrics app) dedup_cfg rule_types (Some new_heartbeat)"
  from assms obtain d1 d2 where d1: "add_channel (Some C_Console) ?d = Some d1"
    and d2: "(case telegram_channel env app of None \<Rightarrow> Some d1 | Some ch \<Rightarrow> add_channel (Some ch) d1) = Some d2"
    and rest: "(if app_customer_webhooks app = [] then Some (app\<lparr>app_dispatcher := Some d2\<rparr>)
          else do { d3 \<leftarrow> add_channel (Some (C_Webhook (app_customer_webhooks app))) d2;
                    Some (app\<lparr>app_dispatcher := Some d3, app_customer_webhooks := []\<rparr>) }) = Some app'"
    by (auto simp: init_dispatcher_def split: bind_splits)
  have s1: "same_but_channels ?d [C_Console] d1" using d1 by (rule add_channel_changes)
  have s2: "same_but_channels d1 (case telegram_channel env app of None \<Rightarrow> [] | Some ch \<Rightarrow> [ch]) d2"
    using d2 by (auto dest: add_channel_changes simp: same_but_channels_def split: option.splits)
  obtain d where d: "app_dispatcher app' = Some d"
    and s3: "same_but_channels d2 (if app_customer_webhooks app = [] then [] else [C_Webhook (app_customer_webhooks app)]) d"
    using rest by (auto dest: add_channel_changes simp: same_but_channels_def split: if_splits bind_splits)
  show thesis
    using that [OF d] same_but_channels_trans [OF same_but_channels_trans [OF s1 s2] s3] by simp
qed

lemma register_rules_dispatcher: "app_dispatcher (register_rules env app) = app_dispatcher app"
  by (simp add: register_rules_def split: option.splits prod.splits)

lemma started_dispatcher:
  assumes "started env app" and "app_dispatcher app = Some d"
  shows "dd_cfg (ad_deduplicator d) = dedup_cfg" and "ad_deduplicated_counters d = map (\<lambda>rt. (rt, 0)) rule_types"
    and "C_Console \<in> set (ad_channels d)" and "ad_queue d = []" and "\<not> ad_exited d"
proof -
  from assms(1) obtain app0 w app1 w' where init: "init_modules env app0 w = Some (None, app1, w')"
    and reg: "app = register_rules env app1" by (auto simp: started_def)
  from init obtain appa app2 where pipe: "init_pipeline env app0 w = (None, appa, w')"
    and disp: "init_dispatcher env (load_configs env appa) = Some app2"
    and app1: "app_dispatcher app1 = app_dispatcher app2"
    by (auto simp: init_modules_def split: prod.splits option.splits bind_splits)
  have d: "app_dispatcher app2 = Some d" using app1 assms(2) by (simp add: reg register_rules_dispatcher)
  have "app_metrics (load_configs env appa)"
    using init_pipeline_frame(1) [OF pipe] by (simp add: load_configs_def Let_def)
  then have counters: "ad_deduplicated_counters (new_dispatcher (app_metrics (load_configs env appa)) dedup_cfg rule_types
      (Some new_heartbeat)) = map (\<lambda>rt. (rt, 0)) rule_types"
    by (simp add: new_dispatcher_def rule_types_def)
  from init_dispatcher_result [OF disp] d obtain chs where same: "same_but_channels
      (new_dispatcher (app_metrics (load_configs env appa)) dedup_cfg rule_types (Some new_heartbeat)) (C_Console # chs) d"
    by (metis option.inject)
  with counters
  show "dd_cfg (ad_deduplicator d) = dedup_cfg" "ad_deduplicated_counters d = map (\<lambda>rt. (rt, 0)) rule_types"
    "C_Console \<in> set (ad_channels d)" "ad_queue d = []" "\<not> ad_exited d"
    by (simp_all add: same_but_channels_def) (simp_all add: new_dispatcher_def new_deduplicator_def)
qed

lemma init_db_exact:
  assumes "app_conn app = None" and "table_ok db"
  shows "case init_db env app db of (ok, app', db') \<Rightarrow>
     (ok = (cfg_database_url (app_cfg app) \<noteq> [] \<and> (\<exists>i<15. av_connect env i = Inr True) \<and>
       av_schema_fault env = None \<and> av_checkpoint_fault env = None)) \<and>
     ec_start_block (cfg_event_source (app_cfg app')) =
       (if ok then stored_block db (cfg_chain (app_cfg app)) else ec_start_block (cfg_event_source (app_cfg app))) \<and>
     stored_block db' = stored_block db"
proof (cases "cfg_database_url (app_cfg app) \<noteq> [] \<and> (\<exists>i<15. av_connect env i = Inr True)")
  case True
  then have conn: "fst (connect_loop (av_connect env) 15 0 (app_conn app)) = Some True"
    using connect_loop_open [of "app_conn app" "av_connect env" 15 0] assms(1) by simp
  from checkpoint_store.ensure_ok [OF assms(2)] obtain db1 where db1: "ensure_schema None db = (Inr (), db1)"
    "table_ok db1" "db1 \<noteq> None" "stored_block db1 = stored_block db" by blast
  from checkpoint_store.get_ok [OF db1(2,3), of "cfg_chain (app_cfg app)"] obtain db2 where
    "get_or_init_checkpoint None (cfg_chain (app_cfg app)) db1 = (Inr (stored_block db1 (cfg_chain (app_cfg app))), db2)"
    "stored_block db2 = stored_block db1" by blast
  with True conn db1 show ?thesis
    by (cases "av_schema_fault env"; cases "av_checkpoint_fault env")
       (simp_all add: init_db_def Let_def checkpoint_store.ensure_fault checkpoint_store.get_fault)
next
  case False
  then show ?thesis
    using connect_loop_open [of "app_conn app" "av_connect env" 15 0] assms(1) by (auto simp: init_db_def Let_def)
qed

lemma init_db_connects:
  assumes "app_conn app = None" "table_ok db" "cfg_database_url (app_cfg app) \<noteq> []" "\<exists>i<15. av_connect env i = Inr True"
    "av_schema_fault env = None" "av_checkpoint_fault env = None"
  shows "fst (init_db env app db)"
  using init_db_exact [OF assms(1,2), of env] assms(3-) by (auto split: prod.splits)

section \<open>A sample start-up\<close>

definition sample_queries :: "approval_row list \<Rightarrow> app_queries" where
  "sample_queries rows = \<lparr>q_large_transfer = Inr [], q_governance = Inr [], q_mint_burn = Inr [], q_approval = Inr rows,
     q_bridge_contracts = Inr [], q_bridge_rules = Inr [], q_oracle = Inr [], q_customers = Inr [], q_webhooks = Inr []\<rparr>"

definition sample_app_env :: "approval_row list \<Rightarrow> 'w app_env" where
  "sample_app_env rows = \<lparr>av_connect = (\<lambda>i. Inr (i = 2)), av_schema_fault = None, av_checkpoint_fault = None,
     av_getenv = (\<lambda>_. None), av_parse_json = (\<lambda>_. Inr J_null), av_ssl = sum_ssl, av_exposer = (\<lambda>_. None),
     av_rpc = \<lparr>re_curl_init = (\<lambda>w. (True, w)), re_perform = (\<lambda>_ _ w. (Inr (200, []), w)), re_now_s = (\<lambda>w. (1, w)),
       re_parse = (\<lambda>_. Inr (J_obj [(''result'', J_str (to_hex_quantity 1))])), re_dump = (\<lambda>_. []), re_int_text = (\<lambda>_. [])\<rparr>,
     av_queries = sample_queries rows\<rparr>"

definition sample_config :: AppConfig where
  "sample_config = default_app_config\<lparr>cfg_chain := ''ethereum'', cfg_database_url := ''db'', cfg_rpc_url := ''node''\<rparr>"

lemma sample_chainId: "\<exists>c'. ethereum_chainId (av_rpc (sample_app_env rows)) (c, w) = (Inr 1, c', w)"
  by (simp add: ethereum_chainId_def rpc_call_def check_response_def sample_app_env_def jcontains_def jat_def
      jget_string_def)

lemma sample_pipeline: "\<exists>app1. init_pipeline (sample_app_env rows) (new_app sample_config) w = (None, app1, w)"
proof -
  obtain c where c: "new_rpc_client ''node'' True = Inr c" by (simp add: new_rpc_client_def)
  obtain c' where c': "ethereum_chainId (av_rpc (sample_app_env rows)) (c, w) = (Inr 1, c', w)"
    using sample_chainId [of rows c w] by blast
  have cfg: "cfg_rpc_url sample_config = ''node''" "cfg_chain sample_config = ''ethereum''" "app_cfg (new_app cfg) = cfg"
    "av_exposer (sample_app_env rows) a = None" for cfg a
    by (simp_all add: sample_config_def new_app_def sample_app_env_def)
  show ?thesis
    by (simp add: init_pipeline_def cfg c c' adapter_for_def new_event_source_def Let_def)
qed

lemma sample_modules:
  fixes w :: 'w
  shows "\<exists>app1. init_modules (sample_app_env rows) (new_app sample_config) w = Some (None, app1, w) \<and> app_cfg app1 = sample_config"
proof -
  let ?env = "sample_app_env rows :: 'w app_env"
  obtain app1 where pipe: "init_pipeline ?env (new_app sample_config) w = (None, app1, w)"
    using sample_pipeline [of rows w] by blast
  obtain app2 where disp: "init_dispatcher ?env (load_configs ?env app1) = Some app2"
    using init_dispatcher_some by blast
  have "app_cfg app1 = sample_config"
    using pipe by (auto simp: init_pipeline_def new_app_def Let_def split: if_splits option.splits sum.splits prod.splits)
  then have "app_cfg app2 = sample_config" using init_dispatcher_frame(10) [OF disp] by (simp add: load_configs_def Let_def)
  then show ?thesis by (simp add: init_modules_def pipe disp)
qed

lemma sample_started: "\<exists>app e d. started (sample_app_env rows :: unit app_env) app \<and> app_risk_engine app = Some e \<and> app_dispatcher app = Some d"
proof -
  let ?env = "sample_app_env rows :: unit app_env"
  obtain app1 where init: "init_modules ?env (new_app sample_config) () = Some (None, app1, ())"
    using sample_modules [of rows "()"] by blast
  then have started: "started ?env (register_rules ?env app1)" unfolding started_def using new_app_fresh by blast
  from init obtain app0 app2 where "init_dispatcher ?env app0 = Some app2" "app_dispatcher app1 = app_dispatcher app2"
    by (auto simp: init_modules_def split: prod.splits option.splits bind_splits)
  then obtain d where "app_dispatcher (register_rules ?env app1) = Some d"
    using init_dispatcher_result by (metis register_rules_dispatcher)
  with started show ?thesis using started_rules(2) by blast
qed

definition sample_approval_row :: approval_row where
  "sample_approval_row = \<lparr>ar_customer_id = Inr 3, ar_chain_id = Inr 1, ar_token_address = Inr (address_to_hex (replicate 20 1)),
     ar_threshold_raw = Inr ''5'', ar_alert_on_infinite = Inr False, ar_enabled = Inr True\<rparr>"

lemma sample_row_parsed: "parse_approval_row sample_approval_row = Inr (Some ((1, address_to_hex (replicate 20 1)),
   \<lparr>ac_customer_id = 3, ac_chain_id = 1, ac_token_address = replicate 20 1, ac_threshold_be = small_be 5,
    ac_alert_on_infinite = False, ac_enabled = True\<rparr>))"
proof -
  have "is_dec_digit CHR ''5''" "dec_value ''5'' = 5" by code_simp+
  then have "decimal_to_be_256 ''5'' = Inr (small_be 5)" by (simp add: decimal_to_be_256_iff)
  then show ?thesis
    by (simp add: parse_approval_row_def sample_approval_row_def lower_address_to_hex parse_address_to_hex Let_def)
qed

abbreviation sample_approval :: Signal where
  "sample_approval \<equiv> sample_signal ST_Approval (P_EvmLogEvent (sample_evm 9))"

lemma sample_taken: "taken False [sample_obs (Some sample_approval)] = [sample_approval]"
  by (simp add: sample_obs_def is_poison_pill_def)

lemma sample_approval_wf: "signal_wf sample_approval"
  by (simp add: signal_wf_def)

section \<open>Properties\<close>

text \<open>
  The type of the rule objects.  Whatever the database contains, start-up builds only rules
  whose addresses have 20 and whose thresholds have 32 bytes, whose keys agree with the
  configurations stored under them, whose price feeds have a threshold within its bounds and whose
  bridges have names; and every run on normalized signals keeps them so.
\<close>

theorem rules_stay_wf:
  assumes "started env app" and "app_risk_engine app = Some e" and "list_all signal_wf (taken False obs)"
  shows "list_all rule_wf (et_store (engine_run obs (start_engine (app_rules app) e)))"
proof -
  have e: "e = register_all (db_rules env) (new_engine True (Some new_heartbeat))"
    using started_rules(2) [OF assms(1)] assms(2) by simp
  show ?thesis
    unfolding started_rules(1) [OF assms(1)] e engine_run_start
    by (rule deliver_wf [OF db_rules_wf assms(3)])
qed

theorem rules_stay_wf_witness:
  "\<exists>app e. started (sample_app_env [] :: unit app_env) app \<and> app_risk_engine app = Some e \<and>
     list_all rule_wf (et_store (engine_run [sample_obs (Some sample_approval)] (start_engine (app_rules app) e)))"
proof -
  obtain app e where s: "started (sample_app_env [] :: unit app_env) app" "app_risk_engine app = Some e"
    using sample_started by blast
  have "list_all signal_wf (taken False [sample_obs (Some sample_approval)])"
    by (simp only: sample_taken) (simp add: sample_approval_wf)
  with rules_stay_wf [OF s] s show ?thesis by blast
qed

text \<open>
  The names agree.  Every alert that the started engine dispatches carries a rule type for
  which the dispatcher has a counter of suppressed alerts and a deduplication window of its own,
  and at least the console receives it.
\<close>

theorem alerts_have_windows:
  assumes "started env app" and "app_risk_engine app = Some e" and "app_dispatcher app = Some d"
  shows "C_Console \<in> set (ad_channels d) \<and>
     list_all (\<lambda>a. map_of (ad_deduplicated_counters d) (al_rule_type a) = Some 0 \<and>
         map_of (dc_per_rule_window_ms (dd_cfg (ad_deduplicator d))) (al_rule_type a) \<noteq> None)
       (et_dispatched (engine_run obs (start_engine (app_rules app) e)))"
proof -
  have e: "e = register_all (db_rules env) (new_engine True (Some new_heartbeat))"
    using started_rules(2) [OF assms(1)] assms(2) by simp
  have "al_rule_type a \<in> set rule_types"
    if a: "a \<in> set (et_dispatched (engine_run obs (start_engine (app_rules app) e)))" for a
  proof -
    obtain r where "r \<in> set (db_rules env)" "al_rule_type a = rule_type_name r"
      using a deliver_origin [of a "taken False obs" "db_rules env" "[]"]
      unfolding started_rules(1) [OF assms(1)] e engine_run_start by (auto simp: alert_stamped_def)
    then show ?thesis using db_rules_names [of env] by (metis image_eqI set_map)
  qed
  then show ?thesis
    using started_dispatcher [OF assms(1,3)] by (fastforce simp: list_all_iff rule_types_def dedup_cfg_def)
qed

theorem alerts_have_windows_witness:
  "\<exists>app e d. started (sample_app_env [] :: unit app_env) app \<and> app_risk_engine app = Some e \<and> app_dispatcher app = Some d \<and>
     C_Console \<in> set (ad_channels d)"
proof -
  obtain app e d where s: "started (sample_app_env [] :: unit app_env) app" "app_risk_engine app = Some e" "app_dispatcher app = Some d"
    using sample_started by blast
  with alerts_have_windows [OF s, of "[]"] show ?thesis by blast
qed

text \<open>
  C24: resuming.  The database is reached exactly when its address is given, one of at most fifteen
  attempts gives an open connection and both transactions of the checkpoint store go through; then
  the event source will start at the block stored for the chain, and no chain's stored block has
  changed.
\<close>

theorem init_db_resumes:
  assumes "app_conn app = None" and "table_ok db"
  shows "case init_db env app db of (ok, app', db') \<Rightarrow>
     (ok = (cfg_database_url (app_cfg app) \<noteq> [] \<and> (\<exists>i<15. av_connect env i = Inr True) \<and>
       av_schema_fault env = None \<and> av_checkpoint_fault env = None)) \<and>
     ec_start_block (cfg_event_source (app_cfg app')) =
       (if ok then stored_block db (cfg_chain (app_cfg app)) else ec_start_block (cfg_event_source (app_cfg app))) \<and>
     stored_block db' = stored_block db"
  using assms by (rule init_db_exact)

theorem init_db_resumes_witness:
  "fst (init_db (sample_app_env [] :: unit app_env) (new_app sample_config) (Some [(''ethereum'', 7)])) \<and>
   ec_start_block (cfg_event_source (app_cfg (fst (snd (init_db (sample_app_env [] :: unit app_env) (new_app sample_config)
     (Some [(''ethereum'', 7)])))))) = 7"
proof -
  have "\<exists>i<15. av_connect (sample_app_env [] :: unit app_env) i = Inr True"
    by (rule exI [of _ 2]) (simp add: sample_app_env_def)
  moreover have "app_conn (new_app sample_config) = None" "table_ok (Some [(''ethereum'', 7)])"
    "cfg_database_url (app_cfg (new_app sample_config)) \<noteq> []" "cfg_chain (app_cfg (new_app sample_config)) = ''ethereum''"
    "av_schema_fault (sample_app_env [] :: unit app_env) = None" "av_checkpoint_fault (sample_app_env [] :: unit app_env) = None"
    by (simp_all add: new_app_def table_ok_def sample_config_def sample_app_env_def)
  ultimately show ?thesis
    using init_db_resumes [of "new_app sample_config" "Some [(''ethereum'', 7)]" "sample_app_env [] :: unit app_env"]
    by (simp add: stored_block_def case_prod_beta)
qed


end
