(* ===== verification/App_Lifecycle.thy ===== *)
theory App_Lifecycle
  imports App_Modules
begin

text \<open>
  The life of the process (\<open>App::run\<close>, \<open>start_threads_\<close>, \<open>stop_orderly_\<close>, \<open>join_threads_\<close>, the
  readiness file and the destructor): a state \<open>Proc\<close> with the object, the threads that can be
  joined and the trace of what was done so far.  The other threads, the clock and the ring buffer
  are the record \<open>life_env\<close> over an arbitrary world; \<open>None\<close> is a call that never returns.  The
  lemmas show that the stop ends, that it happens once and in order, and what a run leaves behind
  on each of its exits.
\<close>

section \<open>Definitions\<close>

datatype pipeline_thread = T_dispatcher | T_risk_engine | T_event_source

datatype action =
    A_spawn pipeline_thread
  | A_health_start bool
  | A_write_ready
  | A_remove_ready
  | A_stop_health
  | A_stop_source
  | A_push_pill bool
  | A_drained bool
  | A_stop_engine
  | A_stop_dispatcher
  | A_join pipeline_thread

record Proc =
  pr_app :: App
  pr_joinable :: "pipeline_thread list"
  pr_trace :: "action list"

text \<open>
  The clock counts nanoseconds; \<open>le_wait_stop\<close> is the wait for \<open>stop_requested_\<close>, which ends when
  somebody calls \<open>request_stop\<close>; \<open>le_stop\<close> is what the other threads see of the call of a module's
  \<open>stop\<close>, the store to its \<open>running_\<close>.
\<close>

record 'w life_env =
  le_spawn :: "pipeline_thread \<Rightarrow> 'w \<Rightarrow> exn option \<times> 'w"
  le_wait_stop :: "'w \<Rightarrow> 'w option"
  le_steady_ns :: "'w \<Rightarrow> int \<times> 'w"
  le_try_push :: "Signal \<Rightarrow> 'w \<Rightarrow> bool \<times> 'w"
  le_is_finished :: "'w \<Rightarrow> bool \<times> 'w"
  le_sleep_ms :: "int \<Rightarrow> 'w \<Rightarrow> 'w"
  le_stop :: "pipeline_thread \<Rightarrow> 'w \<Rightarrow> 'w"
  le_join :: "pipeline_thread \<Rightarrow> 'w \<Rightarrow> 'w option"

definition did :: "action list \<Rightarrow> Proc \<Rightarrow> Proc" where
  "did as p = p\<lparr>pr_trace := pr_trace p @ as\<rparr>"

definition spawn :: "'w life_env \<Rightarrow> pipeline_thread \<Rightarrow> Proc \<times> 'w \<Rightarrow> exn option \<times> Proc \<times> 'w" where
  "spawn env t pw =
     (let (p, w) = pw in
      case le_spawn env t w of
        (Some e, w') \<Rightarrow> (Some e, p, w')
      | (None, w') \<Rightarrow> (None, did [A_spawn t] (p\<lparr>pr_joinable := pr_joinable p @ [t]\<rparr>), w'))"

definition start_health :: "Proc \<Rightarrow> Proc" where
  "start_health p =
     (case app_health_server (pr_app p) of
        None \<Rightarrow> p
      | Some server \<Rightarrow>
          (case health_start server of
             Inl e \<Rightarrow> did [A_health_start False] (p\<lparr>pr_app := (pr_app p)\<lparr>app_health_server := None\<rparr>\<rparr>)
           | Inr server' \<Rightarrow> did [A_health_start True] (p\<lparr>pr_app := (pr_app p)\<lparr>app_health_server := Some server'\<rparr>\<rparr>)))"

definition start_threads :: "'w life_env \<Rightarrow> Proc \<times> 'w \<Rightarrow> exn option \<times> Proc \<times> 'w" where
  "start_threads env pw =
     (case spawn env T_dispatcher pw of
        (Some e, pw1) \<Rightarrow> (Some e, pw1)
      | (None, pw1) \<Rightarrow>
          (case spawn env T_risk_engine pw1 of
             (Some e, pw2) \<Rightarrow> (Some e, pw2)
           | (None, pw2) \<Rightarrow>
               (case spawn env T_event_source pw2 of
                  (Some e, pw3) \<Rightarrow> (Some e, pw3)
                | (None, p3, w3) \<Rightarrow> (None, start_health p3, w3))))"

definition poison_pill :: Signal where
  "poison_pill = zero_signal\<lparr>sig_type := ST_Control, sig_payload := P_ControlSignal Cmd_Stop\<rparr>"

text \<open>
  The two waiting loops of the stop have the same shape: try until it works or the time is up,
  sleeping in between.
\<close>

partial_function (option) poll_until ::
  "'w life_env \<Rightarrow> ('w \<Rightarrow> bool \<times> 'w) \<Rightarrow> int \<Rightarrow> int \<Rightarrow> int \<Rightarrow> 'w \<Rightarrow> (bool \<times> 'w) option" where
  "poll_until env attempt ms start timeout w =
     (case le_steady_ns env w of (now, w1) \<Rightarrow>
        if now - start < timeout then
          (case attempt w1 of (ok, w2) \<Rightarrow>
             if ok then Some (True, w2) else poll_until env attempt ms start timeout (le_sleep_ms env ms w2))
        else Some (False, w1))"

definition push_pill :: "'w life_env \<Rightarrow> int \<Rightarrow> 'w \<Rightarrow> (bool \<times> 'w) option" where
  "push_pill env timeout w =
     (case le_steady_ns env w of (push_start_time, w1) \<Rightarrow>
        poll_until env (le_try_push env poison_pill) 1 push_start_time timeout w1)"

definition await_drain :: "'w life_env \<Rightarrow> int \<Rightarrow> 'w \<Rightarrow> (bool \<times> 'w) option" where
  "await_drain env timeout w =
     (case le_steady_ns env w of (start_time, w1) \<Rightarrow>
        poll_until env (le_is_finished env) 50 start_time timeout w1)"

definition stop_engine_phase :: "'w life_env \<Rightarrow> Proc \<times> 'w \<Rightarrow> (Proc \<times> 'w) option" where
  "stop_engine_phase env pw =
     (let (p, w) = pw; app = pr_app p; timeout = int (unat (cfg_shutdown_drain_timeout (app_cfg app))) * 1000000 in
      case app_risk_engine app of
        None \<Rightarrow> Some (p, w)
      | Some engine \<Rightarrow>
          if \<not> app_ring_buffer app then Some (p, w)
          else do {
            (pushed, w1) \<leftarrow> push_pill env timeout w;
            (drained, w2) \<leftarrow> (if pushed then await_drain env timeout w1 else Some (False, w1));
            Some (did ([A_push_pill pushed] @ (if pushed then [A_drained drained] else []) @ [A_stop_engine])
              (p\<lparr>pr_app := app\<lparr>app_risk_engine := Some (engine_stop engine)\<rparr>\<rparr>), le_stop env T_risk_engine w2) })"

definition stop_health_phase :: "Proc \<Rightarrow> Proc" where
  "stop_health_phase p =
     (case app_health_server (pr_app p) of None \<Rightarrow> p
      | Some server \<Rightarrow> did [A_stop_health] (p\<lparr>pr_app := (pr_app p)\<lparr>app_health_server := Some (health_stop server)\<rparr>\<rparr>))"

definition stop_source_phase :: "'w life_env \<Rightarrow> Proc \<times> 'w \<Rightarrow> Proc \<times> 'w" where
  "stop_source_phase env pw =
     (let (p, w) = pw in
      case app_event_source (pr_app p) of None \<Rightarrow> (p, w)
      | Some source \<Rightarrow>
          (did [A_stop_source] (p\<lparr>pr_app := (pr_app p)\<lparr>app_event_source := Some (source_stop source)\<rparr>\<rparr>),
           le_stop env T_event_source w))"

definition stop_dispatcher_phase :: "'w life_env \<Rightarrow> Proc \<times> 'w \<Rightarrow> Proc \<times> 'w" where
  "stop_dispatcher_phase env pw =
     (let (p, w) = pw in
      case app_dispatcher (pr_app p) of None \<Rightarrow> (p, w)
      | Some d \<Rightarrow>
          (did [A_stop_dispatcher] (p\<lparr>pr_app := (pr_app p)\<lparr>app_dispatcher := Some (dispatcher_stop d)\<rparr>\<rparr>),
           le_stop env T_dispatcher w))"

definition stop_orderly :: "'w life_env \<Rightarrow> Proc \<times> 'w \<Rightarrow> (Proc \<times> 'w) option" where
  "stop_orderly env pw =
     (let (p, w) = pw in
      if app_stopped (pr_app p) then Some (p, w)
      else do {
        pw' \<leftarrow> stop_engine_phase env
          (stop_source_phase env (stop_health_phase (p\<lparr>pr_app := (pr_app p)\<lparr>app_stopped := True\<rparr>\<rparr>), w));
        Some (stop_dispatcher_phase env pw') })"

definition join_thread :: "'w life_env \<Rightarrow> pipeline_thread \<Rightarrow> Proc \<times> 'w \<Rightarrow> (Proc \<times> 'w) option" where
  "join_thread env t pw =
     (let (p, w) = pw in
      if t \<in> set (pr_joinable p) then do {
        w' \<leftarrow> le_join env t w;
        Some (did [A_join t] (p\<lparr>pr_joinable := filter (\<lambda>u. u \<noteq> t) (pr_joinable p)\<rparr>), w') }
      else Some (p, w))"

definition join_threads :: "'w life_env \<Rightarrow> Proc \<times> 'w \<Rightarrow> (Proc \<times> 'w) option" where
  "join_threads env pw =
     do { pw1 \<leftarrow> join_thread env T_event_source pw;
          pw2 \<leftarrow> join_thread env T_risk_engine pw1;
          join_thread env T_dispatcher pw2 }"

text \<open>The destructor, and the common end of \<open>run\<close>.\<close>

definition shut_down :: "'w life_env \<Rightarrow> Proc \<times> 'w \<Rightarrow> (Proc \<times> 'w) option" where
  "shut_down env pw = do { pw1 \<leftarrow> stop_orderly env pw; join_threads env pw1 }"

text \<open>\<open>init_logging_\<close> always returns true, so the exit with code 1 is never taken.\<close>

definition init_logging :: bool where
  "init_logging = True"

definition exit_code :: "exn \<Rightarrow> int" where
  "exit_code e = (if is_std_exception e then 3 else 4)"

text \<open>The body of the \<open>try\<close> block behind \<open>init_db_\<close>, up to the end of the wait.\<close>

definition run_body :: "'w app_env \<Rightarrow> 'w life_env \<Rightarrow> Proc \<times> 'w \<Rightarrow> (exn option \<times> Proc \<times> 'w) option" where
  "run_body aenv env pw =
     (let (p, w) = pw in do {
        (r, app, w1) \<leftarrow> init_modules aenv (pr_app p) w;
        case r of
          Some e \<Rightarrow> Some (Some e, p\<lparr>pr_app := app\<rparr>, w1)
        | None \<Rightarrow>
            (case start_threads env (p\<lparr>pr_app := register_rules aenv app\<rparr>, w1) of
               (Some e, p2, w2) \<Rightarrow> Some (Some e, p2, w2)
             | (None, p2, w2) \<Rightarrow>
                 do { w3 \<leftarrow> le_wait_stop env w2;
                      Some (None, did [A_write_ready, A_remove_ready] p2, w3) }) })"

definition app_run ::
  "'w app_env \<Rightarrow> 'w life_env \<Rightarrow> checkpoints \<Rightarrow> Proc \<times> 'w \<Rightarrow> (int \<times> Proc \<times> 'w) option" where
  "app_run aenv env db pw =
     (if \<not> init_logging then Some (1, pw)
      else
        let (p, w) = pw in
        case init_db aenv (pr_app p) db of
          (False, app, db') \<Rightarrow> Some (2, p\<lparr>pr_app := app\<rparr>, w)
        | (True, app, db') \<Rightarrow>
            do { (r, pw1) \<leftarrow> run_body aenv env (p\<lparr>pr_app := app\<rparr>, w);
                 pw2 \<leftarrow> shut_down env pw1;
                 Some (case r of None \<Rightarrow> 0 | Some e \<Rightarrow> exit_code e, pw2) })"

definition new_proc :: "AppConfig \<Rightarrow> Proc" where
  "new_proc cfg = \<lparr>pr_app = new_app cfg, pr_joinable = [], pr_trace = []\<rparr>"

section \<open>The loops end\<close>

text \<open>
  What the stop relies on: the clock does not go back, and a sleep lasts at least as long as asked
  (\<open>std::chrono::steady_clock\<close>, \<open>std::this_thread::sleep_for\<close>).
\<close>

definition clock_laws :: "'w life_env \<Rightarrow> ('w \<Rightarrow> int) \<Rightarrow> bool" where
  "clock_laws env clk \<longleftrightarrow>
     (\<forall>w. fst (le_steady_ns env w) = clk w \<and> clk w \<le> clk (snd (le_steady_ns env w))) \<and>
     (\<forall>s w. clk w \<le> clk (snd (le_try_push env s w))) \<and> (\<forall>w. clk w \<le> clk (snd (le_is_finished env w))) \<and>
     (\<forall>ms w. clk w + ms * 1000000 \<le> clk (le_sleep_ms env ms w))"

lemma poll_until_returns:
  assumes laws: "clock_laws env clk" and attempt: "\<And>w. clk w \<le> clk (snd (attempt w))" and ms: "0 < ms"
  shows "\<exists>r. poll_until env attempt ms start timeout w = Some r"
proof (induction "nat (start + timeout - clk w)" arbitrary: w rule: less_induct)
  case less
  obtain now w1 where now: "le_steady_ns env w = (now, w1)" by fastforce
  obtain ok w2 where att: "attempt w1 = (ok, w2)" by fastforce
  let ?w = "le_sleep_ms env ms w2"
  have clk: "now = clk w" "clk w \<le> clk w1" "clk w1 \<le> clk w2" "clk w2 + ms * 1000000 \<le> clk ?w"
    using laws now attempt [of w1] att by (auto simp: clock_laws_def) (metis fst_conv, metis snd_conv)
  show ?case
  proof (cases "now - start < timeout \<and> \<not> ok")
    case True
    then have "nat (start + timeout - clk ?w) < nat (start + timeout - clk w)"
      using clk ms by simp
    from less [OF this] True now att show ?thesis by (subst poll_until.simps) simp
  next
    case False
    with now att show ?thesis by (subst poll_until.simps) auto
  qed
qed

lemma pill_loops_return:
  assumes "clock_laws env clk"
  shows "\<exists>r. push_pill env timeout w = Some r" "\<exists>r. await_drain env timeout w = Some r"
  using poll_until_returns [OF assms] assms
  by (auto simp: push_pill_def await_drain_def clock_laws_def split: prod.splits)

lemma stop_orderly_returns:
  assumes "clock_laws env clk"
  shows "\<exists>r. stop_orderly env pw = Some r"
proof -
  have "\<exists>r. stop_engine_phase env (p, w) = Some r" for p w
  proof -
    let ?timeout = "int (unat (cfg_shutdown_drain_timeout (app_cfg (pr_app p)))) * 1000000"
    obtain pushed w1 where 1: "push_pill env ?timeout w = Some (pushed, w1)"
      using pill_loops_return(1) [OF assms] by fast
    obtain drained w2 where 2: "await_drain env ?timeout w1 = Some (drained, w2)"
      using pill_loops_return(2) [OF assms] by fast
    show ?thesis using 1 2 by (auto simp: stop_engine_phase_def Let_def split: option.splits)
  qed
  then have "\<exists>r. stop_engine_phase env qv = Some r" for qv by (metis surj_pair)
  then obtain r where "stop_engine_phase env (stop_source_phase env (stop_health_phase
      ((fst pw)\<lparr>pr_app := (pr_app (fst pw))\<lparr>app_stopped := True\<rparr>\<rparr>), snd pw)) = Some r" by blast
  then show ?thesis by (simp add: stop_orderly_def case_prod_beta)
qed


section \<open>What each phase leaves\<close>

abbreviation pill_trace :: "bool \<Rightarrow> bool \<Rightarrow> action list" where
  "pill_trace pushed drained \<equiv> A_push_pill pushed # (if pushed then [A_drained drained] else []) @ [A_stop_engine]"

definition stop_trace :: "App \<Rightarrow> bool \<Rightarrow> bool \<Rightarrow> action list" where
  "stop_trace app pushed drained =
     (if app_health_server app \<noteq> None then [A_stop_health] else []) @
     (if app_event_source app \<noteq> None then [A_stop_source] else []) @
     (if app_risk_engine app \<noteq> None \<and> app_ring_buffer app then pill_trace pushed drained else []) @
     (if app_dispatcher app \<noteq> None then [A_stop_dispatcher] else [])"

lemma did_simps [simp]:
  "pr_app (did as p) = pr_app p" "pr_joinable (did as p) = pr_joinable p" "pr_trace (did as p) = pr_trace p @ as"
  by (simp_all add: did_def)

lemma stop_engine_phase_cases:
  assumes "stop_engine_phase env (p, w) = Some (p', w')"
  shows "\<not> (app_risk_engine (pr_app p) \<noteq> None \<and> app_ring_buffer (pr_app p)) \<and> p' = p \<or>
     (\<exists>engine pushed drained. app_risk_engine (pr_app p) = Some engine \<and> app_ring_buffer (pr_app p) \<and>
        p' = did (pill_trace pushed drained) (p\<lparr>pr_app := (pr_app p)\<lparr>app_risk_engine := Some (engine_stop engine)\<rparr>\<rparr>))"
proof (cases "app_risk_engine (pr_app p)")
  case (Some engine)
  let ?timeout = "int (unat (cfg_shutdown_drain_timeout (app_cfg (pr_app p)))) * 1000000"
  show ?thesis
  proof (cases "app_ring_buffer (pr_app p)")
    case True
    with assms Some obtain pushed w1 drained w2 where
      "p' = did (pill_trace pushed drained) (p\<lparr>pr_app := (pr_app p)\<lparr>app_risk_engine := Some (engine_stop engine)\<rparr>\<rparr>)"
      by (auto simp: stop_engine_phase_def Let_def simp del: did_simps split: bind_splits)
    with True Some show ?thesis by blast
  qed (use assms Some in \<open>simp add: stop_engine_phase_def Let_def\<close>)
qed (use assms in \<open>simp add: stop_engine_phase_def Let_def\<close>)

lemma stop_engine_phase_trace:
  assumes "stop_engine_phase env (p, w) = Some (p', w')"
  shows "pr_joinable p' = pr_joinable p" "app_stopped (pr_app p') = app_stopped (pr_app p)"
    "app_dispatcher (pr_app p') = app_dispatcher (pr_app p)"
    "\<exists>pushed drained. pr_trace p' = pr_trace p @
       (if app_risk_engine (pr_app p) \<noteq> None \<and> app_ring_buffer (pr_app p) then pill_trace pushed drained else [])"
proof -
  consider "p' = p" "\<not> (app_risk_engine (pr_app p) \<noteq> None \<and> app_ring_buffer (pr_app p))"
    | engine pushed drained where "app_risk_engine (pr_app p) = Some engine" "app_ring_buffer (pr_app p)"
      "p' = did (pill_trace pushed drained) (p\<lparr>pr_app := (pr_app p)\<lparr>app_risk_engine := Some (engine_stop engine)\<rparr>\<rparr>)"
    using stop_engine_phase_cases [OF assms] by blast
  then have "pr_joinable p' = pr_joinable p \<and> app_stopped (pr_app p') = app_stopped (pr_app p) \<and>
      app_dispatcher (pr_app p') = app_dispatcher (pr_app p) \<and> (\<exists>pushed drained. pr_trace p' = pr_trace p @
       (if app_risk_engine (pr_app p) \<noteq> None \<and> app_ring_buffer (pr_app p) then pill_trace pushed drained else []))"
  proof cases
    case 1
    then show ?thesis by auto
  next
    case (2 engine pushed drained)
    then have "pr_trace p' = pr_trace p @ pill_trace pushed drained" by simp
    with 2 show ?thesis by (intro conjI exI [of _ pushed] exI [of _ drained]) simp_all
  qed
  then show "pr_joinable p' = pr_joinable p" "app_stopped (pr_app p') = app_stopped (pr_app p)"
    "app_dispatcher (pr_app p') = app_dispatcher (pr_app p)"
    "\<exists>pushed drained. pr_trace p' = pr_trace p @
       (if app_risk_engine (pr_app p) \<noteq> None \<and> app_ring_buffer (pr_app p) then pill_trace pushed drained else [])"
    by blast+
qed

lemma stop_phases [simp]:
  "pr_joinable (stop_health_phase p) = pr_joinable p" "pr_joinable (fst (stop_source_phase env pw)) = pr_joinable (fst pw)"
  "pr_joinable (fst (stop_dispatcher_phase env pw)) = pr_joinable (fst pw)"
  "app_stopped (pr_app (stop_health_phase p)) = app_stopped (pr_app p)"
  "app_stopped (pr_app (fst (stop_source_phase env pw))) = app_stopped (pr_app (fst pw))"
  "app_stopped (pr_app (fst (stop_dispatcher_phase env pw))) = app_stopped (pr_app (fst pw))"
  "app_event_source (pr_app (stop_health_phase p)) = app_event_source (pr_app p)"
  "app_risk_engine (pr_app (stop_health_phase p)) = app_risk_engine (pr_app p)"
  "app_risk_engine (pr_app (fst (stop_source_phase env pw))) = app_risk_engine (pr_app (fst pw))"
  "app_ring_buffer (pr_app (stop_health_phase p)) = app_ring_buffer (pr_app p)"
  "app_ring_buffer (pr_app (fst (stop_source_phase env pw))) = app_ring_buffer (pr_app (fst pw))"
  "app_dispatcher (pr_app (stop_health_phase p)) = app_dispatcher (pr_app p)"
  "app_dispatcher (pr_app (fst (stop_source_phase env pw))) = app_dispatcher (pr_app (fst pw))"
  "pr_trace (stop_health_phase p) = pr_trace p @ (if app_health_server (pr_app p) \<noteq> None then [A_stop_health] else [])"
  "pr_trace (fst (stop_source_phase env pw)) = pr_trace (fst pw) @
     (if app_event_source (pr_app (fst pw)) \<noteq> None then [A_stop_source] else [])"
  "pr_trace (fst (stop_dispatcher_phase env pw)) = pr_trace (fst pw) @
     (if app_dispatcher (pr_app (fst pw)) \<noteq> None then [A_stop_dispatcher] else [])"
  by (simp_all add: stop_health_phase_def stop_source_phase_def stop_dispatcher_phase_def case_prod_beta
      split: option.splits)

lemma stop_orderly_trace:
  assumes "stop_orderly env (p, w) = Some (p', w')" and "\<not> app_stopped (pr_app p)"
  shows "pr_joinable p' = pr_joinable p" "app_stopped (pr_app p')"
    "\<exists>pushed drained. pr_trace p' = pr_trace p @ stop_trace (pr_app p) pushed drained"
proof -
  let ?pw = "stop_source_phase env (stop_health_phase (p\<lparr>pr_app := (pr_app p)\<lparr>app_stopped := True\<rparr>\<rparr>), w)"
  from assms obtain pw1 where pw1: "stop_engine_phase env ?pw = Some pw1" "(p', w') = stop_dispatcher_phase env pw1"
    by (auto simp: stop_orderly_def split: bind_splits)
  then have p1: "stop_engine_phase env (fst ?pw, snd ?pw) = Some (fst pw1, snd pw1)" by simp
  have p': "p' = fst (stop_dispatcher_phase env pw1)" using pw1(2) by (metis fst_conv)
  show "pr_joinable p' = pr_joinable p" "app_stopped (pr_app p')"
    "\<exists>pushed drained. pr_trace p' = pr_trace p @ stop_trace (pr_app p) pushed drained"
    using stop_engine_phase_trace [OF p1] by (simp_all add: p' stop_trace_def)
qed

lemma join_thread_trace:
  assumes "join_thread env t (p, w) = Some (p', w')"
  shows "pr_joinable p' = filter (\<lambda>u. u \<noteq> t) (pr_joinable p)" "pr_app p' = pr_app p"
    "pr_trace p' = pr_trace p @ (if t \<in> set (pr_joinable p) then [A_join t] else [])"
  using assms by (auto simp: join_thread_def filter_id_conv intro!: filter_True [symmetric] split: if_splits bind_splits)

lemma join_threads_trace:
  assumes "join_threads env (p, w) = Some (p', w')"
  shows "pr_joinable p' = []" "pr_app p' = pr_app p"
    "pr_trace p' = pr_trace p @ map A_join (filter (\<lambda>t. t \<in> set (pr_joinable p)) [T_event_source, T_risk_engine, T_dispatcher])"
proof -
  from assms obtain p1 w1 p2 w2 where *: "join_thread env T_event_source (p, w) = Some (p1, w1)"
    "join_thread env T_risk_engine (p1, w1) = Some (p2, w2)" "join_thread env T_dispatcher (p2, w2) = Some (p', w')"
    by (auto simp: join_threads_def split: bind_splits)
  note facts = join_thread_trace [OF *(1)] join_thread_trace [OF *(2)] join_thread_trace [OF *(3)]
  have "t \<in> {T_dispatcher, T_risk_engine, T_event_source}" for t by (cases t) auto
  then show "pr_joinable p' = []" using facts by (auto simp: filter_empty_conv)
  show "pr_app p' = pr_app p"
    "pr_trace p' = pr_trace p @ map A_join (filter (\<lambda>t. t \<in> set (pr_joinable p)) [T_event_source, T_risk_engine, T_dispatcher])"
    using facts by auto
qed


section \<open>A whole run\<close>

text \<open>Every module is there and nothing has been stopped.\<close>

definition armed :: "App \<Rightarrow> bool" where
  "armed app \<longleftrightarrow> app_event_source app \<noteq> None \<and> app_dispatcher app \<noteq> None \<and> app_risk_engine app \<noteq> None \<and>
     app_ring_buffer app \<and> app_health_server app \<noteq> None \<and> \<not> app_stopped app"

lemma init_pipeline_modules:
  assumes "init_pipeline env app w = (r, app1, w')"
  shows "app_stopped app1 = app_stopped app" and "app_ring_buffer app1"
    and "r = None \<Longrightarrow> app_event_source app1 \<noteq> None"
  using assms by (auto simp: init_pipeline_def Let_def split: if_splits option.splits sum.splits prod.splits)

lemma load_configs_modules [simp]:
  "app_stopped (load_configs env app) = app_stopped app" "app_ring_buffer (load_configs env app) = app_ring_buffer app"
  "app_event_source (load_configs env app) = app_event_source app"
  by (simp_all add: load_configs_def Let_def)

lemma init_dispatcher_ring: "init_dispatcher env app = Some app' \<Longrightarrow> app_ring_buffer app' = app_ring_buffer app"
  by (auto simp: init_dispatcher_def split: if_splits bind_splits)

lemma register_rules_modules [simp]:
  "app_stopped (register_rules env app) = app_stopped app" "app_ring_buffer (register_rules env app) = app_ring_buffer app"
  "app_event_source (register_rules env app) = app_event_source app"
  "app_health_server (register_rules env app) = app_health_server app"
  "app_risk_engine (register_rules env app) = None \<longleftrightarrow> app_risk_engine app = None"
  by (simp_all add: register_rules_def split: option.splits prod.splits)

lemma init_modules_total: "init_modules env app w \<noteq> None"
proof -
  obtain r app1 w1 where pipe: "init_pipeline env app w = (r, app1, w1)" by (metis prod_cases3)
  obtain app2 where "init_dispatcher env (load_configs env app1) = Some app2" using init_dispatcher_some by blast
  with pipe show ?thesis by (cases r) (simp_all add: init_modules_def)
qed

lemma init_modules_armed:
  assumes "init_modules env app w = Some (r, app1, w')" and "\<not> app_stopped app"
  shows "\<not> app_stopped app1" and "r = None \<Longrightarrow> armed (register_rules env app1)"
proof -
  obtain r0 appa wa where pipe: "init_pipeline env app w = (r0, appa, wa)" by (metis prod_cases3)
  note facts = init_pipeline_modules [OF pipe]
  have "\<not> app_stopped app1 \<and> (r = None \<longrightarrow> armed (register_rules env app1))"
  proof (cases r0)
    case None
    with assms pipe obtain app2 where disp: "init_dispatcher env (load_configs env appa) = Some app2"
      and r: "r = None" "app1 = app2\<lparr>app_risk_engine := Some (new_engine (app_metrics app2) (Some new_heartbeat)),
                 app_health_server := Some (new_health_server (cfg_health_listen_address (app_cfg app2)))\<rparr>"
      by (auto simp: init_modules_def split: bind_splits)
    obtain d where "app_dispatcher app2 = Some d" using init_dispatcher_result [OF disp] by blast
    with init_dispatcher_frame [OF disp] init_dispatcher_ring [OF disp] r facts None assms(2) show ?thesis
      by (simp add: armed_def register_rules_dispatcher)
  next
    case (Some e)
    with assms pipe facts show ?thesis by (auto simp: init_modules_def)
  qed
  then show "\<not> app_stopped app1" "r = None \<Longrightarrow> armed (register_rules env app1)" by simp_all
qed

lemma spawn_cases:
  assumes "spawn env t (p, w) = (r, p', w')"
  shows "pr_app p' = pr_app p" "set (pr_trace p') \<subseteq> set (pr_trace p) \<union> {A_spawn t}"
    "r = None \<Longrightarrow> p' = did [A_spawn t] (p\<lparr>pr_joinable := pr_joinable p @ [t]\<rparr>)"
  using assms by (auto simp: spawn_def split: prod.splits option.splits)

lemma start_health_modules [simp]:
  "pr_joinable (start_health p) = pr_joinable p" "app_stopped (pr_app (start_health p)) = app_stopped (pr_app p)"
  "app_event_source (pr_app (start_health p)) = app_event_source (pr_app p)"
  "app_dispatcher (pr_app (start_health p)) = app_dispatcher (pr_app p)"
  "app_risk_engine (pr_app (start_health p)) = app_risk_engine (pr_app p)"
  "app_ring_buffer (pr_app (start_health p)) = app_ring_buffer (pr_app p)"
  by (simp_all add: start_health_def split: option.splits sum.splits)

lemma start_health_trace:
  assumes "app_health_server (pr_app p) \<noteq> None"
  shows "\<exists>ok. pr_trace (start_health p) = pr_trace p @ [A_health_start ok] \<and>
     (app_health_server (pr_app (start_health p)) \<noteq> None \<longleftrightarrow> ok)"
  using assms by (auto simp: start_health_def split: option.splits sum.splits)

lemma start_threads_cases:
  assumes "start_threads env (p, w) = (r, p', w')"
  shows "app_stopped (pr_app p') = app_stopped (pr_app p)"
    "r \<noteq> None \<Longrightarrow> set (pr_trace p') \<subseteq> set (pr_trace p) \<union> range A_spawn"
    "r = None \<Longrightarrow> p' = start_health (did [A_spawn T_dispatcher, A_spawn T_risk_engine, A_spawn T_event_source]
       (p\<lparr>pr_joinable := pr_joinable p @ [T_dispatcher, T_risk_engine, T_event_source]\<rparr>))"
proof -
  obtain r1 p1 w1 where 1: "spawn env T_dispatcher (p, w) = (r1, p1, w1)" by (metis prod_cases3)
  obtain r2 p2 w2 where 2: "spawn env T_risk_engine (p1, w1) = (r2, p2, w2)" by (metis prod_cases3)
  obtain r3 p3 w3 where 3: "spawn env T_event_source (p2, w2) = (r3, p3, w3)" by (metis prod_cases3)
  note facts = spawn_cases [OF 1] spawn_cases [OF 2] spawn_cases [OF 3]
  have eq: "(r, p', w') = (if r1 \<noteq> None then (r1, p1, w1) else if r2 \<noteq> None then (r2, p2, w2)
      else if r3 \<noteq> None then (r3, p3, w3) else (None, start_health p3, w3))"
    using assms 1 2 3 by (auto simp: start_threads_def)
  show "app_stopped (pr_app p') = app_stopped (pr_app p)"
    "r \<noteq> None \<Longrightarrow> set (pr_trace p') \<subseteq> set (pr_trace p) \<union> range A_spawn"
    using eq facts by (auto split: if_splits)
  show "p' = start_health (did [A_spawn T_dispatcher, A_spawn T_risk_engine, A_spawn T_event_source]
       (p\<lparr>pr_joinable := pr_joinable p @ [T_dispatcher, T_risk_engine, T_event_source]\<rparr>))" if "r = None"
    using that eq facts(3,6,9) by (auto simp: did_def split: if_splits)
qed


text \<open>The whole trace of a run that ends with a requested stop.\<close>

definition clean_trace :: "bool \<Rightarrow> bool \<Rightarrow> bool \<Rightarrow> action list" where
  "clean_trace health pushed drained =
     [A_spawn T_dispatcher, A_spawn T_risk_engine, A_spawn T_event_source, A_health_start health,
      A_write_ready, A_remove_ready] @
     (if health then [A_stop_health] else []) @ [A_stop_source] @ pill_trace pushed drained @
     [A_stop_dispatcher, A_join T_event_source, A_join T_risk_engine, A_join T_dispatcher]"

lemma shut_down_trace:
  assumes "shut_down env (p, w) = Some (p', w')" and "\<not> app_stopped (pr_app p)"
  shows "pr_joinable p' = []" "app_stopped (pr_app p')"
    "\<exists>pushed drained. pr_trace p' = pr_trace p @ stop_trace (pr_app p) pushed drained @
       map A_join (filter (\<lambda>t. t \<in> set (pr_joinable p)) [T_event_source, T_risk_engine, T_dispatcher])"
proof -
  from assms obtain p1 w1 where p1: "stop_orderly env (p, w) = Some (p1, w1)" "join_threads env (p1, w1) = Some (p', w')"
    by (auto simp: shut_down_def split: bind_splits)
  note facts = stop_orderly_trace [OF p1(1) assms(2)] join_threads_trace [OF p1(2)]
  from facts show "pr_joinable p' = []" "app_stopped (pr_app p')" by simp_all
  from facts(3) obtain pushed drained where "pr_trace p1 = pr_trace p @ stop_trace (pr_app p) pushed drained" by blast
  with facts show "\<exists>pushed drained. pr_trace p' = pr_trace p @ stop_trace (pr_app p) pushed drained @
       map A_join (filter (\<lambda>t. t \<in> set (pr_joinable p)) [T_event_source, T_risk_engine, T_dispatcher])"
    by (intro exI [of _ pushed] exI [of _ drained]) simp
qed

lemma run_body_cases:
  assumes "run_body aenv env (p, w) = Some (r, p', w')" and "\<not> app_stopped (pr_app p)" and "pr_trace p = []" and "pr_joinable p = []"
  shows "\<not> app_stopped (pr_app p')" "r \<noteq> None \<Longrightarrow> set (pr_trace p') \<subseteq> range A_spawn"
    "r = None \<Longrightarrow> \<exists>ok. pr_trace p' = [A_spawn T_dispatcher, A_spawn T_risk_engine, A_spawn T_event_source,
       A_health_start ok, A_write_ready, A_remove_ready] \<and> pr_joinable p' = [T_dispatcher, T_risk_engine, T_event_source] \<and>
       (app_health_server (pr_app p') \<noteq> None \<longleftrightarrow> ok) \<and> armed ((pr_app p')\<lparr>app_health_server := Some (new_health_server [])\<rparr>)"
proof -
  obtain r1 app w1 where init: "init_modules aenv (pr_app p) w = Some (r1, app, w1)"
    using init_modules_total [of aenv "pr_app p" w] by (cases "init_modules aenv (pr_app p) w") auto
  note armed = init_modules_armed [OF init assms(2)]
  obtain r2 p2 w2 where start: "start_threads env (p\<lparr>pr_app := register_rules aenv app\<rparr>, w1) = (r2, p2, w2)"
    by (metis prod_cases3)
  note facts = start_threads_cases [OF start]
  have eq: "r1 \<noteq> None \<and> r = r1 \<and> p' = p\<lparr>pr_app := app\<rparr> \<or> r1 = None \<and> r2 \<noteq> None \<and> r = r2 \<and> p' = p2 \<or>
      r1 = None \<and> r2 = None \<and> r = None \<and> p' = did [A_write_ready, A_remove_ready] p2"
    using assms(1) by (auto simp: run_body_def init start split: option.splits bind_splits)
  then show "\<not> app_stopped (pr_app p')" "r \<noteq> None \<Longrightarrow> set (pr_trace p') \<subseteq> range A_spawn"
    using armed facts assms(3) by auto
  assume "r = None"
  with eq have r: "r1 = None" "r2 = None" "p' = did [A_write_ready, A_remove_ready] p2" by auto
  let ?p = "did [A_spawn T_dispatcher, A_spawn T_risk_engine, A_spawn T_event_source]
     (p\<lparr>pr_app := register_rules aenv app, pr_joinable := [T_dispatcher, T_risk_engine, T_event_source]\<rparr>)"
  have p2: "p2 = start_health ?p" using facts(3) r assms(4) by simp
  from armed(2) r have a: "armed (pr_app ?p)" by simp
  then obtain ok where "pr_trace p2 = pr_trace ?p @ [A_health_start ok]" "app_health_server (pr_app p2) \<noteq> None \<longleftrightarrow> ok"
    using start_health_trace [of ?p] unfolding p2 armed_def by blast
  with a r assms(3) show "\<exists>ok. pr_trace p' = [A_spawn T_dispatcher, A_spawn T_risk_engine, A_spawn T_event_source,
       A_health_start ok, A_write_ready, A_remove_ready] \<and> pr_joinable p' = [T_dispatcher, T_risk_engine, T_event_source] \<and>
       (app_health_server (pr_app p') \<noteq> None \<longleftrightarrow> ok) \<and> armed ((pr_app p')\<lparr>app_health_server := Some (new_health_server [])\<rparr>)"
    by (intro exI [of _ ok]) (simp add: p2 armed_def)
qed


lemma shut_down_returns:
  assumes "clock_laws env clk" and "\<forall>t w. le_join env t w \<noteq> None"
  shows "\<exists>p' w'. shut_down env pw = Some (p', w')"
proof -
  obtain p1 w1 where 1: "stop_orderly env pw = Some (p1, w1)" using stop_orderly_returns [OF assms(1)] by fast
  have join: "\<exists>p' w'. join_thread env t (p, w) = Some (p', w')" for t p w
    using assms(2) by (simp add: join_thread_def) (metis bind.bind_lunit not_None_eq)
  obtain p2 w2 p3 w3 p4 w4 where "join_thread env T_event_source (p1, w1) = Some (p2, w2)"
    "join_thread env T_risk_engine (p2, w2) = Some (p3, w3)" "join_thread env T_dispatcher (p3, w3) = Some (p4, w4)"
    using join by meson
  with 1 show ?thesis by (simp add: shut_down_def join_threads_def)
qed

lemma app_run_returns:
  assumes "clock_laws env clk" and "\<forall>t w. le_join env t w \<noteq> None" and "\<forall>w. le_wait_stop env w \<noteq> None"
  shows "\<exists>code p' w'. app_run aenv env db (p, w) = Some (code, p', w')"
proof -
  obtain ok app db' where db: "init_db aenv (pr_app p) db = (ok, app, db')" by (metis prod_cases3)
  obtain r1 app1 w1 where init: "init_modules aenv app w = Some (r1, app1, w1)"
    using init_modules_total [of aenv app w] by (cases "init_modules aenv app w") auto
  obtain r2 p2 w2 where start: "start_threads env (p\<lparr>pr_app := register_rules aenv app1\<rparr>, w1) = (r2, p2, w2)"
    by (metis prod_cases3)
  obtain w3 where "le_wait_stop env w2 = Some w3" using assms(3) by blast
  with init start obtain r pw where body: "run_body aenv env (p\<lparr>pr_app := app\<rparr>, w) = Some (r, pw)"
    by (cases r1; cases r2) (auto simp: run_body_def)
  obtain p' w' where "shut_down env pw = Some (p', w')" using shut_down_returns [OF assms(1,2)] by blast
  with db body show ?thesis by (cases ok) (simp_all add: app_run_def init_logging_def)
qed

text \<open>Stopping twice is stopping once.\<close>

lemma shut_down_again:
  assumes "app_stopped (pr_app p)" and "pr_joinable p = []"
  shows "shut_down env (p, w) = Some (p, w)"
  using assms by (simp add: shut_down_def stop_orderly_def join_threads_def join_thread_def)

lemma shut_down_fresh:
  assumes "fresh (pr_app p)" and "pr_joinable p = []"
  shows "shut_down env (p, w) = Some (p\<lparr>pr_app := (pr_app p)\<lparr>app_stopped := True\<rparr>\<rparr>, w)"
  using assms by (simp add: shut_down_def stop_orderly_def join_threads_def join_thread_def fresh_def
      stop_health_phase_def stop_source_phase_def stop_dispatcher_phase_def stop_engine_phase_def)

text \<open>A run that got past the database has stopped everything; one that did not has built nothing.\<close>

lemma app_run_cases:
  assumes "app_run aenv env db (new_proc cfg, w) = Some (code, p, w')"
  obtains (no_db) "code = 2" "fresh (pr_app p)" "pr_trace p = []" "pr_joinable p = []"
    | (body) r p0 p1 w1 where "run_body aenv env (p0, w) = Some (r, p1, w1)" "\<not> app_stopped (pr_app p0)"
        "pr_trace p0 = []" "pr_joinable p0 = []" "shut_down env (p1, w1) = Some (p, w')"
        "code = (case r of None \<Rightarrow> 0 | Some e \<Rightarrow> exit_code e)"
proof -
  obtain ok app db' where db: "init_db aenv (new_app cfg) db = (ok, app, db')" by (metis prod_cases3)
  have fresh: "fresh app" using init_db_fresh [OF new_app_fresh db] .
  let ?p = "(new_proc cfg)\<lparr>pr_app := app\<rparr>"
  have new: "pr_app (new_proc cfg) = new_app cfg" "pr_trace ?p = []" "pr_joinable ?p = []"
    by (simp_all add: new_proc_def)
  show thesis
  proof (cases ok)
    case False
    with assms db new fresh no_db show thesis by (auto simp: app_run_def init_logging_def)
  next
    case True
    with assms db new obtain r p1 w1 where "run_body aenv env (?p, w) = Some (r, p1, w1)"
      and "shut_down env (p1, w1) = Some (p, w')" "code = (case r of None \<Rightarrow> 0 | Some e \<Rightarrow> exit_code e)"
      by (auto simp: app_run_def init_logging_def split: bind_splits)
    moreover have "\<not> app_stopped (pr_app ?p)" using fresh by (simp add: fresh_def)
    ultimately show thesis using body new by blast
  qed
qed

lemma run_stops:
  assumes "app_run aenv env db (new_proc cfg, w) = Some (code, p, w')"
  shows "pr_joinable p = [] \<and> (app_stopped (pr_app p) \<or> fresh (pr_app p))"
  using assms
proof (cases rule: app_run_cases)
  case (body r p0 p1 w1)
  from shut_down_trace [OF body(5) run_body_cases(1) [OF body(1-4)]] show ?thesis by simp
qed simp

section \<open>Properties\<close>

text \<open>
  C18: what a run leaves behind.  Whenever \<open>run\<close> returns, no thread is left to join, and the exit code
  tells what happened: 2 when the database could not be prepared (nothing was started); 3 or 4
  after an exception during start-up (whatever had been started is stopped and joined, and the
  process never declared itself ready); 0 after a requested stop, with exactly one trace up to
  the health server and the two time-outs: threads started, ready file written and removed, then
  health server, event source, engine (behind its pill) and dispatcher stopped in this order, then
  the threads joined.
\<close>

theorem run_leaves_nothing:
  assumes "app_run aenv env db (new_proc cfg, w) = Some (code, p, w')"
  shows "pr_joinable p = [] \<and>
     (code = 2 \<and> pr_trace p = [] \<or>
      code \<in> {3, 4} \<and> app_stopped (pr_app p) \<and> A_write_ready \<notin> set (pr_trace p) \<or>
      code = 0 \<and> app_stopped (pr_app p) \<and> (\<exists>health pushed drained. pr_trace p = clean_trace health pushed drained))"
  using assms
proof (cases rule: app_run_cases)
  case no_db
  then show ?thesis by simp
next
  case (body r p0 p1 w1)
  note body' = run_body_cases [OF body(1-4)]
  note down = shut_down_trace [OF body(5) body'(1)]
  obtain pushed drained where trace: "pr_trace p = pr_trace p1 @ stop_trace (pr_app p1) pushed drained @
      map A_join (filter (\<lambda>t. t \<in> set (pr_joinable p1)) [T_event_source, T_risk_engine, T_dispatcher])"
    using down(3) by blast
  show ?thesis
  proof (cases r)
    case None
    with body'(3) trace have "\<exists>health. pr_trace p = clean_trace health pushed drained"
      by (auto simp: clean_trace_def stop_trace_def armed_def)
    with None body(6) down show ?thesis by auto
  next
    case (Some e)
    with body'(2) have "A_write_ready \<notin> set (pr_trace p1)" by auto
    then have "A_write_ready \<notin> set (pr_trace p)" by (auto simp: trace stop_trace_def)
    with Some body(6) down show ?thesis by (simp add: exit_code_def)
  qed
qed

definition sample_life :: "int life_env" where
  "sample_life = \<lparr>le_spawn = (\<lambda>_ w. (None, w)), le_wait_stop = Some, le_steady_ns = (\<lambda>w. (w, w)),
     le_try_push = (\<lambda>_ w. (True, w)), le_is_finished = (\<lambda>w. (w > 7, w)), le_sleep_ms = (\<lambda>ms w. w + ms * 1000000),
     le_stop = (\<lambda>_ w. w), le_join = (\<lambda>_ w. Some w)\<rparr>"

lemma sample_life_laws:
  "clock_laws sample_life id" "\<forall>t w. le_join sample_life t w \<noteq> None" "\<forall>w. le_wait_stop sample_life w \<noteq> None"
  by (simp_all add: clock_laws_def sample_life_def)

theorem run_leaves_nothing_witness:
  "\<exists>code p w'. app_run (sample_app_env []) sample_life None (new_proc sample_config, 0) = Some (code, p, w') \<and>
     pr_joinable p = []"
proof -
  obtain code p w' where "app_run (sample_app_env []) sample_life None (new_proc sample_config, 0) = Some (code, p, w')"
    using app_run_returns [OF sample_life_laws] by blast
  with run_leaves_nothing [OF this] show ?thesis by blast
qed

text \<open>
  C19: the process ends.  If the clock goes forward, every thread that is told to stop can be joined
  and somebody requests the stop, then \<open>run\<close> returns whatever the ring buffer and the engine do
  (both waits of the stop give up after the drain time-out), and the destructor after it adds
  nothing to what was done.
\<close>

theorem run_terminates:
  assumes "clock_laws env clk" and "\<forall>t w. le_join env t w \<noteq> None" and "\<forall>w. le_wait_stop env w \<noteq> None"
  shows "\<exists>code p w' p'. app_run aenv env db (new_proc cfg, w) = Some (code, p, w') \<and>
     shut_down env (p, w') = Some (p', w') \<and> pr_trace p' = pr_trace p"
proof -
  obtain code p w' where run: "app_run aenv env db (new_proc cfg, w) = Some (code, p, w')"
    using app_run_returns [OF assms] by blast
  then consider "app_stopped (pr_app p)" "pr_joinable p = []" | "fresh (pr_app p)" "pr_joinable p = []"
    using run_stops [OF run] by blast
  then show ?thesis
  proof cases
    case 1
    with run shut_down_again [OF this, of env w'] show ?thesis by blast
  next
    case 2
    with run shut_down_fresh [OF this, of env w'] show ?thesis by fastforce
  qed
qed

theorem run_terminates_witness:
  "\<exists>code p w'. app_run (sample_app_env []) sample_life None (new_proc sample_config, 0) = Some (code, p, w')"
  using run_terminates [OF sample_life_laws, of "sample_app_env []" None sample_config 0] by blast


end
