(* ===== verification/Backtest_App.thy ===== *)
theory Backtest_App
  imports Backtest_Config App_Lifecycle
begin

text \<open>
  The backtest run (\<open>backtest/backtest_app.cpp\<close>): the same event source, engine and dispatcher as
  the daemon, with a file as the only channel, only the rules that have configurations, no metrics
  and no heartbeats.  The construction is \<open>backtest_init\<close>; the threads and the draining are \<open>backtest_drain\<close>, a
  trace of actions over the record \<open>life_env\<close>.  The lemmas show that leaving out the empty rules
  changes no alert, and that the run ends.
\<close>

section \<open>Construction\<close>

record BacktestApp =
  ba_rpc :: JsonRpcClient
  ba_adapter :: adapter
  ba_event_source :: EventSource
  ba_dispatcher :: AlertDispatcher
  ba_risk_engine :: RiskEngine
  ba_rules :: rule_store

definition active_rule_types :: "BacktestConfig \<Rightarrow> string list" where
  "active_rule_types cfg =
     (if bt_large_transfer cfg \<noteq> [] then [''large_transfer''] else []) @
     (if bt_governance cfg \<noteq> [] then [''governance''] else []) @
     (if bt_mint_burn cfg \<noteq> [] then [''mint_burn''] else []) @
     (if bt_approval cfg \<noteq> [] then [''approval''] else []) @
     (if br_configs_by_key (bt_bridge cfg) \<noteq> [] then [''bridge_transfer''] else []) @
     (if bt_oracle cfg \<noteq> [] then [''oracle_update''] else [])"

definition backtest_dedup_cfg :: DeduplicatorConfig where
  "backtest_dedup_cfg =
     \<lparr>dc_default_window_ms = 60000,
      dc_per_rule_window_ms =
        [(''large_transfer'', 60000), (''governance'', 3600000), (''mint_burn'', 60000),
         (''approval'', 300000), (''bridge_transfer'', 60000), (''oracle_update'', 300000)],
      dc_cleanup_every_n_alerts = 100\<rparr>"

definition backtest_rules :: "BacktestConfig \<Rightarrow> RiskRule list" where
  "backtest_rules cfg =
     (if bt_large_transfer cfg \<noteq> [] then [R_LargeTransfer (bt_large_transfer cfg)] else []) @
     (if bt_governance cfg \<noteq> [] then [R_Governance (bt_governance cfg)] else []) @
     (if bt_mint_burn cfg \<noteq> [] then [R_MintBurn (bt_mint_burn cfg)] else []) @
     (if bt_approval cfg \<noteq> [] then [R_Approval (bt_approval cfg)] else []) @
     (if br_configs_by_key (bt_bridge cfg) \<noteq> [] then [R_BridgeTransfer (bt_bridge cfg)] else []) @
     (if bt_oracle cfg \<noteq> [] then [R_OracleUpdate \<lparr>ou_configs_by_feed = bt_oracle cfg, ou_last_by_feed = []\<rparr>] else [])"

definition backtest_source_config :: "BacktestConfig \<Rightarrow> EventSourceConfig" where
  "backtest_source_config cfg =
     default_event_source_config\<lparr>ec_start_block := bt_start_block cfg, ec_backtest_end_block := bt_end_block cfg,
       ec_max_block_range := bt_max_block_range cfg\<rparr>"

text \<open>The assertion of \<open>add_channel\<close> holds, the dispatcher not running; \<open>None\<close> would be its failure.\<close>

definition backtest_init ::
  "'w rpc_env \<Rightarrow> file_env \<Rightarrow> BacktestConfig \<Rightarrow> string \<Rightarrow> 'w \<Rightarrow> BacktestApp result option \<times> 'w" where
  "backtest_init rpc fs cfg rpc_url w =
     (case new_rpc_client rpc_url False of
        Inl e \<Rightarrow> (Some (Inl e), w)
      | Inr client \<Rightarrow>
          (case adapter_for (bt_chain cfg) of
             None \<Rightarrow> (Some (Inl (RuntimeError (''BacktestApp: unsupported chain '' @ quoted (bt_chain cfg)))), w)
           | Some ad \<Rightarrow>
               (case new_event_source (adapter_chainId ad rpc) (backtest_source_config cfg) False None (client, w) of
                  (Inl e, _, w') \<Rightarrow> (Some (Inl e), w')
                | (Inr es, client', w') \<Rightarrow>
                    (case new_file_channel fs (bt_output_path cfg) of
                       Inl e \<Rightarrow> (Some (Inl e), w')
                     | Inr file \<Rightarrow>
                         (case add_channel (Some (C_File file))
                                 (new_dispatcher False backtest_dedup_cfg (active_rule_types cfg) None) of
                            None \<Rightarrow> (None, w')
                          | Some d \<Rightarrow>
                              (case fold add_rule (backtest_rules cfg) ([], new_engine False None) of
                                 (store, engine) \<Rightarrow>
                                   (Some (Inr \<lparr>ba_rpc = client', ba_adapter = ad, ba_event_source = es, ba_dispatcher = d,
                                      ba_risk_engine = engine, ba_rules = store\<rparr>), w')))))))"

section \<open>Threads and draining\<close>

definition kDrainTimeout :: int where
  "kDrainTimeout = 30 * 1000000000"

primrec join_all :: "'w life_env \<Rightarrow> pipeline_thread list \<Rightarrow> 'w \<Rightarrow> 'w option" where
  "join_all env [] w = Some w"
| "join_all env (t # ts) w = do { w' \<leftarrow> le_join env t w; join_all env ts w' }"

text \<open>
  Starting the threads one by one; when one cannot be created, the destructors of the earlier ones
  join them, last first, and the exception escapes.
\<close>

fun spawn_all :: "'w life_env \<Rightarrow> pipeline_thread list \<Rightarrow> pipeline_thread list \<Rightarrow> 'w \<Rightarrow> (exn option \<times> 'w) option" where
  "spawn_all env [] running w = Some (None, w)"
| "spawn_all env (t # ts) running w =
     (case le_spawn env t w of
        (Some e, w') \<Rightarrow> do { w'' \<leftarrow> join_all env running w'; Some (Some e, w'') }
      | (None, w') \<Rightarrow> spawn_all env ts (t # running) w')"

definition backtest_drain :: "'w life_env \<Rightarrow> 'w \<Rightarrow> (action list \<times> 'w) option" where
  "backtest_drain env w =
     do { w1 \<leftarrow> le_join env T_event_source w;
          (pushed, w2) \<leftarrow> (case le_steady_ns env w1 of (now, w') \<Rightarrow>
             poll_until env (le_try_push env poison_pill) 1 now kDrainTimeout w');
          (drained, w3) \<leftarrow> (case le_steady_ns env w2 of (now, w') \<Rightarrow>
             poll_until env (le_is_finished env) 20 now kDrainTimeout w');
          let w4 = snd (le_is_finished env w3);
          w5 \<leftarrow> le_join env T_risk_engine (le_stop env T_risk_engine w4);
          w6 \<leftarrow> le_join env T_dispatcher (le_stop env T_dispatcher w5);
          Some ([A_join T_event_source, A_push_pill pushed, A_drained drained, A_stop_engine, A_join T_risk_engine,
                 A_stop_dispatcher, A_join T_dispatcher], w6) }"

text \<open>The run after construction: 0, or the exception that leaves it.\<close>

definition backtest_run :: "'w life_env \<Rightarrow> 'w \<Rightarrow> (int result \<times> action list \<times> 'w) option" where
  "backtest_run env w =
     do { (r, w1) \<leftarrow> spawn_all env [T_dispatcher, T_risk_engine, T_event_source] [] w;
          case r of
            Some e \<Rightarrow> Some (Inl e, [], w1)
          | None \<Rightarrow> do { (trace, w2) \<leftarrow> backtest_drain env w1; Some (Inr 0, trace, w2) } }"

section \<open>Rules without configurations\<close>

primrec active :: "RiskRule \<Rightarrow> bool" where
  "active (R_LargeTransfer r) \<longleftrightarrow> r \<noteq> []"
| "active (R_Governance m) \<longleftrightarrow> m \<noteq> []"
| "active (R_MintBurn m) \<longleftrightarrow> m \<noteq> []"
| "active (R_Approval m) \<longleftrightarrow> m \<noteq> []"
| "active (R_BridgeTransfer r) \<longleftrightarrow> br_configs_by_key r \<noteq> []"
| "active (R_OracleUpdate r) \<longleftrightarrow> ou_configs_by_feed r \<noteq> []"

lemma backtest_rules_active: "backtest_rules cfg = filter active (config_rules cfg)"
  by (simp add: backtest_rules_def config_rules_def)

lemma active_rule_types_eq: "active_rule_types cfg = map rule_type_name (backtest_rules cfg)"
  by (simp add: active_rule_types_def backtest_rules_def)

lemma inactive_silent: "\<not> active r \<Longrightarrow> snd (rule_evaluate r s []) = []"
  by (cases r)
     (auto simp: large_transfer_evaluate_def governance_evaluate_def mint_burn_evaluate_def approval_evaluate_def
        bridge_evaluate_def oracle_evaluate_def Let_def split: SignalPayload.splits option.splits)

lemma active_step: "active (fst (rule_evaluate r s [])) = active r"
  by (cases r) (simp_all add: oracle_evaluate_configs case_prod_beta)

lemma after_signal_active: "filter active (after_signal store s) = after_signal (filter active store) s"
  by (simp add: after_signal_def filter_map comp_def if_distrib [of active] active_step cong: if_cong)

lemma signal_alerts_active: "signal_alerts (filter active store) s = signal_alerts store s"
  by (induction store) (auto simp: signal_alerts_def inactive_silent)

lemma deliver_active: "snd (deliver ss (filter active store, out)) = snd (deliver ss (store, out))"
proof (induction ss arbitrary: store out)
  case (Cons s ss)
  then show ?case by (simp add: signal_alerts_active after_signal_active [symmetric])
qed simp

lemma backtest_init_result:
  assumes "backtest_init rpc fs cfg url w = (Some (Inr app), w')"
  shows "ba_rules app = backtest_rules cfg"
    and "ba_risk_engine app = register_all (backtest_rules cfg) (new_engine False None)"
    and "es_cfg (ba_event_source app) = backtest_source_config cfg"
    and "dd_cfg (ad_deduplicator (ba_dispatcher app)) = backtest_dedup_cfg"
  using assms
  by (auto simp: backtest_init_def register_from_empty new_event_source_def add_channel_def new_dispatcher_def
      new_deduplicator_def split: sum.splits option.splits prod.splits if_splits)

section \<open>The run ends\<close>

lemma join_all_returns: "\<forall>t w. le_join env t w \<noteq> None \<Longrightarrow> \<exists>w'. join_all env ts w = Some w'"
proof (induction ts arbitrary: w)
  case (Cons t ts)
  then obtain w1 where "le_join env t w = Some w1" by blast
  with Cons show ?case by simp
qed simp

lemma spawn_all_returns:
  assumes "\<forall>t w. le_join env t w \<noteq> None"
  shows "\<exists>r w'. spawn_all env ts running w = Some (r, w')"
  using assms
proof (induction env ts running w rule: spawn_all.induct)
  case (2 env t ts running w)
  obtain r w1 where "le_spawn env t w = (r, w1)" by fastforce
  moreover obtain w2 where "join_all env running w1 = Some w2" using join_all_returns [OF "2.prems"] by blast
  ultimately show ?case using 2 by (cases r) auto
qed simp


lemma backtest_drain_returns:
  assumes "clock_laws env clk" and "\<forall>t w. le_join env t w \<noteq> None"
  shows "\<exists>pushed drained w'. backtest_drain env w = Some ([A_join T_event_source, A_push_pill pushed, A_drained drained,
     A_stop_engine, A_join T_risk_engine, A_stop_dispatcher, A_join T_dispatcher], w')"
proof -
  obtain w1 where 1: "le_join env T_event_source w = Some w1" using assms(2) by blast
  obtain n1 v1 where s1: "le_steady_ns env w1 = (n1, v1)" by fastforce
  obtain pushed w2 where 2: "poll_until env (le_try_push env poison_pill) 1 n1 kDrainTimeout v1 = Some (pushed, w2)"
    using poll_until_returns [OF assms(1), of "le_try_push env poison_pill" 1] assms(1) by (fastforce simp: clock_laws_def)
  obtain n2 v2 where s2: "le_steady_ns env w2 = (n2, v2)" by fastforce
  obtain drained w3 where 3: "poll_until env (le_is_finished env) 20 n2 kDrainTimeout v2 = Some (drained, w3)"
    using poll_until_returns [OF assms(1), of "le_is_finished env" 20] assms(1) by (fastforce simp: clock_laws_def)
  obtain w5 where 5: "le_join env T_risk_engine (le_stop env T_risk_engine (snd (le_is_finished env w3))) = Some w5" using assms(2) by blast
  obtain w6 where 6: "le_join env T_dispatcher (le_stop env T_dispatcher w5) = Some w6" using assms(2) by blast
  show ?thesis by (simp add: backtest_drain_def 1 s1 2 s2 3 5 6)
qed

section \<open>Properties\<close>


text \<open>
  C21: from the document to the report.  With an accepted configuration, every alert that a backtest
  dispatches names a declared customer and one of the active rule types, and the rules stay
  well-formed on normalized signals.
\<close>

theorem backtest_alerts_declared:
  assumes "load_backtest_config y document path = Inr cfg"
    and "backtest_init rpc fs cfg url w = (Some (Inr app), w')" and "list_all signal_wf (taken False obs)"
  shows "list_all (\<lambda>a. al_customer_id a \<in> ce_id ` set (bt_customers cfg) \<and> al_rule_type a \<in> set (active_rule_types cfg))
       (et_dispatched (engine_run obs (start_engine (ba_rules app) (ba_risk_engine app)))) \<and>
     list_all rule_wf (et_store (engine_run obs (start_engine (ba_rules app) (ba_risk_engine app))))"
proof -
  note cfg = load_backtest_cases [OF assms(1)]
  have wf: "list_all rule_wf (backtest_rules cfg)"
    using cfg(1) by (auto simp: config_ok_def backtest_rules_active list_all_iff)
  have "al_customer_id a \<in> ce_id ` set (bt_customers cfg) \<and> al_rule_type a \<in> set (active_rule_types cfg)"
    if a: "a \<in> set (snd (deliver (taken False obs) (backtest_rules cfg, [])))" for a
  proof -
    obtain r where "r \<in> set (backtest_rules cfg)" "al_rule_type a = rule_type_name r" "al_customer_id a \<in> rule_customers r"
      using deliver_origin [OF a] by (auto simp: alert_stamped_def)
    then show ?thesis
      using declared_customers [OF cfg(2)] by (auto simp: active_rule_types_eq list_all_iff backtest_rules_active)
  qed
  with deliver_wf [OF wf assms(3)] show ?thesis
    unfolding backtest_init_result(1,2) [OF assms(2)] engine_run_start by (simp add: list_all_iff)
qed

text \<open>
  A backtest ends.  If the clock goes forward and every thread can be joined, the run returns:
  with 0 after the event source has ended, a pill, a bounded wait for the engine and the stop of
  engine and dispatcher in this order, or with the exception of a thread that could not be created,
  after the others were joined.
\<close>

theorem backtest_run_ends:
  assumes "clock_laws env clk" and "\<forall>t w. le_join env t w \<noteq> None"
  shows "\<exists>r trace w'. backtest_run env w = Some (r, trace, w') \<and>
     ((\<exists>e. r = Inl e) \<and> trace = [] \<or>
      r = Inr 0 \<and> (\<exists>pushed drained. trace = [A_join T_event_source, A_push_pill pushed, A_drained drained,
        A_stop_engine, A_join T_risk_engine, A_stop_dispatcher, A_join T_dispatcher]))"
proof -
  obtain r w1 where 1: "spawn_all env [T_dispatcher, T_risk_engine, T_event_source] [] w = Some (r, w1)"
    using spawn_all_returns [OF assms(2)] by blast
  show ?thesis
  proof (cases r)
    case None
    obtain pushed drained w2 where "backtest_drain env w1 = Some ([A_join T_event_source, A_push_pill pushed, A_drained drained,
        A_stop_engine, A_join T_risk_engine, A_stop_dispatcher, A_join T_dispatcher], w2)"
      using backtest_drain_returns [OF assms] by blast
    then show ?thesis by (simp add: backtest_run_def 1 None del: spawn_all.simps)
  qed (simp add: backtest_run_def 1 del: spawn_all.simps)
qed

theorem backtest_run_ends_witness:
  "\<exists>r trace w'. backtest_run sample_life 0 = Some (r, trace, w')"
  using backtest_run_ends [OF sample_life_laws(1,2), of 0] by blast

definition sample_files :: file_env where
  "sample_files = \<lparr>fe_parent = (\<lambda>_. None), fe_create_directories = (\<lambda>_. None), fe_open = (\<lambda>_. True)\<rparr>"

lemma sample_backtest_init:
  assumes "bt_chain cfg = ''ethereum''"
  shows "\<exists>app. backtest_init (av_rpc (sample_app_env [])) sample_files cfg ''node'' w = (Some (Inr app), w)"
proof -
  obtain c where c: "new_rpc_client ''node'' False = Inr c" by (simp add: new_rpc_client_def)
  obtain c' where c': "ethereum_chainId (av_rpc (sample_app_env [])) (c, w) = (Inr 1, c', w)"
    using sample_chainId [of "[]" c w] by blast
  have fch: "new_file_channel sample_files p = Inr \<lparr>fa_output_path = p, fa_content = [], fa_alert_count = 0\<rparr>" for p
    by (simp add: new_file_channel_def sample_files_def)
  have chan: "\<exists>d'. add_channel (Some ch) (new_dispatcher m dc rts h) = Some d'" for ch m dc rts h
    by (simp add: add_channel_def new_dispatcher_def)
  show ?thesis
    using chan [of "C_File \<lparr>fa_output_path = bt_output_path cfg, fa_content = [], fa_alert_count = 0\<rparr>" False backtest_dedup_cfg
        "active_rule_types cfg" None]
    by (auto simp: backtest_init_def c assms adapter_for_def c' new_event_source_def fch register_from_empty)
qed


theorem backtest_alerts_declared_witness:
  "\<exists>cfg (app :: BacktestApp). load_backtest_config sample_yaml (Some (Inr (Some sample_document))) ''f'' = Inr cfg \<and>
     list_all rule_wf (et_store (engine_run [sample_obs None] (start_engine (ba_rules app) (ba_risk_engine app))))"
proof -
  obtain cfg where cfg: "load_backtest_config sample_yaml (Some (Inr (Some sample_document))) ''f'' = Inr cfg"
    "bt_chain cfg = ''ethereum''"
    using sample_document_accepted by blast
  obtain app where "backtest_init (av_rpc (sample_app_env [])) sample_files cfg ''node'' () = (Some (Inr app), ())"
    using sample_backtest_init [OF cfg(2), of "()"] by auto
  from backtest_alerts_declared [OF cfg(1) this, of "[sample_obs None]"] cfg(1) show ?thesis
    by (auto simp: sample_obs_def)
qed


end
