(* ===== verification/Command_Line.thy ===== *)
theory Command_Line
  imports Backtest_App
begin

text \<open>
  The entry point (\<open>main.cpp\<close>) and the names of the loggers (\<open>log.cpp\<close>): the command is chosen from
  the arguments, the daemon's configuration from the environment, and the exit code is that of
  the command.  A thread waits for the signals that request the stop.  What the commands need
  from outside is one record, \<open>main_env\<close>.
\<close>

section \<open>Definitions\<close>

definition getenv_or :: "(string \<Rightarrow> string option) \<Rightarrow> string \<Rightarrow> string \<Rightarrow> string" where
  "getenv_or getenv k defv = (case getenv k of Some v \<Rightarrow> v | None \<Rightarrow> defv)"

definition env_is_true :: "(string \<Rightarrow> string option) \<Rightarrow> string \<Rightarrow> bool" where
  "env_is_true getenv k =
     (case getenv k of None \<Rightarrow> False | Some s \<Rightarrow> s \<in> {''1'', ''true'', ''TRUE'', ''yes'', ''on''})"

definition daemon_config :: "(string \<Rightarrow> string option) \<Rightarrow> AppConfig" where
  "daemon_config getenv =
     (let chain = getenv_or getenv ''CHAIN'' ''arbitrum'' in
      default_app_config\<lparr>
        cfg_chain := chain,
        cfg_database_url := getenv_or getenv ''DATABASE_URL'' [],
        cfg_rpc_url := (if chain = ''ethereum'' then getenv_or getenv ''ETHEREUM_RPC_URL'' []
                        else getenv_or getenv ''ARBITRUM_RPC_URL'' []),
        cfg_health_listen_address := getenv_or getenv ''HEALTH_LISTEN_ADDRESS'' ''0.0.0.0:8081'',
        cfg_debug := (getenv_or getenv ''LOG_LEVEL'' ''info'' = ''debug'' \<or> env_is_true getenv ''DEBUG''),
        cfg_event_source := default_event_source_config\<lparr>ec_max_block_range := 1000\<rparr>\<rparr>)"

text \<open>
  The signal thread: each turn of its loop sees whether it was asked to stop, and what
  \<open>sigtimedwait\<close> gave: a signal number, a time-out or interruption, or another error.  The result is whether
  it has called \<open>request_stop\<close>, or \<open>None\<close> while it still waits.
\<close>

datatype sig_outcome = Sig int | Sig_again | Sig_error

fun sig_waiter :: "(bool \<times> sig_outcome) list \<Rightarrow> bool option" where
  "sig_waiter [] = None"
| "sig_waiter ((stop_requested, outcome) # turns) =
     (if stop_requested then Some False
      else case outcome of
        Sig n \<Rightarrow> if n = 2 \<or> n = 15 then Some True else sig_waiter turns
      | Sig_again \<Rightarrow> sig_waiter turns
      | Sig_error \<Rightarrow> Some True)"

record ('n, 'w) main_env =
  me_app :: "'w app_env"
  me_life :: "'w life_env"
  me_checkpoints :: checkpoints
  me_yaml :: "'n yaml"
  me_document :: "string \<Rightarrow> 'n option result option"
  me_files :: file_env
  me_rand_secret :: "bytes option"
  me_rand_nonce :: "bytes option"
  me_sigmask_ok :: bool

text \<open>
  \<open>None\<close> is a command that does not return; \<open>Inl e\<close> an exception that no handler of \<open>main\<close> catches.
\<close>

definition main_backtest :: "('n, 'w) main_env \<Rightarrow> string \<Rightarrow> 'w \<Rightarrow> int result option" where
  "main_backtest env path w =
     (let getenv = av_getenv (me_app env);
          ethereum_rpc = getenv_or getenv ''ETHEREUM_RPC_URL'' [];
          arbitrum_rpc = getenv_or getenv ''ARBITRUM_RPC_URL'' [];
          handler = (\<lambda>e. Some (if is_std_exception e then Inr 4 else Inl e)) in
      case load_backtest_config (me_yaml env) (me_document env path) path of
        Inl e \<Rightarrow> handler e
      | Inr cfg \<Rightarrow>
          let rpc_url = (if bt_chain cfg = ''ethereum'' then ethereum_rpc else arbitrum_rpc) in
          if rpc_url = [] then Some (Inr 3)
          else case backtest_init (av_rpc (me_app env)) (me_files env) cfg rpc_url w of
            (None, _) \<Rightarrow> None
          | (Some (Inl e), _) \<Rightarrow> handler e
          | (Some (Inr app), w') \<Rightarrow>
              (case backtest_run (me_life env) w' of
                 None \<Rightarrow> None
               | Some (Inl e, _, _) \<Rightarrow> handler e
               | Some (Inr code, _, _) \<Rightarrow> Some (Inr code)))"

definition main_admin :: "('n, 'w) main_env \<Rightarrow> string list \<Rightarrow> int" where
  "main_admin env args =
     (case encrypt_secret_command (av_ssl (me_app env)) (av_getenv (me_app env) ''SENTINEL_SECRET_MASTER_KEY'')
             (me_rand_secret env) (me_rand_nonce env) args of
        Inl code \<Rightarrow> int code | Inr _ \<Rightarrow> 0)"

definition main_daemon :: "('n, 'w) main_env \<Rightarrow> 'w \<Rightarrow> int result option" where
  "main_daemon env w =
     (if \<not> me_sigmask_ok env then Some (Inr 1)
      else map_option (\<lambda>(code, _). Inr code)
        (app_run (me_app env) (me_life env) (me_checkpoints env)
           (new_proc (daemon_config (av_getenv (me_app env))), w)))"

definition sentinel_main :: "('n, 'w) main_env \<Rightarrow> string list \<Rightarrow> 'w \<Rightarrow> int result option" where
  "sentinel_main env argv w =
     (if length argv \<ge> 3 \<and> argv ! 1 = ''admin'' then
        (if argv ! 2 = ''encrypt-secret'' then Some (Inr (main_admin env (drop 3 argv))) else Some (Inr 1))
      else if length argv \<ge> 2 \<and> argv ! 1 = ''backtest'' then
        (if length argv < 3 then Some (Inr 2) else main_backtest env (argv ! 2) w)
      else main_daemon env w)"

text \<open>The name of each logger.\<close>

datatype LogComponent =
  LC_Core | LC_Rpc | LC_EventSource | LC_Adapter | LC_Db | LC_Alert | LC_Risk | LC_Count

fun component_name :: "LogComponent \<Rightarrow> string" where
  "component_name LC_Core = ''core''"
| "component_name LC_Rpc = ''rpc''"
| "component_name LC_EventSource = ''source''"
| "component_name LC_Adapter = ''adapter''"
| "component_name LC_Db = ''db''"
| "component_name LC_Alert = ''alert''"
| "component_name LC_Risk = ''risk''"
| "component_name LC_Count = ''unknown''"

text \<open>
  The loggers, made once: \<open>None\<close> before \<open>g_init_flag\<close> is set.  Asking for a logger initializes with the
  default level when nobody has done so.
\<close>

record Logger =
  lg_name :: string
  lg_debug :: bool

definition log_init :: "bool \<Rightarrow> Logger list option \<Rightarrow> Logger list option" where
  "log_init debug st =
     (case st of
        Some loggers \<Rightarrow> Some loggers
      | None \<Rightarrow> Some (map (\<lambda>c. \<lparr>lg_name = component_name c, lg_debug = debug\<rparr>)
          [LC_Core, LC_Rpc, LC_EventSource, LC_Adapter, LC_Db, LC_Alert, LC_Risk]))"

fun component_index :: "LogComponent \<Rightarrow> nat" where
  "component_index LC_Core = 0" | "component_index LC_Rpc = 1" | "component_index LC_EventSource = 2"
| "component_index LC_Adapter = 3" | "component_index LC_Db = 4" | "component_index LC_Alert = 5"
| "component_index LC_Risk = 6" | "component_index LC_Count = 7"

definition logger :: "LogComponent \<Rightarrow> Logger list option \<Rightarrow> Logger option \<times> Logger list option" where
  "logger c st =
     (let st' = log_init False st in
      (case st' of None \<Rightarrow> None
       | Some ls \<Rightarrow> if component_index c < length ls then Some (ls ! component_index c) else None, st'))"

section \<open>Lemmas\<close>

text \<open>After the first initialization every component has its own logger, at the level of that first call.\<close>

lemma first_init_wins:
  assumes "c \<noteq> LC_Count"
  shows "fst (logger c (log_init d2 (log_init d1 None))) = Some \<lparr>lg_name = component_name c, lg_debug = d1\<rparr>"
  using assms by (cases c) (simp_all add: logger_def log_init_def)

text \<open>
  The stop is requested exactly when the first turn that is not a plain wait is a termination
  signal or an error, and not a request to end the thread.
\<close>

fun plain_wait :: "bool \<times> sig_outcome \<Rightarrow> bool" where
  "plain_wait (stop, Sig n) \<longleftrightarrow> \<not> stop \<and> n \<noteq> 2 \<and> n \<noteq> 15"
| "plain_wait (stop, Sig_again) \<longleftrightarrow> \<not> stop"
| "plain_wait (stop, Sig_error) \<longleftrightarrow> False"

lemma sig_waiter_request:
  "sig_waiter turns = (case dropWhile plain_wait turns of [] \<Rightarrow> None | t # _ \<Rightarrow> Some (\<not> fst t))"
  by (induction turns rule: sig_waiter.induct) (auto split: sig_outcome.splits)

text \<open>A start-up that throws before the event source exists leaves nothing to stop.\<close>

lemma shut_down_early:
  assumes "app_health_server (pr_app p) = None" "app_event_source (pr_app p) = None" "app_risk_engine (pr_app p) = None"
    "app_dispatcher (pr_app p) = None" "pr_joinable p = []"
  shows "\<exists>p'. shut_down env (p, w) = Some (p', w) \<and> pr_trace p' = pr_trace p"
  using assms
  by (simp add: shut_down_def stop_orderly_def join_threads_def join_thread_def
      stop_health_phase_def stop_source_phase_def stop_dispatcher_phase_def stop_engine_phase_def)

lemma init_pipeline_rejects:
  assumes "fresh app" and "cfg_rpc_url (app_cfg app) = [] \<or> cfg_chain (app_cfg app) \<notin> {''arbitrum'', ''ethereum''}"
    and "\<forall>a e. av_exposer env a = Some e \<longrightarrow> is_std_exception e"
  shows "\<exists>e app'. init_pipeline env app w = (Some e, app', w) \<and> is_std_exception e \<and> app_health_server app' = None \<and>
     app_event_source app' = None \<and> app_risk_engine app' = None \<and> app_dispatcher app' = None"
proof (cases "cfg_rpc_url (app_cfg app) = []")
  case True
  with assms(1) show ?thesis by (simp add: init_pipeline_def is_std_exception_def fresh_def)
next
  case False
  then obtain c where c: "new_rpc_client (cfg_rpc_url (app_cfg app)) True = Inr c" by (simp add: new_rpc_client_def)
  from False assms(2) have "adapter_for (cfg_chain (app_cfg app)) = None" by (simp add: adapter_for_def)
  with False c assms(1,3) show ?thesis
    by (cases "av_exposer env (cfg_metrics_listen_address (app_cfg app))")
       (simp_all add: init_pipeline_def is_std_exception_def fresh_def Let_def)
qed

lemma init_db_config:
  "init_db env app db = (ok, app', db') \<Longrightarrow>
     cfg_rpc_url (app_cfg app') = cfg_rpc_url (app_cfg app) \<and> cfg_chain (app_cfg app') = cfg_chain (app_cfg app)"
  by (auto simp: init_db_def Let_def split: if_splits prod.splits sum.splits)

lemma misconfigured_run:
  assumes "fst (init_db aenv (new_app cfg) db)"
    and "cfg_rpc_url cfg = [] \<or> cfg_chain cfg \<notin> {''arbitrum'', ''ethereum''}"
    and "\<forall>a e. av_exposer aenv a = Some e \<longrightarrow> is_std_exception e"
  shows "\<exists>p. app_run aenv env db (new_proc cfg, w) = Some (3, p, w) \<and> pr_trace p = []"
proof -
  obtain app db' where db: "init_db aenv (new_app cfg) db = (True, app, db')"
    using assms(1) by (cases "init_db aenv (new_app cfg) db") auto
  have app: "fresh app" "cfg_rpc_url (app_cfg app) = [] \<or> cfg_chain (app_cfg app) \<notin> {''arbitrum'', ''ethereum''}"
    using init_db_fresh [OF new_app_fresh db] init_db_config [OF db] assms(2) by (simp_all add: new_app_def)
  from init_pipeline_rejects [OF this assms(3), of w] obtain e app1 where
    pipe: "init_pipeline aenv app w = (Some e, app1, w)" and e: "is_std_exception e" and
    none: "app_health_server app1 = None" "app_event_source app1 = None" "app_risk_engine app1 = None" "app_dispatcher app1 = None"
    by blast
  let ?p = "(new_proc cfg)\<lparr>pr_app := app1\<rparr>"
  obtain p' where "shut_down env (?p, w) = Some (p', w)" "pr_trace p' = pr_trace ?p"
    using shut_down_early [of ?p env w] none by (auto simp: new_proc_def)
  then show ?thesis
    using db pipe e
    by (simp add: app_run_def init_logging_def run_body_def init_modules_def exit_code_def new_proc_def)
qed

section \<open>Properties\<close>

text \<open>
  C23: a misconfigured daemon.  When the database is fine but the node's address for the chosen
  chain is missing from the environment, or \<open>CHAIN\<close> names neither chain, the program started without a
  command returns 3, whatever the clock, the threads and the node do: no thread was started and
  nothing had to be stopped.
\<close>

theorem misconfigured_daemon_exits:
  assumes "me_sigmask_ok env" and "length argv < 2"
    and "fst (init_db (me_app env) (new_app (daemon_config (av_getenv (me_app env)))) (me_checkpoints env))"
    and "getenv_or (av_getenv (me_app env)) ''CHAIN'' ''arbitrum'' \<notin> {''arbitrum'', ''ethereum''} \<or>
      getenv_or (av_getenv (me_app env)) (if getenv_or (av_getenv (me_app env)) ''CHAIN'' ''arbitrum'' = ''ethereum''
        then ''ETHEREUM_RPC_URL'' else ''ARBITRUM_RPC_URL'') [] = []"
    and "\<forall>a e. av_exposer (me_app env) a = Some e \<longrightarrow> is_std_exception e"
  shows "sentinel_main env argv w = Some (Inr 3)"
proof -
  let ?cfg = "daemon_config (av_getenv (me_app env))"
  have "cfg_rpc_url ?cfg = [] \<or> cfg_chain ?cfg \<notin> {''arbitrum'', ''ethereum''}"
    using assms(4) by (auto simp: daemon_config_def Let_def split: if_splits)
  from misconfigured_run [OF assms(3) this assms(5), of "me_life env" w] assms(1,2) show ?thesis
    by (auto simp: sentinel_main_def main_daemon_def)
qed

definition sample_main :: "(jvalue, int) main_env" where
  "sample_main = \<lparr>me_app = (sample_app_env [])\<lparr>av_getenv := (\<lambda>k. if k = ''CHAIN'' then Some ''solana''
       else if k = ''DATABASE_URL'' then Some ''db'' else None)\<rparr>,
     me_life = sample_life, me_checkpoints = None, me_yaml = sample_yaml, me_document = (\<lambda>_. None), me_files = sample_files,
     me_rand_secret = None, me_rand_nonce = None, me_sigmask_ok = True\<rparr>"

theorem misconfigured_daemon_exits_witness: "sentinel_main sample_main [''sentinel''] 0 = Some (Inr 3)"
proof (rule misconfigured_daemon_exits)
  let ?env = "me_app sample_main" and ?app = "new_app (daemon_config (av_getenv (me_app sample_main)))"
  have "\<exists>i<15. av_connect ?env i = Inr True"
    by (rule exI [of _ 2]) (simp add: sample_main_def sample_app_env_def)
  moreover have "app_conn ?app = None" "table_ok None" "cfg_database_url (app_cfg ?app) \<noteq> []"
    "av_schema_fault ?env = None" "av_checkpoint_fault ?env = None"
    by (simp_all add: new_app_def table_ok_def sample_main_def sample_app_env_def daemon_config_def getenv_or_def Let_def)
  ultimately show "fst (init_db ?env ?app (me_checkpoints sample_main))"
    using init_db_connects [of ?app None ?env] by (simp add: sample_main_def)
qed (simp_all add: sample_main_def sample_app_env_def getenv_or_def)

end
