(* ===== verification/Metrics.thy ===== *)
theory Metrics
  imports Sentinel_Prelude
begin

text \<open>
  \<open>metrics/metrics.cpp\<close>: the constructor registers sixteen families with a Prometheus registry and
  keeps a pointer to the series of its own chain for the eight metrics that have no other label.
  Prometheus is a parameter: \<open>pe_exposer\<close> binds the listening address, \<open>pe_register\<close> is
  \<open>Register\<close> and \<open>pe_add\<close> is \<open>Family::Add\<close>; a registry refuses a family whose name it has.
  The lemmas show that the constructor fails only with the exposer, that all names differ, and
  that every cached series belongs to a registered family and carries the chain's label.
\<close>

section \<open>Definitions\<close>

datatype metric_kind = M_Counter | M_Gauge | M_Histogram

record Family =
  fam_kind :: metric_kind
  fam_name :: string
  fam_help :: string

record 'r prom_env =
  pe_exposer :: "string \<Rightarrow> exn option"
  pe_register :: "Family \<Rightarrow> 'r \<Rightarrow> 'r result"
  pe_add :: "string \<Rightarrow> (string \<times> string) list \<Rightarrow> 'r \<Rightarrow> 'r"

record 'r Metrics =
  me_registry :: 'r
  me_exposed :: bool
  me_chain_name :: string
  me_chain_series :: "(string \<times> (string \<times> string) list) list"

definition counter_families :: "Family list" where
  "counter_families =
     [\<lparr>fam_kind = M_Counter, fam_name = ''events_ingested_total'', fam_help = ''Total number of events ingested from RPC''\<rparr>,
      \<lparr>fam_kind = M_Counter, fam_name = ''signals_normalized_total'', fam_help = ''Total number of successfully normalized signals''\<rparr>,
      \<lparr>fam_kind = M_Counter, fam_name = ''alerts_generated_total'', fam_help = ''Total number of alerts generated by rules''\<rparr>,
      \<lparr>fam_kind = M_Counter, fam_name = ''alerts_sent_total'', fam_help = ''Total number of alerts successfully sent''\<rparr>,
      \<lparr>fam_kind = M_Counter, fam_name = ''alerts_send_failures_total'', fam_help = ''Total number of alert send failures''\<rparr>,
      \<lparr>fam_kind = M_Counter, fam_name = ''alerts_deduplicated_total'', fam_help = ''Total number of alerts suppressed by the deduplicator''\<rparr>,
      \<lparr>fam_kind = M_Counter, fam_name = ''rpc_calls_total'', fam_help = ''Total number of RPC calls made''\<rparr>]"

definition gauge_families :: "Family list" where
  "gauge_families =
     [\<lparr>fam_kind = M_Gauge, fam_name = ''ring_buffer_depth'', fam_help = ''Current number of items in the main signal ring buffer''\<rparr>,
      \<lparr>fam_kind = M_Gauge, fam_name = ''alert_queue_depth'', fam_help = ''Current number of items in the alert dispatcher queue''\<rparr>,
      \<lparr>fam_kind = M_Gauge, fam_name = ''last_rpc_success_timestamp_seconds'', fam_help = ''Unix timestamp of the last successful RPC call''\<rparr>,
      \<lparr>fam_kind = M_Gauge, fam_name = ''last_alert_success_timestamp_seconds'', fam_help = ''Unix timestamp of the last successful alert send''\<rparr>,
      \<lparr>fam_kind = M_Gauge, fam_name = ''last_seen_block'', fam_help = ''Highest block number seen from the chain RPC''\<rparr>,
      \<lparr>fam_kind = M_Gauge, fam_name = ''last_processed_block'', fam_help = ''Highest block number successfully processed by the system''\<rparr>]"

definition histogram_families :: "Family list" where
  "histogram_families =
     [\<lparr>fam_kind = M_Histogram, fam_name = ''alert_send_duration_seconds'', fam_help = ''Time taken to send an alert across all channels''\<rparr>,
      \<lparr>fam_kind = M_Histogram, fam_name = ''signal_to_alert_seconds'', fam_help = ''End-to-end latency from signal ingress to alert sent''\<rparr>,
      \<lparr>fam_kind = M_Histogram, fam_name = ''rpc_call_duration_seconds'', fam_help = ''Duration of RPC calls in seconds''\<rparr>]"

definition metric_families :: "Family list" where
  "metric_families = counter_families @ gauge_families @ histogram_families"

primrec register_families :: "'r prom_env \<Rightarrow> Family list \<Rightarrow> 'r \<Rightarrow> 'r result" where
  "register_families env [] r = Inr r"
| "register_families env (f # fs) r = bindE (pe_register env f r) (register_families env fs)"

definition chain_metrics :: "string list" where
  "chain_metrics = [''events_ingested_total'', ''signals_normalized_total'', ''ring_buffer_depth'', ''alert_queue_depth'',
     ''last_rpc_success_timestamp_seconds'', ''last_alert_success_timestamp_seconds'', ''last_seen_block'',
     ''last_processed_block'']"

definition new_metrics :: "'r prom_env \<Rightarrow> string \<Rightarrow> string \<Rightarrow> 'r \<Rightarrow> 'r Metrics result" where
  "new_metrics env listen_address chain r =
     (case pe_exposer env listen_address of
        Some e \<Rightarrow> Inl e
      | None \<Rightarrow>
          bindE (register_families env metric_families r) (\<lambda>r1.
            let chain_label = [(''chain'', chain)] in
            Inr \<lparr>me_registry = fold (\<lambda>n. pe_add env n chain_label) chain_metrics r1, me_exposed = True,
                 me_chain_name = chain, me_chain_series = map (\<lambda>n. (n, chain_label)) chain_metrics\<rparr>))"

section \<open>Names\<close>

definition prom_laws :: "'r prom_env \<Rightarrow> ('r \<Rightarrow> Family list) \<Rightarrow> bool" where
  "prom_laws env families \<longleftrightarrow>
     (\<forall>f r. fam_name f \<notin> fam_name ` set (families r) \<longrightarrow>
        (\<exists>r'. pe_register env f r = Inr r' \<and> families r' = families r @ [f])) \<and>
     (\<forall>n ls r. families (pe_add env n ls r) = families r)"

lemma families_distinct: "distinct (map fam_name metric_families)"
  by (simp add: metric_families_def counter_families_def gauge_families_def histogram_families_def)

lemma chain_metrics_registered:
  "\<forall>n\<in>set chain_metrics. \<exists>f\<in>set metric_families. fam_name f = n \<and> fam_kind f \<noteq> M_Histogram"
  by (simp add: chain_metrics_def metric_families_def counter_families_def gauge_families_def histogram_families_def)

lemma register_families_ok:
  assumes "prom_laws env families" and "distinct (map fam_name (families r @ fs))"
  shows "\<exists>r'. register_families env fs r = Inr r' \<and> families r' = families r @ fs"
  using assms(2)
proof (induction fs arbitrary: r)
  case (Cons f fs)
  then have "fam_name f \<notin> fam_name ` set (families r)" by auto
  with assms(1) obtain r1 where r1: "pe_register env f r = Inr r1" "families r1 = families r @ [f]"
    unfolding prom_laws_def by blast
  then show ?case using Cons.IH [of r1] Cons.prems by auto
qed simp

lemma add_series_families:
  "prom_laws env families \<Longrightarrow> families (fold (\<lambda>n. pe_add env n ls) ns r) = families r"
  by (induction ns arbitrary: r) (simp_all add: prom_laws_def)

text \<open>
  The constructor on an empty registry: it throws exactly what the exposer throws; otherwise the
  registry holds the sixteen families in order, and the cached series are those of the chain.
\<close>

theorem metrics_constructed:
  assumes "prom_laws env families" and "families r = []"
  shows "case pe_exposer env listen_address of
      Some e \<Rightarrow> new_metrics env listen_address chain r = Inl e
    | None \<Rightarrow> \<exists>m. new_metrics env listen_address chain r = Inr m \<and> families (me_registry m) = metric_families \<and>
        (\<forall>(n, labels)\<in>set (me_chain_series m). labels = [(''chain'', chain)] \<and>
           (\<exists>f\<in>set (families (me_registry m)). fam_name f = n \<and> fam_kind f \<noteq> M_Histogram))"
proof -
  obtain r1 where "register_families env metric_families r = Inr r1" "families r1 = metric_families"
    using register_families_ok [OF assms(1), of r metric_families] families_distinct assms(2) by auto
  then show ?thesis
    using chain_metrics_registered add_series_families [OF assms(1)]
    by (auto simp: new_metrics_def Let_def split: option.splits)
qed

end
