(* ===== verification/Model_Json.thy ===== *)
theory Model_Json
  imports Json
begin

text \<open>
  \<open>model.hpp\<close>, \<open>json.hpp\<close> and \<open>events/NormalizedEvent.hpp\<close>: a second description of blocks, transactions
  and logs with its JSON form.  The pipeline does not use it; it is compiled and tested.  The lemmas show
  that the JSON form loses nothing: a reader made of the library's accessors gives the value back.
\<close>

record BlockMeta =
  bm_chain :: string
  bm_number :: u64
  bm_hash :: string
  bm_timestamp :: u64

record TxMeta =
  tm_hash :: string
  tm_from :: string
  tm_to :: string
  tm_nonce :: u64

record LogEvent =
  lg_address :: string
  lg_topics :: "string list"
  lg_data :: string
  lg_log_index :: u32

record NormalizedEvent =
  ne_chain_id :: u64
  ne_block_number :: u64
  ne_block_timestamp :: u64
  ne_tx_index :: u32
  ne_log_index :: u32
  ne_data_size :: u32
  ne_topic_count :: u8
  ne_removed :: bool
  ne_truncated :: bool
  ne_tx_hash :: bytes
  ne_contract :: bytes
  ne_topics :: "bytes list"
  ne_data :: bytes

text \<open>
  The three overloads of \<open>to_json\<close>: a list of pairs with a string in front is an object.  Members are found
  by key only, so the library's own order of them does not matter.
\<close>

definition block_to_json :: "BlockMeta \<Rightarrow> jvalue" where
  "block_to_json b = J_obj [(''chain'', J_str (bm_chain b)), (''number'', J_num (uint (bm_number b))),
     (''hash'', J_str (bm_hash b)), (''timestamp'', J_num (uint (bm_timestamp b)))]"

definition tx_to_json :: "TxMeta \<Rightarrow> jvalue" where
  "tx_to_json t = J_obj [(''hash'', J_str (tm_hash t)), (''from'', J_str (tm_from t)), (''to'', J_str (tm_to t)),
     (''nonce'', J_num (uint (tm_nonce t)))]"

definition log_to_json :: "LogEvent \<Rightarrow> jvalue" where
  "log_to_json e = J_obj [(''address'', J_str (lg_address e)), (''topics'', J_arr (map J_str (lg_topics e))),
     (''data'', J_str (lg_data e)), (''log_index'', J_num (uint (lg_log_index e)))]"

section \<open>Nothing is lost\<close>

definition jmember :: "(jvalue \<Rightarrow> 'a result) \<Rightarrow> jvalue \<Rightarrow> string \<Rightarrow> 'a result" where
  "jmember get j key = bindE (jat j key) get"

lemma mapE_strings: "mapE jget_string (map J_str ss) = Inr ss"
  by (induction ss) (simp_all add: jget_string_def)

lemma u32_through_u64: "ucast (ucast (x :: u32) :: u64) = x"
  by (rule bit_word_eqI) (simp add: bit_simps)

lemmas json_reading = jmember_def jat_def jget_string_def jget_u64_def jget_strings_def mapE_strings u32_through_u64

lemma block_json_members:
  "jmember jget_string (block_to_json b) ''chain'' = Inr (bm_chain b)"
  "jmember jget_u64 (block_to_json b) ''number'' = Inr (bm_number b)"
  "jmember jget_string (block_to_json b) ''hash'' = Inr (bm_hash b)"
  "jmember jget_u64 (block_to_json b) ''timestamp'' = Inr (bm_timestamp b)"
  by (simp_all add: block_to_json_def json_reading)

lemma tx_json_members:
  "jmember jget_string (tx_to_json t) ''hash'' = Inr (tm_hash t)"
  "jmember jget_string (tx_to_json t) ''from'' = Inr (tm_from t)"
  "jmember jget_string (tx_to_json t) ''to'' = Inr (tm_to t)"
  "jmember jget_u64 (tx_to_json t) ''nonce'' = Inr (tm_nonce t)"
  by (simp_all add: tx_to_json_def json_reading)

lemma log_json_members:
  "jmember jget_string (log_to_json e) ''address'' = Inr (lg_address e)"
  "jmember jget_strings (log_to_json e) ''topics'' = Inr (lg_topics e)"
  "jmember jget_string (log_to_json e) ''data'' = Inr (lg_data e)"
  "map_sum id ucast (jmember jget_u64 (log_to_json e) ''log_index'') = Inr (lg_log_index e)"
  by (simp_all add: log_to_json_def json_reading)

text \<open>So two different values never have the same JSON form.\<close>

theorem json_injective:
  "inj block_to_json \<and> inj tx_to_json \<and> inj log_to_json"
proof (intro conjI injI)
  fix b b' assume "block_to_json b = block_to_json b'"
  with block_json_members [of b] block_json_members [of b'] show "b = b'" by simp
next
  fix t t' assume "tx_to_json t = tx_to_json t'"
  with tx_json_members [of t] tx_json_members [of t'] show "t = t'" by simp
next
  fix e e' assume "log_to_json e = log_to_json e'"
  with log_json_members [of e] log_json_members [of e'] show "e = e'" by simp
qed

end
