(* ===== verification/Pipeline.thy ===== *)
theory Pipeline
  imports Risk_Engine Alert_Dispatcher Event_Source "HOL-Library.Sublist"
begin

text \<open>
  The threads that \<open>App::start_threads_\<close> and \<open>BacktestApp::run\<close> start, as one machine.  A state has
  the ring buffer, the engine thread, the alerts the engine's loop has yet to hand over, and the
  dispatcher with its outbox and whether its thread has entered \<open>run\<close>; three histories record what was
  pushed, taken and handled.  A step
  is one \<open>try_push\<close> by a producer, one iteration of the engine, one call of \<open>dispatch\<close>, one turn of the
  dispatcher, or the start and the stops of the threads, in any order.  The ring buffer is
  \<open>rigtorp::SPSCQueue\<close>, a parameter with the laws of a bounded first-in first-out queue.

  The invariant, by rule induction over runs, accounts for every signal and every alert; from it
  follow that an orderly end loses nothing, that everything posted is owed by a rule, and, with
  the ranges the event source covers, that every log of the covered blocks reached the rules.
\<close>

section \<open>Definitions\<close>

record 'q spsc_queue =
  sq_try_push :: "Signal \<Rightarrow> 'q \<Rightarrow> bool \<times> 'q"
  sq_front :: "'q \<Rightarrow> Signal option"
  sq_pop :: "'q \<Rightarrow> 'q"

definition spsc_laws :: "'q spsc_queue \<Rightarrow> ('q \<Rightarrow> Signal list) \<Rightarrow> nat \<Rightarrow> bool" where
  "spsc_laws sq contents capacity \<longleftrightarrow>
     (\<forall>s q. sq_try_push sq s q =
        (length (contents q) < capacity, snd (sq_try_push sq s q)) \<and>
        contents (snd (sq_try_push sq s q)) = contents q @ (if length (contents q) < capacity then [s] else [])) \<and>
     (\<forall>q. sq_front sq q = (case contents q of [] \<Rightarrow> None | s # _ \<Rightarrow> Some s)) \<and>
     (\<forall>q. contents q \<noteq> [] \<longrightarrow> contents (sq_pop sq q) = tl (contents q))"

record 'q pipeline =
  pl_ring :: 'q
  pl_thread :: EngineThread
  pl_emitting :: "Alert list"
  pl_dispatching :: bool
  pl_dispatcher :: AlertDispatcher
  pl_outbox :: outbox
  pl_pushed :: "Signal list"
  pl_popped :: "Signal list"
  pl_handled :: "(Alert \<times> u64) list"

definition new_pipeline :: "'q \<Rightarrow> rule_store \<Rightarrow> RiskEngine \<Rightarrow> AlertDispatcher \<Rightarrow> outbox \<Rightarrow> 'q pipeline" where
  "new_pipeline q store e d w =
     \<lparr>pl_ring = q, pl_thread = start_engine store e, pl_emitting = [], pl_dispatching = False, pl_dispatcher = d, pl_outbox = w,
      pl_pushed = [], pl_popped = [], pl_handled = []\<rparr>"

text \<open>
  One iteration of \<open>RiskEngine::run\<close> up to the loop that hands over the alerts.  The iteration
  reads the ring buffer only when the loop condition holds.
\<close>

definition loop_entered :: "bool \<Rightarrow> EngineThread \<Rightarrow> bool" where
  "loop_entered stop_requested t \<longleftrightarrow>
     \<not> re_finished (et_engine t) \<and> re_running (et_engine t) \<and> \<not> stop_requested"

definition engine_turn :: "'q spsc_queue \<Rightarrow> bool \<Rightarrow> u64 \<Rightarrow> 'q pipeline \<Rightarrow> 'q pipeline" where
  "engine_turn sq stop_requested now_ms p =
     (let t = pl_thread p;
          front = sq_front sq (pl_ring p);
          t' = engine_iter \<lparr>ob_stop_requested = stop_requested, ob_now_ms = now_ms, ob_front = front\<rparr> t;
          p' = p\<lparr>pl_thread := t', pl_emitting := drop (length (et_dispatched t)) (et_dispatched t')\<rparr> in
      case front of
        None \<Rightarrow> p'
      | Some s \<Rightarrow>
          if loop_entered stop_requested t
          then p'\<lparr>pl_ring := sq_pop sq (pl_ring p), pl_popped := pl_popped p @ [s]\<rparr> else p')"

definition turn_of_dispatcher :: "channel_env \<Rightarrow> tick \<Rightarrow> 'q pipeline \<Rightarrow> 'q pipeline" where
  "turn_of_dispatcher env tk p =
     (let (d, w) = dispatcher_turn env tk (pl_dispatcher p, pl_outbox p) in
      p\<lparr>pl_dispatcher := d, pl_outbox := w, pl_handled := pl_handled p @ handled (E_turn tk) (pl_dispatcher p)\<rparr>)"

datatype pipeline_event =
    PE_push Signal
  | PE_engine bool u64
  | PE_emit
  | PE_turn tick
  | PE_start_dispatcher
  | PE_stop_engine
  | PE_stop_dispatcher

inductive pipeline_step ::
  "'q spsc_queue \<Rightarrow> channel_env \<Rightarrow> pipeline_event \<Rightarrow> 'q pipeline \<Rightarrow> 'q pipeline \<Rightarrow> bool"
  for sq env where
  push: "sq_try_push sq s (pl_ring p) = (ok, q) \<Longrightarrow>
    pipeline_step sq env (PE_push s) p (p\<lparr>pl_ring := q, pl_pushed := pl_pushed p @ (if ok then [s] else [])\<rparr>)"
| engine: "pl_emitting p = [] \<Longrightarrow>
    pipeline_step sq env (PE_engine stop_requested now_ms) p (engine_turn sq stop_requested now_ms p)"
| emit: "pl_emitting p = a # as \<Longrightarrow>
    pipeline_step sq env PE_emit p (p\<lparr>pl_emitting := as, pl_dispatcher := dispatch a (pl_dispatcher p)\<rparr>)"
| turn: "pl_dispatching p \<Longrightarrow> pipeline_step sq env (PE_turn tk) p (turn_of_dispatcher env tk p)"
| start_dispatcher: "\<not> pl_dispatching p \<Longrightarrow> pipeline_step sq env PE_start_dispatcher p
    (p\<lparr>pl_dispatching := True, pl_dispatcher := dispatcher_start (pl_dispatcher p)\<rparr>)"
| stop_engine: "pipeline_step sq env PE_stop_engine p
    (p\<lparr>pl_thread := (pl_thread p)\<lparr>et_engine := engine_stop (et_engine (pl_thread p))\<rparr>\<rparr>)"
| stop_dispatcher: "pipeline_step sq env PE_stop_dispatcher p
    (p\<lparr>pl_dispatcher := dispatcher_stop (pl_dispatcher p)\<rparr>)"

inductive pipeline_run ::
  "'q spsc_queue \<Rightarrow> channel_env \<Rightarrow> 'q pipeline \<Rightarrow> pipeline_event list \<Rightarrow> 'q pipeline \<Rightarrow> bool"
  for sq env p where
  run_start: "pipeline_run sq env p [] p"
| run_step: "pipeline_run sq env p es p' \<Longrightarrow> pipeline_step sq env e p' p'' \<Longrightarrow>
    pipeline_run sq env p (es @ [e]) p''"

inductive_cases pushE: "pipeline_step sq env (PE_push s) p p'"
inductive_cases engineE: "pipeline_step sq env (PE_engine stop now) p p'"

text \<open>The signals a rule may see: everything taken from the ring buffer but the poison pill.\<close>

definition evaluated :: "'q pipeline \<Rightarrow> Signal list" where
  "evaluated p = filter (\<lambda>s. \<not> is_poison_pill s) (pl_popped p)"

text \<open>The alerts the rules owe for a list of signals.\<close>

definition owed :: "rule_store \<Rightarrow> Signal list \<Rightarrow> Alert list" where
  "owed store sigs = snd (deliver sigs (store, []))"

definition engine_finished :: "'q pipeline \<Rightarrow> bool" where
  "engine_finished p \<longleftrightarrow> re_finished (et_engine (pl_thread p))"

definition engine_running :: "'q pipeline \<Rightarrow> bool" where
  "engine_running p \<longleftrightarrow> re_running (et_engine (pl_thread p))"

text \<open>The same steps as a function of the event; \<open>None\<close> where the thread is elsewhere in its loop.\<close>

fun pipeline_act :: "'q spsc_queue \<Rightarrow> channel_env \<Rightarrow> pipeline_event \<Rightarrow> 'q pipeline \<Rightarrow> 'q pipeline option" where
  "pipeline_act sq env (PE_push s) p =
     (case sq_try_push sq s (pl_ring p) of (ok, q) \<Rightarrow>
        Some (p\<lparr>pl_ring := q, pl_pushed := pl_pushed p @ (if ok then [s] else [])\<rparr>))"
| "pipeline_act sq env (PE_engine stop_requested now_ms) p =
     (if pl_emitting p = [] then Some (engine_turn sq stop_requested now_ms p) else None)"
| "pipeline_act sq env PE_emit p =
     (case pl_emitting p of [] \<Rightarrow> None
      | a # as \<Rightarrow> Some (p\<lparr>pl_emitting := as, pl_dispatcher := dispatch a (pl_dispatcher p)\<rparr>))"
| "pipeline_act sq env (PE_turn tk) p = (if pl_dispatching p then Some (turn_of_dispatcher env tk p) else None)"
| "pipeline_act sq env PE_start_dispatcher p =
     (if pl_dispatching p then None
      else Some (p\<lparr>pl_dispatching := True, pl_dispatcher := dispatcher_start (pl_dispatcher p)\<rparr>))"
| "pipeline_act sq env PE_stop_engine p =
     Some (p\<lparr>pl_thread := (pl_thread p)\<lparr>et_engine := engine_stop (et_engine (pl_thread p))\<rparr>\<rparr>)"
| "pipeline_act sq env PE_stop_dispatcher p = Some (p\<lparr>pl_dispatcher := dispatcher_stop (pl_dispatcher p)\<rparr>)"

primrec pipeline_exec ::
  "'q spsc_queue \<Rightarrow> channel_env \<Rightarrow> pipeline_event list \<Rightarrow> 'q pipeline \<Rightarrow> 'q pipeline option" where
  "pipeline_exec sq env [] p = Some p"
| "pipeline_exec sq env (e # es) p =
     (case pipeline_act sq env e p of None \<Rightarrow> None | Some p' \<Rightarrow> pipeline_exec sq env es p')"

lemma step_iff_act: "pipeline_step sq env e p p' \<longleftrightarrow> pipeline_act sq env e p = Some p'"
proof
  show "pipeline_step sq env e p p' \<Longrightarrow> pipeline_act sq env e p = Some p'"
    by (induction rule: pipeline_step.induct) simp_all
  assume act: "pipeline_act sq env e p = Some p'"
  show "pipeline_step sq env e p p'"
  proof (cases e)
    case (PE_push s)
    obtain ok q where q: "sq_try_push sq s (pl_ring p) = (ok, q)" by fastforce
    from push [OF q, of env] act show ?thesis by (simp add: PE_push q)
  qed (use act in \<open>auto intro: pipeline_step.intros split: if_splits list.splits\<close>)
qed

lemma run_cons:
  "pipeline_run sq env p' es p'' \<Longrightarrow> pipeline_step sq env e p p' \<Longrightarrow> pipeline_run sq env p (e # es) p''"
proof (induction rule: pipeline_run.induct)
  case run_start
  then show ?case using pipeline_run.run_step [OF pipeline_run.run_start] by fastforce
next
  case (run_step es p1 e1 p2)
  then show ?case using pipeline_run.run_step [of sq env p "e # es" p1 e1 p2] by simp
qed

lemma exec_run: "pipeline_exec sq env es p = Some p' \<Longrightarrow> pipeline_run sq env p es p'"
proof (induction es arbitrary: p)
  case (Cons e es)
  then obtain p1 where "pipeline_act sq env e p = Some p1" "pipeline_exec sq env es p1 = Some p'"
    by (auto split: option.splits)
  with Cons.IH [of p1] run_cons [of sq env p1 es p' e p] show ?case by (simp add: step_iff_act)
qed (simp add: run_start)

section \<open>The ring buffer\<close>

definition ring_inv :: "('q \<Rightarrow> Signal list) \<Rightarrow> nat \<Rightarrow> 'q pipeline \<Rightarrow> bool" where
  "ring_inv contents capacity p \<longleftrightarrow>
     pl_pushed p = pl_popped p @ contents (pl_ring p) \<and> length (contents (pl_ring p)) \<le> capacity"

lemma spsc_push:
  assumes "spsc_laws sq contents capacity"
  shows "sq_try_push sq s q = (length (contents q) < capacity, snd (sq_try_push sq s q))"
    and "contents (snd (sq_try_push sq s q)) = contents q @ (if length (contents q) < capacity then [s] else [])"
  using assms unfolding spsc_laws_def by blast+

lemma engine_turn_ring:
  assumes "spsc_laws sq contents capacity" and "ring_inv contents capacity p"
  shows "ring_inv contents capacity (engine_turn sq stop now p)"
proof -
  have "sq_front sq (pl_ring p) = Some s \<Longrightarrow> \<exists>ss. contents (pl_ring p) = s # ss \<and> contents (sq_pop sq (pl_ring p)) = ss" for s
    using assms(1) by (cases "contents (pl_ring p)") (auto simp: spsc_laws_def)
  then show ?thesis
    using assms(2) by (fastforce simp: ring_inv_def engine_turn_def Let_def split: option.splits)
qed

lemma step_ring:
  assumes laws: "spsc_laws sq contents capacity"
  shows "pipeline_step sq env e p p' \<Longrightarrow> ring_inv contents capacity p \<Longrightarrow> ring_inv contents capacity p'"
proof (induction rule: pipeline_step.induct)
  case (push s p ok q)
  have "ok = (length (contents (pl_ring p)) < capacity)"
    "contents q = contents (pl_ring p) @ (if length (contents (pl_ring p)) < capacity then [s] else [])"
    using spsc_push [OF laws, of s "pl_ring p"] push.hyps by simp_all
  then show ?case using push.prems by (auto simp: ring_inv_def)
next
  case engine
  then show ?case using engine_turn_ring [OF laws] by blast
qed (simp_all add: ring_inv_def turn_of_dispatcher_def case_prod_unfold Let_def)

section \<open>The engine thread\<close>

definition engine_inv :: "rule_store \<Rightarrow> 'q pipeline \<Rightarrow> bool" where
  "engine_inv store p \<longleftrightarrow>
     routed (et_store (pl_thread p)) (et_engine (pl_thread p)) \<and>
     view (pl_thread p) = deliver (evaluated p) (store, []) \<and>
     (et_drain_mode (pl_thread p) \<longleftrightarrow> list_ex is_poison_pill (pl_popped p)) \<and>
     (engine_finished p \<longrightarrow> pl_emitting p = [])"

lemma engine_turn_thread:
  "pl_thread (engine_turn sq stop now p) =
     engine_iter \<lparr>ob_stop_requested = stop, ob_now_ms = now, ob_front = sq_front sq (pl_ring p)\<rparr> (pl_thread p)"
  by (simp add: engine_turn_def Let_def split: option.splits)

lemma engine_turn_popped:
  "pl_popped (engine_turn sq stop now p) = pl_popped p @
     (if loop_entered stop (pl_thread p) then case sq_front sq (pl_ring p) of None \<Rightarrow> [] | Some s \<Rightarrow> [s] else [])"
  by (simp add: engine_turn_def Let_def split: option.splits)

lemma engine_turn_emitting:
  "pl_emitting (engine_turn sq stop now p) =
     drop (length (et_dispatched (pl_thread p))) (et_dispatched (pl_thread (engine_turn sq stop now p)))"
  by (simp add: engine_turn_def Let_def split: option.splits)

text \<open>Iterations that end the loop or find nothing to do, and iterations that take a signal.\<close>

lemma engine_inv_still:
  assumes "engine_inv store p" and "view (pl_thread p') = view (pl_thread p)"
    and "re_routing_table (et_engine (pl_thread p')) = re_routing_table (et_engine (pl_thread p))"
    and "et_drain_mode (pl_thread p') = et_drain_mode (pl_thread p)"
    and "pl_popped p' = pl_popped p" and "pl_emitting p' = []"
  shows "engine_inv store p'"
proof -
  have "et_store (pl_thread p') = et_store (pl_thread p)" using assms(2) by (simp add: view_def)
  with assms show ?thesis by (simp add: engine_inv_def routed_def evaluated_def)
qed

lemma engine_iter_end:
  assumes "\<not> loop_entered (ob_stop_requested ob) t \<or> et_drain_mode t \<and> ob_front ob = None"
  shows "view (engine_iter ob t) = view t"
    and "re_routing_table (et_engine (engine_iter ob t)) = re_routing_table (et_engine t)"
    and "et_drain_mode (engine_iter ob t) = et_drain_mode t"
  using assms by (auto simp: engine_iter_def loop_entered_def finish_def view_def Let_def split: option.splits)

lemma engine_turn_inv:
  assumes inv: "engine_inv store p" and idle: "pl_emitting p = []"
  shows "engine_inv store (engine_turn sq stop now p)" (is "engine_inv store ?p")
proof -
  define ob where "ob = \<lparr>ob_stop_requested = stop, ob_now_ms = now, ob_front = sq_front sq (pl_ring p)\<rparr>"
  have t': "pl_thread ?p = engine_iter ob (pl_thread p)" by (simp add: ob_def engine_turn_thread)
  show ?thesis
  proof (cases "\<not> loop_entered stop (pl_thread p) \<or> et_drain_mode (pl_thread p) \<and> ob_front ob = None")
    case True
    then have "pl_popped ?p = pl_popped p" by (auto simp: engine_turn_popped ob_def)
    moreover have "pl_emitting ?p = []"
      using True engine_iter_end(1) [of ob "pl_thread p"] t'
      by (simp add: engine_turn_emitting view_def) (simp add: ob_def)
    ultimately show ?thesis
      using engine_iter_end [of ob "pl_thread p"] True
      by (intro engine_inv_still [OF inv]) (simp_all add: t', simp_all add: ob_def)
  next
    case False
    then have ok: "thread_ok (pl_thread p)" and ns: "\<not> ob_stop_requested ob"
      using inv by (simp_all add: thread_ok_def engine_inv_def loop_entered_def ob_def)
    have "pl_popped ?p = pl_popped p @ (case ob_front ob of None \<Rightarrow> [] | Some s \<Rightarrow> [s])"
      using False by (simp add: engine_turn_popped ob_def)
    then have "evaluated ?p = evaluated p @ consumed [ob]"
      "list_ex is_poison_pill (pl_popped ?p) \<longleftrightarrow>
         list_ex is_poison_pill (pl_popped p) \<or> (\<exists>s. ob_front ob = Some s \<and> is_poison_pill s)"
      by (auto simp: evaluated_def split: option.splits)
    with engine_iter_ok [OF ok ns] show ?thesis
      using inv False by (simp add: engine_inv_def thread_ok_def deliver_append engine_finished_def t')
  qed
qed

lemma step_engine:
  "pipeline_step sq env e p p' \<Longrightarrow> engine_inv store p \<Longrightarrow> engine_inv store p'"
proof (induction rule: pipeline_step.induct)
  case engine
  then show ?case using engine_turn_inv by blast
qed (auto simp: engine_inv_def evaluated_def engine_finished_def turn_of_dispatcher_def case_prod_unfold Let_def
    engine_stop_def routed_def view_def)

section \<open>The dispatcher's part of a run\<close>

text \<open>
  Seen from the dispatcher, a run of the pipeline is one of its own histories, in which the alerts
  dispatched so far, with those the engine still holds, are the alerts the engine produced.
\<close>

definition dispatcher_inv :: "channel_env \<Rightarrow> AlertDispatcher \<times> outbox \<Rightarrow> 'q pipeline \<Rightarrow> bool" where
  "dispatcher_inv env dw p \<longleftrightarrow>
     (\<exists>es. dispatcher_run env es dw = (pl_dispatcher p, pl_outbox p) \<and> handled_run env es dw = pl_handled p \<and>
        dispatched_by es @ pl_emitting p = et_dispatched (pl_thread p))"

lemma handled_run_append:
  "handled_run env (xs @ ys) dw = handled_run env xs dw @ handled_run env ys (dispatcher_run env xs dw)"
  by (induction xs arbitrary: dw) (simp_all add: dispatcher_run_def)

lemma dispatched_by_append: "dispatched_by (xs @ ys) = dispatched_by xs @ dispatched_by ys"
  by (induction xs rule: dispatched_by.induct) simp_all

lemma dispatcher_inv_step:
  assumes "dispatcher_inv env dw p"
    and "dispatcher_step env e (pl_dispatcher p, pl_outbox p) = (pl_dispatcher p', pl_outbox p')"
    and "pl_handled p' = pl_handled p @ handled e (pl_dispatcher p)"
    and "pl_emitting p = dispatched_by [e] @ pl_emitting p'"
    and "et_dispatched (pl_thread p') = et_dispatched (pl_thread p)"
  shows "dispatcher_inv env dw p'"
proof -
  from assms(1) obtain es where es: "dispatcher_run env es dw = (pl_dispatcher p, pl_outbox p)"
    "handled_run env es dw = pl_handled p" "dispatched_by es @ pl_emitting p = et_dispatched (pl_thread p)"
    by (auto simp: dispatcher_inv_def)
  have "dispatcher_run env (es @ [e]) dw = (pl_dispatcher p', pl_outbox p')"
    using es(1) assms(2) by (simp add: dispatcher_run_def)
  moreover have "handled_run env (es @ [e]) dw = pl_handled p'"
    using es(1,2) assms(3) by (simp add: handled_run_append)
  moreover have "dispatched_by (es @ [e]) @ pl_emitting p' = et_dispatched (pl_thread p')"
    using es(3) assms(4,5) by (simp add: dispatched_by_append)
  ultimately show ?thesis unfolding dispatcher_inv_def by blast
qed

lemma deliver_extends: "\<exists>new. snd (deliver ss st) = snd st @ new"
proof (induction ss arbitrary: st)
  case (Cons s ss)
  from Cons.IH [of "(after_signal (fst st) s, snd st @ signal_alerts (fst st) s)"] show ?case by auto
qed simp

lemma engine_turn_dispatched:
  assumes "engine_inv store p" and "pl_emitting p = []"
  shows "et_dispatched (pl_thread (engine_turn sq stop now p)) =
     et_dispatched (pl_thread p) @ pl_emitting (engine_turn sq stop now p)"
proof -
  let ?p = "engine_turn sq stop now p"
  have "\<exists>more. evaluated ?p = evaluated p @ more"
    unfolding evaluated_def engine_turn_popped filter_append by blast
  then obtain more where "evaluated ?p = evaluated p @ more" by blast
  then have "et_dispatched (pl_thread ?p) = snd (deliver more (view (pl_thread p)))"
    using assms(1) engine_turn_inv [OF assms, of sq stop now]
    by (simp add: engine_inv_def view_def deliver_append) (metis snd_conv)
  then obtain new where "et_dispatched (pl_thread ?p) = et_dispatched (pl_thread p) @ new"
    using deliver_extends [of more "view (pl_thread p)"] by (auto simp: view_def)
  then show ?thesis by (simp add: engine_turn_emitting)
qed

lemma engine_turn_frame [simp]:
  "pl_dispatcher (engine_turn sq stop now p) = pl_dispatcher p" "pl_outbox (engine_turn sq stop now p) = pl_outbox p"
  "pl_handled (engine_turn sq stop now p) = pl_handled p" "pl_pushed (engine_turn sq stop now p) = pl_pushed p"
  by (simp_all add: engine_turn_def Let_def split: option.splits)

lemma step_dispatcher:
  "pipeline_step sq env e p p' \<Longrightarrow> engine_inv store p \<Longrightarrow> dispatcher_inv env dw p \<Longrightarrow> dispatcher_inv env dw p'"
proof (induction rule: pipeline_step.induct)
  case (engine p stop now)
  then show ?case using engine_turn_dispatched [of store p sq stop now] by (auto simp: dispatcher_inv_def)
next
  case (emit p a as)
  show ?case by (rule dispatcher_inv_step [OF emit.prems(2), of "E_dispatch a"]) (simp_all add: emit.hyps)
next
  case (turn p tk)
  show ?case
    by (rule dispatcher_inv_step [OF turn.prems(2), of "E_turn tk"])
       (simp_all add: turn_of_dispatcher_def case_prod_unfold Let_def)
next
  case (start_dispatcher p)
  show ?case by (rule dispatcher_inv_step [OF start_dispatcher.prems(2), of E_start]) simp_all
next
  case (stop_dispatcher p)
  show ?case by (rule dispatcher_inv_step [OF stop_dispatcher.prems(2), of E_stop]) simp_all
qed (simp_all add: dispatcher_inv_def)

section \<open>The invariant of a run\<close>

definition pipeline_inv ::
  "channel_env \<Rightarrow> ('q \<Rightarrow> Signal list) \<Rightarrow> nat \<Rightarrow> rule_store \<Rightarrow> AlertDispatcher \<times> outbox \<Rightarrow> 'q pipeline \<Rightarrow> bool" where
  "pipeline_inv env contents capacity store dw p \<longleftrightarrow>
     ring_inv contents capacity p \<and> engine_inv store p \<and> dispatcher_inv env dw p"

abbreviation start_pipeline where
  "start_pipeline q store m h d w \<equiv> new_pipeline q store (register_all store (new_engine m h)) d w"

lemma start_pipeline_inv:
  "contents q = [] \<Longrightarrow> pipeline_inv env contents capacity store (d, w) (start_pipeline q store m h d w)"
  using start_engine_ok [of store m h]
  by (auto simp: pipeline_inv_def new_pipeline_def ring_inv_def engine_inv_def dispatcher_inv_def thread_ok_def
      engine_finished_def evaluated_def view_def start_engine_def dispatcher_run_def intro!: exI [of _ "[]"])

lemma step_inv:
  assumes "spsc_laws sq contents capacity" and "pipeline_step sq env e p p'"
    and "pipeline_inv env contents capacity store dw p"
  shows "pipeline_inv env contents capacity store dw p'"
  using assms(3) step_ring [OF assms(1,2)] step_engine [OF assms(2)] step_dispatcher [OF assms(2)]
  unfolding pipeline_inv_def by blast

lemma run_inv:
  assumes "pipeline_run sq env p es p'" and "spsc_laws sq contents capacity"
    and "pipeline_inv env contents capacity store dw p"
  shows "pipeline_inv env contents capacity store dw p'"
  using assms by (induction rule: pipeline_run.induct) (auto intro: step_inv)

lemma started_inv:
  assumes "spsc_laws sq contents capacity" and "contents q = []"
    and "pipeline_run sq env (start_pipeline q store m h d w) es p"
  shows "pipeline_inv env contents capacity store (d, w) p"
  by (rule run_inv [OF assms(3,1)], rule start_pipeline_inv, rule assms(2))

text \<open>What the invariant says of the alerts and of the posts.\<close>

lemma inv_alerts:
  assumes "pipeline_inv env contents capacity store (d, w) p" and "ad_queue d = []"
  shows "map fst (pl_handled p) @ ad_queue (pl_dispatcher p) @ pl_emitting p = owed store (evaluated p)"
proof -
  from assms(1) obtain es where es: "dispatcher_run env es (d, w) = (pl_dispatcher p, pl_outbox p)"
    "handled_run env es (d, w) = pl_handled p" "dispatched_by es @ pl_emitting p = et_dispatched (pl_thread p)"
    by (auto simp: pipeline_inv_def dispatcher_inv_def)
  have "et_dispatched (pl_thread p) = owed store (evaluated p)"
    using assms(1) by (simp add: pipeline_inv_def engine_inv_def view_def owed_def) (metis snd_conv)
  with run_fifo [of env es "(d, w)"] es assms(2) show ?thesis by (simp flip: append_assoc)
qed

lemma inv_posts:
  assumes "pipeline_inv env contents capacity store (d, w) p" and "ad_queue d = []"
  shows "\<exists>new. ob_posts (pl_outbox p) = ob_posts w @ new \<and>
     (\<forall>m\<in>set new. \<exists>a\<in>set (owed store (evaluated p)). \<exists>c\<in>set (ad_channels d). may_post a c m)"
proof -
  from assms(1) obtain es where es: "dispatcher_run env es (d, w) = (pl_dispatcher p, pl_outbox p)"
    "handled_run env es (d, w) = pl_handled p"
    by (auto simp: pipeline_inv_def dispatcher_inv_def)
  have "fst ` set (pl_handled p) \<subseteq> set (owed store (evaluated p))"
    unfolding inv_alerts [OF assms, symmetric] by auto
  with run_posts [of env es "(d, w)"] es show ?thesis by (auto; blast)
qed

section \<open>The end of a run\<close>

text \<open>Once the engine's loop is left, the rules have seen what they will ever see.\<close>

lemma finished_step:
  "pipeline_step sq env e p p' \<Longrightarrow> engine_finished p \<Longrightarrow> pl_emitting p = [] \<Longrightarrow>
     engine_finished p' \<and> pl_emitting p' = [] \<and> pl_popped p' = pl_popped p"
proof (induction rule: pipeline_step.induct)
  case (engine p stop now)
  then have "pl_thread (engine_turn sq stop now p) = pl_thread p"
    by (simp add: engine_turn_thread engine_iter_def engine_finished_def)
  with engine show ?case
    by (simp add: engine_finished_def engine_turn_emitting engine_turn_popped loop_entered_def)
qed (auto simp: engine_finished_def turn_of_dispatcher_def case_prod_unfold Let_def engine_stop_def)

text \<open>Then a dispatcher that has ended has an empty queue, because nothing is dispatched any more.\<close>

definition closing :: "'q pipeline \<Rightarrow> bool" where
  "closing p \<longleftrightarrow> engine_finished p \<and> pl_emitting p = [] \<and>
     (ad_exited (pl_dispatcher p) \<longrightarrow> ad_queue (pl_dispatcher p) = [])"

lemma exited_empty:
  assumes "ad_exited d \<longrightarrow> ad_queue d = []" and "\<forall>a. e \<noteq> E_dispatch a"
  shows "ad_exited (fst (dispatcher_step env e (d, w))) \<longrightarrow> ad_queue (fst (dispatcher_step env e (d, w))) = []"
  using assms by (cases e) (auto simp: dispatcher_start_def dispatcher_stop_def dispatcher_turn_def Let_def split: list.splits)

lemma closing_step:
  assumes "pipeline_step sq env e p p'" and "closing p"
  shows "closing p' \<and> pl_popped p' = pl_popped p"
proof -
  have "ad_exited (pl_dispatcher p') \<longrightarrow> ad_queue (pl_dispatcher p') = []"
    using assms
  proof (cases rule: pipeline_step.cases)
    case (turn tk)
    then show ?thesis
      using assms(2) exited_empty [of "pl_dispatcher p" "E_turn tk" env "pl_outbox p"]
      by (simp add: closing_def turn_of_dispatcher_def case_prod_unfold Let_def)
  qed (auto simp: closing_def dispatcher_start_def dispatcher_stop_def)
  with finished_step [OF assms(1)] assms(2) show ?thesis by (simp add: closing_def)
qed

lemma closing_run:
  "pipeline_run sq env p es p' \<Longrightarrow> closing p \<Longrightarrow> closing p' \<and> pl_popped p' = pl_popped p"
  by (induction rule: pipeline_run.induct) (auto dest: closing_step)

text \<open>
  A run is calm while nobody forces the engine to stop; then the engine ends by draining, after
  a poison pill.
\<close>

primrec calm :: "pipeline_event \<Rightarrow> bool" where
  "calm (PE_push s) = True"
| "calm (PE_engine stop_requested now_ms) = (\<not> stop_requested)"
| "calm PE_emit = True"
| "calm (PE_turn tk) = True"
| "calm PE_start_dispatcher = True"
| "calm PE_stop_engine = False"
| "calm PE_stop_dispatcher = True"

lemma engine_iter_calm:
  assumes "re_running (et_engine t)" and "re_finished (et_engine t) \<longrightarrow> et_drain_mode t"
    and "\<not> ob_stop_requested ob"
  shows "re_running (et_engine (engine_iter ob t)) \<and>
     (re_finished (et_engine (engine_iter ob t)) \<longrightarrow> et_drain_mode (engine_iter ob t))"
  using assms
  by (auto simp: engine_iter_def handle_signal_def route_signal_def finish_def Let_def case_prod_unfold
      split: option.splits)

definition drains :: "'q pipeline \<Rightarrow> bool" where
  "drains p \<longleftrightarrow> engine_running p \<and> (engine_finished p \<longrightarrow> et_drain_mode (pl_thread p))"

lemma calm_step: "pipeline_step sq env e p p' \<Longrightarrow> calm e \<Longrightarrow> drains p \<Longrightarrow> drains p'"
proof (induction rule: pipeline_step.induct)
  case (engine p stop now)
  then show ?case
    using engine_iter_calm [of "pl_thread p"]
    by (simp add: drains_def engine_running_def engine_finished_def engine_turn_thread)
qed (simp_all add: drains_def engine_running_def engine_finished_def turn_of_dispatcher_def case_prod_unfold Let_def)

lemma calm_run: "pipeline_run sq env p es p' \<Longrightarrow> list_all calm es \<Longrightarrow> drains p \<Longrightarrow> drains p'"
  by (induction rule: pipeline_run.induct) (auto intro: calm_step)

lemma start_drains: "drains (start_pipeline q store m h d w)"
  using start_engine_ok [of store m h]
  by (simp add: drains_def engine_running_def engine_finished_def new_pipeline_def thread_ok_def)

text \<open>Everything accepted before the first pill is evaluated.\<close>

lemma before_pill:
  assumes "list_ex P xs"
  shows "prefix (takeWhile (\<lambda>x. \<not> P x) (xs @ ys)) (filter (\<lambda>x. \<not> P x) xs)"
  using assms by (induction xs) auto

lemma pill_evaluates:
  assumes "pipeline_inv env contents capacity store dw p" and "drains p" and "engine_finished p"
  shows "prefix (takeWhile (\<lambda>s. \<not> is_poison_pill s) (pl_pushed p)) (evaluated p)"
proof -
  have "list_ex is_poison_pill (pl_popped p)" "pl_pushed p = pl_popped p @ contents (pl_ring p)"
    using assms by (simp_all add: pipeline_inv_def engine_inv_def ring_inv_def drains_def)
  with before_pill show ?thesis by (simp add: evaluated_def)
qed

section \<open>The threads can always finish\<close>

text \<open>
  From every state the threads can go on by themselves: the engine thread hands over what it
  holds and drains the ring buffer, the dispatcher empties its queue.
\<close>

definition reaches :: "'q spsc_queue \<Rightarrow> channel_env \<Rightarrow> (pipeline_event \<Rightarrow> bool) \<Rightarrow> 'q pipeline \<Rightarrow> 'q pipeline \<Rightarrow> bool" where
  "reaches sq env allowed p p' \<longleftrightarrow> (\<exists>es. list_all allowed es \<and> pipeline_run sq env p es p')"

lemma run_append:
  "pipeline_run sq env p' es' p'' \<Longrightarrow> pipeline_run sq env p es p' \<Longrightarrow> pipeline_run sq env p (es @ es') p''"
proof (induction rule: pipeline_run.induct)
  case (run_step es' p1 e p2)
  then show ?case using pipeline_run.run_step [of sq env p "es @ es'" p1 e p2] by simp
qed simp

lemma reaches_refl [simp]: "reaches sq env allowed p p"
  unfolding reaches_def by (intro exI [of _ "[]"]) (simp add: run_start)

lemma reaches_trans [trans]:
  "reaches sq env allowed p p' \<Longrightarrow> reaches sq env allowed p' p'' \<Longrightarrow> reaches sq env allowed p p''"
  unfolding reaches_def using run_append by (metis list_all_append)

lemma reaches_step: "pipeline_step sq env e p p' \<Longrightarrow> allowed e \<Longrightarrow> reaches sq env allowed p p'"
  unfolding reaches_def using run_step [OF run_start] by (intro exI [of _ "[e]"]) fastforce

lemma reaches_mono:
  "reaches sq env allowed p p' \<Longrightarrow> (\<And>e. allowed e \<Longrightarrow> allowed' e) \<Longrightarrow> reaches sq env allowed' p p'"
  unfolding reaches_def list_all_iff by blast

text \<open>The steps of the engine thread.\<close>

primrec by_engine :: "pipeline_event \<Rightarrow> bool" where
  "by_engine (PE_push s) = False"
| "by_engine (PE_engine stop_requested now_ms) = (\<not> stop_requested)"
| "by_engine PE_emit = True"
| "by_engine (PE_turn tk) = False"
| "by_engine PE_start_dispatcher = False"
| "by_engine PE_stop_engine = False"
| "by_engine PE_stop_dispatcher = False"

definition same_rest :: "'q pipeline \<Rightarrow> 'q pipeline \<Rightarrow> bool" where
  "same_rest p p' \<longleftrightarrow> pl_pushed p' = pl_pushed p \<and> ad_exited (pl_dispatcher p') = ad_exited (pl_dispatcher p)"

lemma same_rest_trans: "same_rest p p' \<Longrightarrow> same_rest p' p'' \<Longrightarrow> same_rest p p''"
  by (simp add: same_rest_def)

lemma emits_all:
  "\<exists>p'. reaches sq env by_engine p p' \<and> pl_emitting p' = [] \<and> pl_thread p' = pl_thread p \<and>
     pl_ring p' = pl_ring p \<and> same_rest p p'"
proof (induction "pl_emitting p" arbitrary: p)
  case Nil
  then show ?case by (intro exI [of _ p]) (simp add: same_rest_def)
next
  case (Cons a as)
  let ?p = "p\<lparr>pl_emitting := as, pl_dispatcher := dispatch a (pl_dispatcher p)\<rparr>"
  have step: "reaches sq env by_engine p ?p" using Cons.hyps(2) by (intro reaches_step [OF emit]) simp_all
  have rest: "same_rest p ?p" by (simp add: same_rest_def dispatch_def Let_def)
  from Cons.hyps(1) [of ?p] obtain p' where "reaches sq env by_engine ?p p'" "pl_emitting p' = []"
    "pl_thread p' = pl_thread p" "pl_ring p' = pl_ring p" "same_rest ?p p'"
    by auto
  with step rest show ?case using reaches_trans same_rest_trans by metis
qed

lemma next_turn:
  "\<exists>p1. reaches sq env by_engine p p1 \<and> pl_thread p1 = pl_thread p \<and> pl_ring p1 = pl_ring p \<and> same_rest p p1 \<and>
     reaches sq env by_engine p (engine_turn sq False now p1) \<and> same_rest p (engine_turn sq False now p1)"
proof -
  obtain p1 where p1: "reaches sq env by_engine p p1" "pl_emitting p1 = []" "pl_thread p1 = pl_thread p"
    "pl_ring p1 = pl_ring p" "same_rest p p1"
    using emits_all by blast
  have "reaches sq env by_engine p1 (engine_turn sq False now p1)" by (rule reaches_step [OF engine [OF p1(2)]]) simp
  with p1 show ?thesis using reaches_trans by (intro exI [of _ p1]) (auto simp: same_rest_def)
qed

lemma reaches_inv:
  assumes "reaches sq env allowed p p'" and "spsc_laws sq contents capacity"
    and "pipeline_inv env contents capacity store dw p"
  shows "pipeline_inv env contents capacity store dw p'"
  using assms run_inv unfolding reaches_def by metis

lemma engine_drains_ring:
  assumes "spsc_laws sq contents capacity" and "pipeline_inv env contents capacity store dw p"
    and "engine_running p" and "\<not> engine_finished p" and "list_ex is_poison_pill (pl_pushed p)"
  shows "\<exists>p'. reaches sq env by_engine p p' \<and> engine_finished p' \<and> contents (pl_ring p') = [] \<and> same_rest p p'"
  using assms(2-5)
proof (induction "length (contents (pl_ring p))" arbitrary: p)
  case (0 p)
  obtain p1 where p1: "reaches sq env by_engine p p1" "pl_thread p1 = pl_thread p" "pl_ring p1 = pl_ring p"
    "same_rest p p1" and step: "reaches sq env by_engine p (engine_turn sq False 0 p1)"
    and rest: "same_rest p (engine_turn sq False 0 p1)"
    using next_turn by blast
  let ?p = "engine_turn sq False 0 p1"
  have inv: "pipeline_inv env contents capacity store dw p1" using reaches_inv [OF p1(1) assms(1) 0(2)] .
  have front: "sq_front sq (pl_ring p1) = None" using assms(1) 0(1) p1(3) by (simp add: spsc_laws_def)
  have "list_ex is_poison_pill (pl_popped p1)"
    using inv 0 p1(3,4) by (simp add: pipeline_inv_def ring_inv_def same_rest_def)
  then have "et_drain_mode (pl_thread p1)" using inv by (simp add: pipeline_inv_def engine_inv_def)
  then have "engine_finished ?p"
    using 0(3,4) front p1(2)
    by (simp add: engine_finished_def engine_running_def engine_turn_thread engine_iter_def finish_def Let_def)
  moreover have "contents (pl_ring ?p) = []" using 0(1) p1(3) front by (simp add: engine_turn_def Let_def)
  ultimately show ?case using step rest by blast
next
  case (Suc n p)
  obtain p1 where p1: "reaches sq env by_engine p p1" "pl_thread p1 = pl_thread p" "pl_ring p1 = pl_ring p"
    "same_rest p p1" and step: "reaches sq env by_engine p (engine_turn sq False 0 p1)"
    and rest: "same_rest p (engine_turn sq False 0 p1)"
    using next_turn by blast
  let ?p = "engine_turn sq False 0 p1"
  have inv: "pipeline_inv env contents capacity store dw p1" using reaches_inv [OF p1(1) assms(1) Suc(3)] .
  obtain s ss where ring: "contents (pl_ring p1) = s # ss" using Suc(2) p1(3) by (cases "contents (pl_ring p)") auto
  then have front: "sq_front sq (pl_ring p1) = Some s" "contents (sq_pop sq (pl_ring p1)) = ss"
    using assms(1) by (auto simp: spsc_laws_def)
  have entered: "loop_entered False (pl_thread p1)"
    using Suc(4,5) p1(2) by (simp add: loop_entered_def engine_running_def engine_finished_def)
  have "thread_ok (pl_thread p1)"
    using inv entered by (simp add: thread_ok_def pipeline_inv_def engine_inv_def loop_entered_def)
  then have "engine_running ?p" "\<not> engine_finished ?p"
    using engine_iter_ok [of "pl_thread p1" "\<lparr>ob_stop_requested = False, ob_now_ms = 0, ob_front = Some s\<rparr>"] front(1)
    by (simp_all add: engine_running_def engine_finished_def engine_turn_thread thread_ok_def)
  moreover have "length (contents (pl_ring ?p)) = n"
    using Suc(2) ring front entered p1(3) by (simp add: engine_turn_def Let_def)
  ultimately obtain p' where "reaches sq env by_engine ?p p'" "engine_finished p'" "contents (pl_ring p') = []"
    "same_rest ?p p'"
    using Suc(1) [of ?p] Suc(6) reaches_inv [OF step assms(1) Suc(3)] rest by (auto simp: same_rest_def)
  with step rest show ?case using reaches_trans same_rest_trans by metis
qed

text \<open>A producer can fill a ring buffer that has room.\<close>

lemma pushes_reach:
  assumes "spsc_laws sq contents capacity" and "length (contents (pl_ring p)) + length ss \<le> capacity"
  shows "\<exists>p'. pipeline_run sq env p (map PE_push ss) p' \<and> pl_pushed p' = pl_pushed p @ ss \<and>
     pl_thread p' = pl_thread p \<and> pl_dispatcher p' = pl_dispatcher p \<and> pl_popped p' = pl_popped p"
  using assms(2)
proof (induction ss arbitrary: p)
  case Nil
  then show ?case by (intro exI [of _ p]) (simp add: run_start)
next
  case (Cons s ss)
  have room: "length (contents (pl_ring p)) < capacity" using Cons.prems by simp
  define q where "q = snd (sq_try_push sq s (pl_ring p))"
  have q: "sq_try_push sq s (pl_ring p) = (True, q)" "contents q = contents (pl_ring p) @ [s]"
    using spsc_push [OF assms(1), of s "pl_ring p"] room by (simp_all add: q_def)
  let ?p = "p\<lparr>pl_ring := q, pl_pushed := pl_pushed p @ [s]\<rparr>"
  have step: "pipeline_step sq env (PE_push s) p ?p" using push [OF q(1), of env] by simp
  obtain p' where "pipeline_run sq env ?p (map PE_push ss) p'" "pl_pushed p' = pl_pushed ?p @ ss"
    "pl_thread p' = pl_thread ?p" "pl_dispatcher p' = pl_dispatcher ?p" "pl_popped p' = pl_popped ?p"
    using Cons.IH [of ?p] Cons.prems q(2) by auto
  with run_cons [OF _ step] show ?case by (intro exI [of _ p']) simp
qed

text \<open>The steps of the dispatcher's thread and the call that stops it.\<close>

primrec by_dispatcher :: "pipeline_event \<Rightarrow> bool" where
  "by_dispatcher (PE_push s) = False"
| "by_dispatcher (PE_engine stop_requested now_ms) = False"
| "by_dispatcher PE_emit = False"
| "by_dispatcher (PE_turn tk) = True"
| "by_dispatcher PE_start_dispatcher = True"
| "by_dispatcher PE_stop_engine = False"
| "by_dispatcher PE_stop_dispatcher = True"

definition idle_tick :: tick where
  "idle_tick = \<lparr>tk_stop_requested = False, tk_steady_ms = 0, tk_now_ms = 0, tk_now_s = 0\<rparr>"

lemma turn_of_dispatcher_frame [simp]:
  "pl_pushed (turn_of_dispatcher env tk p) = pl_pushed p" "pl_ring (turn_of_dispatcher env tk p) = pl_ring p"
  "pl_dispatching (turn_of_dispatcher env tk p) = pl_dispatching p"
  by (simp_all add: turn_of_dispatcher_def case_prod_unfold Let_def)

lemma turns_reach_exit:
  assumes "pl_dispatching p" and "\<not> ad_running (pl_dispatcher p)" and "\<not> ad_exited (pl_dispatcher p)"
  shows "\<exists>p'. reaches sq env by_dispatcher p p' \<and> ad_exited (pl_dispatcher p') \<and>
     pl_pushed p' = pl_pushed p \<and> pl_ring p' = pl_ring p"
  using assms
proof (induction "ad_queue (pl_dispatcher p)" arbitrary: p)
  case Nil
  have "ad_exited (pl_dispatcher (turn_of_dispatcher env idle_tick p))"
    using Nil by (simp add: turn_of_dispatcher_def dispatcher_turn_def Let_def flip: Nil.hyps)
  moreover have "reaches sq env by_dispatcher p (turn_of_dispatcher env idle_tick p)"
    by (rule reaches_step [OF turn [OF Nil.prems(1)]]) simp
  ultimately show ?case
    by (intro exI [of _ "turn_of_dispatcher env idle_tick p"]) simp
next
  case (Cons a as)
  let ?p = "turn_of_dispatcher env idle_tick p"
  have "as = ad_queue (pl_dispatcher ?p)" "\<not> ad_running (pl_dispatcher ?p)" "\<not> ad_exited (pl_dispatcher ?p)"
    using Cons.prems
    by (simp_all add: turn_of_dispatcher_def dispatcher_turn_def case_prod_unfold Let_def flip: Cons.hyps(2))
  moreover have "reaches sq env by_dispatcher p ?p" by (rule reaches_step [OF turn [OF Cons.prems(1)]]) simp
  ultimately show ?case using Cons.hyps(1) [of ?p] Cons.prems(1) reaches_trans turn_of_dispatcher_frame by metis
qed

lemma stop_reaches_exit:
  assumes "\<not> ad_exited (pl_dispatcher p)"
  shows "\<exists>p'. reaches sq env by_dispatcher p p' \<and> ad_exited (pl_dispatcher p') \<and>
     pl_pushed p' = pl_pushed p \<and> pl_ring p' = pl_ring p"
proof -
  obtain p1 where p1: "reaches sq env by_dispatcher p p1" "pl_dispatching p1" "\<not> ad_exited (pl_dispatcher p1)"
    "pl_pushed p1 = pl_pushed p" "pl_ring p1 = pl_ring p"
  proof (cases "pl_dispatching p")
    case True
    with assms show thesis by (intro that [of p]) simp_all
  next
    case False
    let ?p = "p\<lparr>pl_dispatching := True, pl_dispatcher := dispatcher_start (pl_dispatcher p)\<rparr>"
    show thesis
      using assms reaches_step [OF start_dispatcher [OF False], of by_dispatcher sq env]
      by (intro that [of ?p]) (simp_all add: dispatcher_start_def)
  qed
  let ?p = "p1\<lparr>pl_dispatcher := dispatcher_stop (pl_dispatcher p1)\<rparr>"
  have "reaches sq env by_dispatcher p1 ?p" by (rule reaches_step [OF stop_dispatcher]) simp
  with turns_reach_exit [of ?p sq env] p1 show ?thesis
    by (auto simp: dispatcher_stop_def intro: reaches_trans)
qed

text \<open>
  The dispatcher's thread ends only after a stop that reaches it inside \<open>run\<close>: entering \<open>run\<close> sets
  \<open>running_\<close>, whatever happened before.
\<close>

primrec no_stop_call :: "pipeline_event \<Rightarrow> bool" where
  "no_stop_call (PE_push s) = True"
| "no_stop_call (PE_engine stop_requested now_ms) = True"
| "no_stop_call PE_emit = True"
| "no_stop_call (PE_turn tk) = (\<not> tk_stop_requested tk)"
| "no_stop_call PE_start_dispatcher = True"
| "no_stop_call PE_stop_engine = True"
| "no_stop_call PE_stop_dispatcher = False"

definition awake :: "'q pipeline \<Rightarrow> bool" where
  "awake p \<longleftrightarrow> \<not> ad_exited (pl_dispatcher p) \<and> (pl_dispatching p \<longrightarrow> ad_running (pl_dispatcher p))"

lemma engine_turn_dispatching [simp]: "pl_dispatching (engine_turn sq stop now p) = pl_dispatching p"
  by (simp add: engine_turn_def Let_def split: option.splits)

lemma handle_alert_flags [simp]:
  "ad_exited (fst (handle_alert env n m a d w)) = ad_exited d"
  "ad_running (fst (handle_alert env n m a d w)) = ad_running d"
  by (simp_all add: handle_alert_def Let_def case_prod_unfold)

lemma awake_step: "pipeline_step sq env e p p' \<Longrightarrow> no_stop_call e \<Longrightarrow> awake p \<Longrightarrow> awake p'"
proof (induction rule: pipeline_step.induct)
  case (turn p tk)
  then show ?case
    by (auto simp: awake_def turn_of_dispatcher_def dispatcher_turn_def case_prod_unfold Let_def split: list.splits)
qed (auto simp: awake_def dispatch_def dispatcher_start_def Let_def)

lemma awake_run: "pipeline_run sq env p es p' \<Longrightarrow> list_all no_stop_call es \<Longrightarrow> awake p \<Longrightarrow> awake p'"
  by (induction rule: pipeline_run.induct) (auto intro: awake_step)

text \<open>Before the thread has entered \<open>run\<close>, nothing happens to the dispatcher but its stop.\<close>

lemma asleep_step:
  assumes "pipeline_step sq env e p p'" and "e \<noteq> PE_start_dispatcher"
    and "\<not> pl_dispatching p" and "\<not> ad_exited (pl_dispatcher p)"
  shows "\<not> pl_dispatching p' \<and> \<not> ad_exited (pl_dispatcher p')"
  using assms by (cases rule: pipeline_step.cases) (auto simp: dispatch_def dispatcher_stop_def Let_def)

lemma asleep_run:
  "pipeline_run sq env p es p' \<Longrightarrow> PE_start_dispatcher \<notin> set es \<Longrightarrow> \<not> pl_dispatching p \<Longrightarrow>
     \<not> ad_exited (pl_dispatcher p) \<Longrightarrow> \<not> pl_dispatching p' \<and> \<not> ad_exited (pl_dispatcher p')"
proof (induction rule: pipeline_run.induct)
  case (run_step es p' e p'')
  then show ?case using asleep_step [OF run_step.hyps(2)] by auto
qed simp

text \<open>
  The end of a run whose dispatcher outlives the engine: no alert is lost, even when the engine was
  forced to stop; after an orderly stop no signal is lost either.
\<close>

lemma engine_first_end:
  assumes "spsc_laws sq contents capacity" and "contents q = []" and "ad_queue d = []"
    and "pipeline_run sq env (start_pipeline q store m h d w) es p"
    and "engine_finished p" and "\<not> ad_exited (pl_dispatcher p)"
    and "pipeline_run sq env p es' p'" and "ad_exited (pl_dispatcher p')"
  shows "map fst (pl_handled p') = owed store (evaluated p')" and "pl_popped p' = pl_popped p"
proof -
  have inv: "pipeline_inv env contents capacity store (d, w) p" using started_inv [OF assms(1,2,4)] .
  then have "closing p" using assms(5,6) by (simp add: closing_def pipeline_inv_def engine_inv_def)
  with closing_run [OF assms(7)] have "closing p'" and popped: "pl_popped p' = pl_popped p" by simp_all
  with inv_alerts [OF run_inv [OF assms(7,1) inv] assms(3)] assms(8)
  show "map fst (pl_handled p') = owed store (evaluated p')" by (simp add: closing_def)
  show "pl_popped p' = pl_popped p" using popped .
qed

lemma drained_evaluates:
  assumes "spsc_laws sq contents capacity" and "contents q = []"
    and "pipeline_run sq env (start_pipeline q store m h d w) es p" and "list_all calm es" and "engine_finished p"
  shows "prefix (takeWhile (\<lambda>s. \<not> is_poison_pill s) (pl_pushed p)) (evaluated p)"
    and "prefix (pl_popped p) (pl_pushed p)" and "list_ex is_poison_pill (pl_popped p)"
proof -
  have inv: "pipeline_inv env contents capacity store (d, w) p" using started_inv [OF assms(1-3)] .
  have drains: "drains p" using calm_run [OF assms(3,4) start_drains] .
  show "prefix (takeWhile (\<lambda>s. \<not> is_poison_pill s) (pl_pushed p)) (evaluated p)"
    using pill_evaluates [OF inv drains assms(5)] .
  show "prefix (pl_popped p) (pl_pushed p)" "list_ex is_poison_pill (pl_popped p)"
    using inv drains assms(5) by (simp_all add: pipeline_inv_def ring_inv_def engine_inv_def drains_def)
qed

lemma orderly_end:
  assumes "spsc_laws sq contents capacity" and "contents q = []" and "ad_queue d = []"
    and "pipeline_run sq env (start_pipeline q store m h d w) es p" and "list_all calm es"
    and "engine_finished p" and "\<not> ad_exited (pl_dispatcher p)"
    and "pipeline_run sq env p es' p'" and "ad_exited (pl_dispatcher p')"
  shows "map fst (pl_handled p') = owed store (evaluated p')"
    and "prefix (takeWhile (\<lambda>s. \<not> is_poison_pill s) (pl_pushed p)) (evaluated p')"
    and "prefix (pl_popped p') (pl_pushed p)"
  using engine_first_end [OF assms(1-4,6-9)] drained_evaluates [OF assms(1,2,4-6)] by (simp_all add: evaluated_def)

section \<open>A concrete run\<close>

text \<open>A concrete ring buffer, and a run with one transfer above a threshold and the pill.\<close>

definition list_queue :: "nat \<Rightarrow> Signal list spsc_queue" where
  "list_queue n = \<lparr>sq_try_push = (\<lambda>s q. if length q < n then (True, q @ [s]) else (False, q)),
     sq_front = (\<lambda>q. case q of [] \<Rightarrow> None | s # _ \<Rightarrow> Some s), sq_pop = tl\<rparr>"

lemma list_queue_laws: "spsc_laws (list_queue n) (\<lambda>q. q) n"
  by (simp add: spsc_laws_def list_queue_def)

definition sample_store :: rule_store where
  "sample_store = [R_LargeTransfer
     [\<lparr>lt_customer_id = 7, lt_chain_id = 1, lt_token_address = replicate 20 1, lt_threshold_be = small_be 5\<rparr>]]"

definition sample_start :: "Signal list pipeline" where
  "sample_start = start_pipeline [] sample_store False None (new_dispatcher False sample_dedup [] None)
     \<lparr>ob_console = [], ob_posts = []\<rparr>"

definition sample_events :: "pipeline_event list" where
  "sample_events = [PE_start_dispatcher, PE_push (sample_signal ST_Transfer (P_EvmLogEvent (sample_evm 9))),
     PE_push (sample_signal ST_Control (P_ControlSignal Cmd_Stop))]"

definition sample_drain :: "pipeline_event list" where
  "sample_drain = [PE_engine False 1, PE_emit, PE_engine False 1, PE_engine False 1]"

definition sample_closing :: "pipeline_event list" where
  "sample_closing = [PE_stop_dispatcher, PE_turn sample_tick, PE_turn sample_tick]"

definition holds_after :: "pipeline_event list \<Rightarrow> (Signal list pipeline \<Rightarrow> bool) \<Rightarrow> bool" where
  "holds_after es P \<longleftrightarrow> (case pipeline_exec (list_queue 2) sample_env es sample_start of None \<Rightarrow> False | Some p \<Rightarrow> P p)"

lemma sample_pushed: "holds_after sample_events (\<lambda>p. \<not> engine_finished p \<and> \<not> ad_exited (pl_dispatcher p) \<and>
     list_ex is_poison_pill (pl_pushed p))"
  by code_simp

lemma sample_drained: "holds_after (sample_events @ sample_drain) (\<lambda>p. engine_finished p \<and> \<not> ad_exited (pl_dispatcher p))"
  by code_simp

lemma sample_closed: "holds_after (sample_events @ sample_drain @ sample_closing) (\<lambda>p. ad_exited (pl_dispatcher p) \<and>
     map (\<lambda>(a, t). al_customer_id a) (pl_handled p) = [7])"
  by code_simp

lemma exec_append:
  "pipeline_exec sq env (es @ es') p =
     (case pipeline_exec sq env es p of None \<Rightarrow> None | Some p' \<Rightarrow> pipeline_exec sq env es' p')"
  by (induction es arbitrary: p) (simp_all split: option.splits)

lemma sample_reached:
  assumes "holds_after es P"
  shows "\<exists>p. pipeline_exec (list_queue 2) sample_env es sample_start = Some p \<and>
     pipeline_run (list_queue 2) sample_env sample_start es p \<and> P p"
  using assms exec_run [of "list_queue 2" sample_env es sample_start]
  by (auto simp: holds_after_def split: option.splits)

lemma sample_calm: "list_all calm sample_events" "list_all calm (sample_events @ sample_drain)"
  by (simp_all add: sample_events_def sample_drain_def)

lemma no_queue: "ad_queue (new_dispatcher m cfg rts h) = []"
  by (simp add: new_dispatcher_def)

section \<open>Properties\<close>

text \<open>
  An orderly end loses nothing.  Let the threads run in any interleaving, with nobody forcing
  the engine to stop, until the engine has left its loop, and let the dispatcher end only after
  that.  Then the alerts it has handled are, in order, exactly those the rules owe for the signals
  taken from the ring buffer, and these include every signal the buffer accepted before the
  poison pill.
\<close>

theorem pipeline_loses_nothing:
  assumes "spsc_laws sq contents capacity" and "contents q = []" and "ad_queue d = []"
    and "pipeline_run sq env (start_pipeline q store m h d w) es p" and "list_all calm es"
    and "engine_finished p" and "\<not> ad_exited (pl_dispatcher p)"
    and "pipeline_run sq env p es' p'" and "ad_exited (pl_dispatcher p')"
  shows "map fst (pl_handled p') = owed store (evaluated p') \<and>
     prefix (takeWhile (\<lambda>s. \<not> is_poison_pill s) (pl_pushed p)) (evaluated p')"
  using orderly_end(1,2) [OF assms] by simp

theorem pipeline_loses_nothing_witness:
  "\<exists>p. pipeline_run (list_queue 2) sample_env sample_start (sample_events @ sample_drain @ sample_closing) p \<and>
     map (\<lambda>(a, t). al_customer_id a) (pl_handled p) = [7] \<and>
     map fst (pl_handled p) = owed sample_store (evaluated p)"
proof -
  obtain p' where p': "pipeline_exec (list_queue 2) sample_env (sample_events @ sample_drain @ sample_closing) sample_start = Some p'"
    "pipeline_run (list_queue 2) sample_env sample_start (sample_events @ sample_drain @ sample_closing) p'"
    "ad_exited (pl_dispatcher p')" "map (\<lambda>(a, t). al_customer_id a) (pl_handled p') = [7]"
    using sample_reached [OF sample_closed] by (elim exE conjE) (rule that)
  obtain p where p: "pipeline_exec (list_queue 2) sample_env (sample_events @ sample_drain) sample_start = Some p"
    "pipeline_run (list_queue 2) sample_env sample_start (sample_events @ sample_drain) p"
    "engine_finished p" "\<not> ad_exited (pl_dispatcher p)"
    using sample_reached [OF sample_drained] by (elim exE conjE) (rule that)
  have "pipeline_exec (list_queue 2) sample_env sample_closing p = Some p'"
    using p'(1) p(1) exec_append [of "list_queue 2" sample_env "sample_events @ sample_drain" sample_closing sample_start]
    by simp
  then have "pipeline_run (list_queue 2) sample_env p sample_closing p'" by (rule exec_run)
  from pipeline_loses_nothing [OF list_queue_laws refl no_queue p(2) [unfolded sample_start_def] sample_calm(2) p(3,4) this p'(3)]
  have "map fst (pl_handled p') = owed sample_store (evaluated p')" by (rule conjunct1)
  with p'(2,4) show ?thesis by (intro exI [of _ p'] conjI)
qed



text \<open>
  C6: nothing is posted that no rule asked for.  Whatever the interleaving, forced stops included,
  every message posted since the start is one that a registered channel may send for an alert
  that the rules owe for signals taken from the ring buffer.
\<close>

theorem pipeline_posts_owed:
  assumes "spsc_laws sq contents capacity" and "contents q = []" and "ad_queue d = []"
    and "pipeline_run sq env (start_pipeline q store m h d w) es p"
  shows "\<exists>new. ob_posts (pl_outbox p) = ob_posts w @ new \<and>
     (\<forall>msg\<in>set new. \<exists>a\<in>set (owed store (evaluated p)). \<exists>c\<in>set (ad_channels d). may_post a c msg)"
  using inv_posts [OF started_inv [OF assms(1,2,4)] assms(3)] .

theorem pipeline_posts_owed_witness:
  "\<exists>p. pipeline_run (list_queue 2) sample_env sample_start sample_events p \<and>
     (\<exists>new. ob_posts (pl_outbox p) = new \<and> (\<forall>msg\<in>set new. \<exists>a\<in>set (owed sample_store (evaluated p)). \<exists>c\<in>set []. may_post a c msg))"
proof -
  obtain p where p: "pipeline_run (list_queue 2) sample_env sample_start sample_events p"
    using sample_reached [OF sample_pushed] by (elim exE conjE) (rule that)
  from pipeline_posts_owed [OF list_queue_laws refl no_queue p [unfolded sample_start_def]] p show ?thesis
    by (auto simp: new_dispatcher_def)
qed

text \<open>
  C5: the ring buffer is a bounded first-in first-out stage.  In every interleaving the signals
  accepted are those the engine has taken followed by those in the buffer, never more than its
  capacity, and the alerts handled, queued and still held by the engine are, in this order, those
  the rules owe for the signals taken.
\<close>

theorem pipeline_accounts:
  assumes "spsc_laws sq contents capacity" and "contents q = []" and "ad_queue d = []"
    and "pipeline_run sq env (start_pipeline q store m h d w) es p"
  shows "pl_pushed p = pl_popped p @ contents (pl_ring p) \<and> length (contents (pl_ring p)) \<le> capacity \<and>
     map fst (pl_handled p) @ ad_queue (pl_dispatcher p) @ pl_emitting p = owed store (evaluated p)"
proof -
  have inv: "pipeline_inv env contents capacity store (d, w) p" using started_inv [OF assms(1,2,4)] .
  with inv_alerts [OF inv assms(3)] show ?thesis by (simp add: pipeline_inv_def ring_inv_def)
qed

theorem pipeline_accounts_witness:
  "\<exists>p. pipeline_run (list_queue 2) sample_env sample_start sample_events p \<and>
     pl_pushed p = pl_popped p @ pl_ring p \<and> length (pl_ring p) \<le> 2"
proof -
  obtain p where p: "pipeline_run (list_queue 2) sample_env sample_start sample_events p"
    using sample_reached [OF sample_pushed] by (elim exE conjE) (rule that)
  from pipeline_accounts [OF list_queue_laws refl no_queue p [unfolded sample_start_def]] p show ?thesis
    by (auto simp: new_dispatcher_def)
qed


text \<open>
  C8: a stop that comes too early is lost.  The constructor leaves the dispatcher not running and
  its thread sets \<open>running_\<close> when it enters \<open>run\<close>.  If \<open>stop\<close> is called before that, however often, the
  thread never leaves its loop afterwards, in any interleaving without a further call of \<open>stop\<close>:
  whoever joins it waits for ever.
\<close>

theorem early_stop_is_lost:
  assumes "pipeline_run sq env (new_pipeline q store e d w) es p" and "\<not> ad_exited d" and "PE_start_dispatcher \<notin> set es"
    and "pipeline_run sq env p es' p'" and "list_all no_stop_call es'"
  shows "\<not> ad_exited (pl_dispatcher p')"
proof -
  have "\<not> pl_dispatching p \<and> \<not> ad_exited (pl_dispatcher p)"
    using asleep_run [OF assms(1,3)] assms(2) by (simp add: new_pipeline_def)
  then show ?thesis using awake_run [OF assms(4,5)] by (simp add: awake_def)
qed

theorem early_stop_is_lost_witness:
  "\<exists>p p'. pipeline_run (list_queue 2) sample_env sample_start [PE_stop_dispatcher] p \<and>
     pipeline_run (list_queue 2) sample_env p [PE_start_dispatcher, PE_turn sample_tick] p' \<and>
     \<not> ad_exited (pl_dispatcher p')"
proof -
  have "holds_after [PE_stop_dispatcher] (\<lambda>p. pipeline_exec (list_queue 2) sample_env [PE_start_dispatcher, PE_turn sample_tick] p \<noteq> None)"
    by code_simp
  from sample_reached [OF this] obtain p p' where
    p: "pipeline_run (list_queue 2) sample_env sample_start [PE_stop_dispatcher] p"
      "pipeline_exec (list_queue 2) sample_env [PE_start_dispatcher, PE_turn sample_tick] p = Some p'"
    by blast
  have "\<not> ad_exited (new_dispatcher False sample_dedup [] None)" "list_all no_stop_call [PE_start_dispatcher, PE_turn sample_tick]"
    by (simp_all add: new_dispatcher_def sample_tick_def)
  with early_stop_is_lost [OF p(1) [unfolded sample_start_def] _ _ exec_run [OF p(2)]] p(1) exec_run [OF p(2)]
  show ?thesis by auto
qed

end
