(* ===== verification/Block_Coverage.thy ===== *)
theory Block_Coverage
  imports Event_Source "HOL-Library.Sublist"
begin

text \<open>
  The blocks an event source covers over its whole life.  \<open>covers\<close> is the reference: a chain of
  block ranges without gap or overlap, each fetched from the node, with the signals of its logs
  together and in order among the signals pushed.  The loop of \<open>EventSource::run\<close>, with its
  retries after errors, covers everything between the cursor at the start and at the end, and
  pushes nothing but normalized logs.
\<close>

section \<open>The reference\<close>

inductive covers :: "'w source_env \<Rightarrow> u64 \<Rightarrow> Signal list \<Rightarrow> u64 \<Rightarrow> u64 \<Rightarrow> bool"
  for env chain_id sigs first where
  covers_none: "covers env chain_id sigs first first"
| covers_batch: "covers env chain_id sigs first f \<Longrightarrow> se_getLogs env f t w0 = (Inr logs, w1) \<Longrightarrow> f \<le> t \<Longrightarrow>
    unat next = unat t + 1 \<Longrightarrow> list_all2 (signal_of chain_id ts) logs part \<Longrightarrow> sublist part sigs \<Longrightarrow>
    covers env chain_id sigs first next"

lemma covers_mono:
  "covers env c sigs first next \<Longrightarrow> sublist sigs sigs' \<Longrightarrow> covers env c sigs' first next"
proof (induction rule: covers.induct)
  case (covers_batch f t w0 logs w1 "next" ts part)
  have "sublist part sigs'" using sublist_order.order_trans [OF covers_batch.hyps(6) covers_batch.prems] .
  with covers.covers_batch [OF covers_batch.IH [OF covers_batch.prems] covers_batch.hyps(2-5)] show ?case .
qed (simp add: covers_none)

lemma covers_trans:
  "covers env c sigs b d \<Longrightarrow> covers env c sigs a b \<Longrightarrow> covers env c sigs a d"
  by (induction rule: covers.induct) (auto intro: covers.intros)

section \<open>What never changes\<close>

lemma poll_batch_frame:
  assumes "poll_batch env (s, w) = Some (r, s', w')"
  shows "es_cfg s' = es_cfg s \<and> es_chain_id s' = es_chain_id s \<and> es_cold_start s' = es_cold_start s \<and>
     es_cached_chain_head s' = es_cached_chain_head s"
  using assms
  by (auto simp: poll_batch_def Let_def split: prod.splits sum.splits option.splits dest!: push_logs_frame)

text \<open>No node reports the last 64-bit number as its head, so block arithmetic does not wrap around.\<close>

definition heads_below :: "'w source_env \<Rightarrow> bool" where
  "heads_below env \<longleftrightarrow> (\<forall>w h w'. se_latestBlock env w = (Inr h, w') \<longrightarrow> unat h < 2 ^ 64 - 1)"

definition source_ok :: "EventSource \<Rightarrow> bool" where
  "source_ok s \<longleftrightarrow> \<not> es_cold_start s \<and> ec_min_block_range (es_cfg s) = 1 \<and> 1 \<le> ec_max_block_range (es_cfg s) \<and>
     unat (es_cached_chain_head s) < 2 ^ 64 - 1"

lemma refresh_head_ok:
  assumes "heads_below env" and "source_ok s" and "refresh_head env (s, w) = (r, s', w')"
  shows "source_ok s' \<and> es_chain_id s' = es_chain_id s \<and> es_next_block s' = es_next_block s"
proof (cases "es_cached_chain_head s = 0 \<or> es_next_block s > es_cached_chain_head s")
  case True
  obtain x w1 where latest: "se_latestBlock env w = (x, w1)" by fastforce
  show ?thesis
  proof (cases x)
    case (Inl e)
    with True assms(2,3) latest show ?thesis by (auto simp: refresh_head_def)
  next
    case (Inr h)
    with assms(1) latest have "unat h < 2 ^ 64 - 1" unfolding heads_below_def by blast
    then have "unat (min h e) < 2 ^ 64 - 1" for e by (simp add: min_def word_le_nat_alt)
    with True Inr \<open>unat h < 2 ^ 64 - 1\<close> assms(2,3) latest show ?thesis
      by (auto simp: refresh_head_def source_ok_def Let_def)
  qed
next
  case False
  with assms show ?thesis by (simp add: refresh_head_def)
qed

lemma poll_once_source_ok:
  assumes "heads_below env" and "source_ok s" and "poll_once env (s, w) = Some (r, s', w')"
  shows "source_ok s' \<and> es_chain_id s' = es_chain_id s"
proof -
  obtain r1 s1 w1 where head: "refresh_head env (s, w) = (r1, s1, w1)" by (metis prod_cases3)
  note ok = refresh_head_ok [OF assms(1,2) head]
  show ?thesis
    using assms(3) ok poll_batch_frame [of env s1 w1 r s' w']
    by (auto simp: poll_once_def head source_ok_def split: option.splits if_splits)
qed

section \<open>What is pushed\<close>

definition from_logs :: "u64 \<Rightarrow> Signal list \<Rightarrow> bool" where
  "from_logs chain_id sigs \<longleftrightarrow> (\<forall>x\<in>set sigs. \<exists>raw ts. signal_of chain_id ts raw x)"

lemma list_all2_from_logs: "list_all2 (signal_of c ts) logs sigs \<Longrightarrow> from_logs c sigs"
  unfolding from_logs_def by (induction rule: list_all2_induct) auto

lemma poll_batch_from_logs:
  assumes tr: "tracks env pushed" and poll: "poll_batch env (s, w) = Some (r, s', w')"
  shows "\<exists>sigs. pushed w' = pushed w @ sigs \<and> from_logs (es_chain_id s) sigs"
  using assms
proof (cases rule: poll_batch_parts)
  case (pushing ts logs k x s2 w2)
  then show ?thesis using push_logs_pushes [OF tr pushing(1)] by (auto intro!: list_all2_from_logs)
qed (simp add: from_logs_def)

lemma poll_once_from_logs:
  assumes tr: "tracks env pushed" and poll: "poll_once env (s, w) = Some (r, s', w')"
  shows "\<exists>sigs. pushed w' = pushed w @ sigs \<and> from_logs (es_chain_id s) sigs"
proof -
  obtain r1 s1 w1 where head: "refresh_head env (s, w) = (r1, s1, w1)" by (metis prod_cases3)
  note p = refresh_head_pushed [OF tr head] and c = refresh_head_cases(3) [OF head]
  have none: "\<exists>sigs. pushed w1 = pushed w @ sigs \<and> from_logs (es_chain_id s) sigs"
    using p by (simp add: from_logs_def)
  show ?thesis
    using poll none poll_batch_from_logs [OF tr, of s1 w1 r s' w'] p c
    by (auto simp: poll_once_def head split: option.splits if_splits)
qed

section \<open>The life of a source\<close>

lemma poll_covers:
  assumes tr: "tracks env pushed" and heads: "heads_below env" and ok: "source_ok s"
    and poll: "poll_once env (s, w) = Some (r, s', w')"
  shows "covers env (es_chain_id s) (pushed w') (es_next_block s) (es_next_block s')"
proof (cases r)
  case (Inl e)
  then have "es_next_block s' = es_next_block s" using poll_once_error [OF tr] poll by blast
  then show ?thesis by (simp add: covers_none)
next
  case (Inr behind)
  have "source_ok s'" using poll_once_source_ok [OF heads ok poll] by simp
  then show ?thesis
    using poll_advance [OF tr poll [unfolded Inr]] ok covers_batch [OF covers_none]
    unfolding source_ok_def by (metis covers_none sublist_append_leftI)
qed

lemma source_iter_covers:
  assumes tr: "tracks env pushed" and heads: "heads_below env" and ok: "source_ok s"
    and iter: "source_iter env stop (s, w) = Some (ended, s', w')"
  shows "covers env (es_chain_id s) (pushed w') (es_next_block s) (es_next_block s') \<and> source_ok s' \<and>
     es_chain_id s' = es_chain_id s \<and> (\<exists>sigs. pushed w' = pushed w @ sigs \<and> from_logs (es_chain_id s) sigs)"
proof (cases "s' = s \<and> w' = w")
  case True
  then show ?thesis using ok by (simp add: covers_none from_logs_def)
next
  case False
  obtain now w1 where hb: "(case es_heartbeat s of None \<Rightarrow> (0, w) | Some h \<Rightarrow> se_steady_ms env w) = (now, w1)"
    by fastforce
  define s1 where "s1 = s\<lparr>es_heartbeat := map_option (heartbeat_record now) (es_heartbeat s)\<rparr>"
  obtain r where poll: "poll_once env (s1, w1) = Some (r, s', w')"
    using iter False hb by (auto simp: source_iter_def s1_def Let_def split: if_splits option.splits)
  have "pushed w1 = pushed w" using hb tr by (auto simp: tracks_def split: option.splits) (metis snd_conv)
  moreover have s1: "source_ok s1" "es_chain_id s1 = es_chain_id s" "es_next_block s1 = es_next_block s"
    using ok by (simp_all add: s1_def source_ok_def)
  ultimately show ?thesis
    using poll_covers [OF tr heads s1(1) poll] poll_once_source_ok [OF heads s1(1) poll]
      poll_once_from_logs [OF tr poll]
    by simp
qed

lemma source_run_covers:
  assumes tr: "tracks env pushed" and heads: "heads_below env"
  shows "source_ok s \<Longrightarrow> source_run env n (s, w) = Some (ended, s', w') \<Longrightarrow>
     covers env (es_chain_id s) (pushed w') (es_next_block s) (es_next_block s') \<and>
     (\<exists>sigs. pushed w' = pushed w @ sigs \<and> from_logs (es_chain_id s) sigs)"
proof (induction n arbitrary: s w)
  case 0
  then show ?case by (simp add: covers_none from_logs_def)
next
  case (Suc n)
  obtain b s1 w1 where iter: "source_iter env False (s, w) = Some (b, s1, w1)"
    using Suc.prems(2) by (auto split: option.splits prod.splits)
  note one = source_iter_covers [OF tr heads Suc.prems(1) iter]
  show ?case
  proof (cases b)
    case True
    then show ?thesis using Suc.prems(2) iter one by simp
  next
    case False
    with Suc.prems(2) iter have "source_run env n (s1, w1) = Some (ended, s', w')" by simp
    with Suc.IH [of s1 w1] one have rest: "covers env (es_chain_id s) (pushed w') (es_next_block s1) (es_next_block s')"
      and sigs: "\<exists>sigs. pushed w' = pushed w1 @ sigs \<and> from_logs (es_chain_id s) sigs"
      by simp_all
    from sigs have "sublist (pushed w1) (pushed w')" by auto
    with one covers_mono have "covers env (es_chain_id s) (pushed w') (es_next_block s) (es_next_block s1)" by metis
    with covers_trans [OF rest] one sigs show ?thesis by (auto simp: from_logs_def)
  qed
qed

section \<open>A concrete source\<close>

lemma sample_chain:
  "benign (list_env [sample_transfer]) 10" "heads_below (list_env [sample_transfer])" "source_ok (sample_source 9)"
  "es_next_block (sample_source 9) = 4" "es_chain_id (sample_source 9) = 1"
  using sample_ok by (simp_all add: benign_def heads_below_def list_env_def source_ok_def sample_source_def)

text \<open>A backtest over six blocks, with one transfer in every range.\<close>

lemma sample_backtest:
  "\<exists>n s' w'. source_run (list_env [sample_transfer]) n (sample_source 9, []) = Some (True, s', w') \<and> es_next_block s' = 10"
proof -
  have "backtest_ok 10 (sample_source 9)" "\<not> es_cold_start (sample_source 9)"
    "ec_backtest_end_block (es_cfg (sample_source 9)) = 9"
    by (simp_all add: backtest_ok_def sample_source_def)
  then obtain n s' w' where
    "source_run (list_env [sample_transfer]) n (sample_source 9, []) = Some (True, s', w')" "unat (es_next_block s') = 10"
    using backtest_runs [OF sample_chain(1), of "sample_source 9" "[]"] by (auto simp: sample_chain)
  then show ?thesis by (intro exI [of _ n] exI [of _ s'] exI [of _ w']) (simp add: word_unat_eq_iff)
qed

section \<open>Properties\<close>



end
