(* ===== verification/Observability.thy ===== *)
theory Observability
  imports Pipeline Block_Coverage
begin

text \<open>
  What the gauges and counters of the components tell about a run of the pipeline.  The counters
  are association lists in the engine and in the dispatcher, found by rule type or channel name;
  the depth of the ring buffer is one Prometheus gauge that the event source increments and the
  engine decrements, here the engine's share of it.  The lemmas relate every number to the
  histories of the pipeline: alerts generated, withheld, sent or failed, and the two depths.
\<close>

section \<open>Counters\<close>

lemma map_of_increment:
  "map_of (increment n cs) m = (if m = n then map_option Suc (map_of cs n) else map_of cs m)"
  by (simp add: increment_def update_conv' split: option.splits)

lemma count_alert_increment: "count_alert = increment"
  by (intro ext) (simp add: count_alert_def increment_def split: option.splits)

lemma map_of_increments:
  "map_of (fold increment ns cs) m = map_option (\<lambda>k. k + count_list ns m) (map_of cs m)"
proof (induction ns arbitrary: cs)
  case Nil
  then show ?case by (cases "map_of cs m") simp_all
next
  case (Cons n ns)
  then show ?case by (cases "m = n"; cases "map_of cs m") (simp_all add: map_of_increment)
qed

lemma map_of_more:
  assumes "f' = map_option (\<lambda>k. k + i) f" and "f = map_option (\<lambda>k. k + j) f0"
  shows "f' = map_option (\<lambda>k. k + (j + i :: nat)) f0"
  using assms by (cases f0) simp_all

section \<open>The engine's counters\<close>

definition engine_counts :: "RiskEngine \<Rightarrow> 'q pipeline \<Rightarrow> bool" where
  "engine_counts e0 p \<longleftrightarrow>
     (\<forall>n. map_of (re_counters (et_engine (pl_thread p))) n =
        map_option (\<lambda>k. k + count_list (map al_rule_type (et_dispatched (pl_thread p))) n) (map_of (re_counters e0) n)) \<and>
     re_metrics (et_engine (pl_thread p)) = re_metrics e0 \<and>
     re_ring_depth (et_engine (pl_thread p)) = re_ring_depth e0 - (if re_metrics e0 then int (length (pl_popped p)) else 0)"

lemma route_signal_counts:
  "\<exists>alerts. et_dispatched (route_signal s t) = et_dispatched t @ alerts \<and>
     re_counters (et_engine (route_signal s t)) = fold increment (map al_rule_type alerts) (re_counters (et_engine t)) \<and>
     re_metrics (et_engine (route_signal s t)) = re_metrics (et_engine t) \<and>
     re_ring_depth (et_engine (route_signal s t)) = re_ring_depth (et_engine t)"
  by (auto simp: route_signal_def Let_def case_prod_unfold count_alert_increment fold_map comp_def)

lemma handle_signal_counts:
  "\<exists>alerts. et_dispatched (handle_signal s t) = et_dispatched t @ alerts \<and>
     re_counters (et_engine (handle_signal s t)) = fold increment (map al_rule_type alerts) (re_counters (et_engine t)) \<and>
     re_metrics (et_engine (handle_signal s t)) = re_metrics (et_engine t) \<and>
     re_ring_depth (et_engine (handle_signal s t)) = re_ring_depth (et_engine t) - (if re_metrics (et_engine t) then 1 else 0)"
  using route_signal_counts [of s t]
    route_signal_counts [of s "t\<lparr>et_engine := (et_engine t)\<lparr>re_ring_depth := re_ring_depth (et_engine t) - 1\<rparr>\<rparr>"]
  by (auto simp: handle_signal_def Let_def intro: exI [of _ "[]"])

lemma engine_iter_counts:
  "\<exists>alerts. et_dispatched (engine_iter ob t) = et_dispatched t @ alerts \<and>
     re_counters (et_engine (engine_iter ob t)) = fold increment (map al_rule_type alerts) (re_counters (et_engine t)) \<and>
     re_metrics (et_engine (engine_iter ob t)) = re_metrics (et_engine t) \<and>
     re_ring_depth (et_engine (engine_iter ob t)) = re_ring_depth (et_engine t) -
       (if re_metrics (et_engine t) \<and> loop_entered (ob_stop_requested ob) t \<and> ob_front ob \<noteq> None then 1 else 0)"
proof (cases "loop_entered (ob_stop_requested ob) t \<and> ob_front ob \<noteq> None")
  case True
  then obtain s where s: "ob_front ob = Some s" by blast
  let ?t = "t\<lparr>et_engine := (et_engine t)\<lparr>re_heartbeat :=
      map_option (heartbeat_record (ob_now_ms ob)) (re_heartbeat (et_engine t))\<rparr>\<rparr>"
  have "engine_iter ob t = handle_signal s ?t" using True s by (simp add: engine_iter_def loop_entered_def)
  with handle_signal_counts [of s ?t] True show ?thesis by simp
next
  case False
  then show ?thesis
    by (auto simp: engine_iter_def loop_entered_def finish_def Let_def split: option.splits intro!: exI [of _ "[]"])
qed

lemma engine_turn_counts:
  assumes "engine_counts e0 p"
  shows "engine_counts e0 (engine_turn sq stop now p)"
proof -
  define ob where "ob = \<lparr>ob_stop_requested = stop, ob_now_ms = now, ob_front = sq_front sq (pl_ring p)\<rparr>"
  have t': "pl_thread (engine_turn sq stop now p) = engine_iter ob (pl_thread p)"
    by (simp add: ob_def engine_turn_thread)
  obtain alerts where iter: "et_dispatched (engine_iter ob (pl_thread p)) = et_dispatched (pl_thread p) @ alerts"
    "re_counters (et_engine (engine_iter ob (pl_thread p))) =
       fold increment (map al_rule_type alerts) (re_counters (et_engine (pl_thread p)))"
    "re_metrics (et_engine (engine_iter ob (pl_thread p))) = re_metrics (et_engine (pl_thread p))"
    "re_ring_depth (et_engine (engine_iter ob (pl_thread p))) = re_ring_depth (et_engine (pl_thread p)) -
       (if re_metrics (et_engine (pl_thread p)) \<and> loop_entered stop (pl_thread p) \<and> sq_front sq (pl_ring p) \<noteq> None
        then 1 else 0)"
    using engine_iter_counts [of ob "pl_thread p"] by (auto simp: ob_def)
  have "map_of (re_counters (et_engine (engine_iter ob (pl_thread p)))) n =
      map_option (\<lambda>k. k + count_list (map al_rule_type (et_dispatched (engine_iter ob (pl_thread p)))) n)
        (map_of (re_counters e0) n)" for n
    unfolding iter(1,2) map_append count_list_append
    by (rule map_of_more [OF map_of_increments]) (use assms in \<open>simp add: engine_counts_def\<close>)
  moreover have "length (pl_popped (engine_turn sq stop now p)) = length (pl_popped p) +
      (if loop_entered stop (pl_thread p) \<and> sq_front sq (pl_ring p) \<noteq> None then 1 else 0)"
    by (auto simp: engine_turn_popped split: option.splits)
  ultimately show ?thesis
    using assms iter(3,4) unfolding engine_counts_def t' by auto
qed

lemma step_engine_counts: "pipeline_step sq env e p p' \<Longrightarrow> engine_counts e0 p \<Longrightarrow> engine_counts e0 p'"
proof (induction rule: pipeline_step.induct)
  case engine
  then show ?case using engine_turn_counts by blast
qed (simp_all add: engine_counts_def turn_of_dispatcher_def case_prod_unfold Let_def engine_stop_def)

lemma run_engine_counts: "pipeline_run sq env p es p' \<Longrightarrow> engine_counts e0 p \<Longrightarrow> engine_counts e0 p'"
  by (induction rule: pipeline_run.induct) (auto intro: step_engine_counts)

text \<open>At the start every registered rule has a counter at zero.\<close>

definition zeros :: "(string \<times> nat) list \<Rightarrow> bool" where
  "zeros cs \<longleftrightarrow> (\<forall>n k. map_of cs n = Some k \<longrightarrow> k = 0)"

lemma register_rule_zeros:
  assumes "zeros (re_counters e)" and "re_metrics e"
  shows "zeros (re_counters (register_rule store p e)) \<and> re_metrics (register_rule store p e) \<and>
     re_ring_depth (register_rule store p e) = re_ring_depth e \<and>
     dom (map_of (re_counters (register_rule store p e))) = insert (rule_type_name (store ! p)) (dom (map_of (re_counters e)))"
  using assms by (auto simp: register_rule_def zeros_def Let_def update_conv' split: if_splits)

lemma register_rules_zeros:
  assumes "zeros (re_counters e)" and "re_metrics e"
  shows "zeros (re_counters (fold (register_rule store) ps e)) \<and> re_metrics (fold (register_rule store) ps e) \<and>
     re_ring_depth (fold (register_rule store) ps e) = re_ring_depth e \<and>
     dom (map_of (re_counters (fold (register_rule store) ps e))) =
       (\<lambda>p. rule_type_name (store ! p)) ` set ps \<union> dom (map_of (re_counters e))"
  using assms
proof (induction ps arbitrary: e)
  case (Cons p ps)
  from register_rule_zeros [OF Cons.prems] Cons.IH [of "register_rule store p e"] show ?case by auto
qed simp

lemma started_counters:
  assumes "r \<in> set store"
  shows "map_of (re_counters (register_all store (new_engine True h))) (rule_type_name r) = Some 0"
proof -
  note z = register_rules_zeros [of "new_engine True h" store "[0..<length store]"]
  have "rule_type_name r \<in> (\<lambda>p. rule_type_name (store ! p)) ` set [0..<length store]"
    using assms by (auto simp: in_set_conv_nth)
  then have "rule_type_name r \<in> dom (map_of (re_counters (register_all store (new_engine True h))))"
    using z by (simp add: register_all_def new_engine_def zeros_def)
  then obtain k where "map_of (re_counters (register_all store (new_engine True h))) (rule_type_name r) = Some k"
    by blast
  moreover have "zeros (re_counters (register_all store (new_engine True h)))"
    using z by (simp add: register_all_def new_engine_def zeros_def)
  ultimately show ?thesis by (simp add: zeros_def)
qed

section \<open>The dispatcher's counters\<close>

text \<open>The alerts of a history that the deduplicator withheld, and those it let through.\<close>

definition withheld :: "(Alert \<times> u64) list \<Rightarrow> bool list \<Rightarrow> Alert list" where
  "withheld hs ds = map (fst \<circ> fst) (filter snd (zip hs ds))"

definition let_through :: "(Alert \<times> u64) list \<Rightarrow> bool list \<Rightarrow> Alert list" where
  "let_through hs ds = map (fst \<circ> fst) (filter (\<lambda>x. \<not> snd x) (zip hs ds))"

lemma withheld_append:
  assumes "length hs = length ds"
  shows "withheld (hs @ hs') (ds @ ds') = withheld hs ds @ withheld hs' ds'"
    and "let_through (hs @ hs') (ds @ ds') = let_through hs ds @ let_through hs' ds'"
  using assms by (simp_all add: withheld_def let_through_def)

lemma outcome_counts:
  assumes "length results = length names"
  shows "count_list (map fst (filter (\<lambda>(_, e). e = None) (zip names results))) n +
     count_list (map fst (filter (\<lambda>(_, e). e \<noteq> None) (zip names results))) n = count_list names n"
  using assms by (induction results names rule: list_induct2) simp_all

text \<open>The counters of a channel: what it sent and what it failed to send.\<close>

definition counter :: "counters \<Rightarrow> string \<Rightarrow> nat" where
  "counter cs n = (case map_of cs n of None \<Rightarrow> 0 | Some k \<Rightarrow> k)"

definition attempts :: "AlertDispatcher \<Rightarrow> string \<Rightarrow> nat" where
  "attempts d n = counter (ad_sent_counters d) n + counter (ad_failures_counters d) n"

definition counted_channel :: "AlertDispatcher \<Rightarrow> string \<Rightarrow> bool" where
  "counted_channel d n \<longleftrightarrow> map_of (ad_sent_counters d) n \<noteq> None \<and> map_of (ad_failures_counters d) n \<noteq> None"

lemma counter_increments: "map_of cs n \<noteq> None \<Longrightarrow> counter (fold increment ns cs) n = counter cs n + count_list ns n"
  by (auto simp: counter_def map_of_increments)

lemma send_all_counts:
  assumes "send_all env now a d w = (b, d', w')" and "counted_channel d n"
  shows "attempts d' n = attempts d n + count_list (map channel_name (ad_channels d)) n"
    and "counted_channel d' n" and "map channel_name (ad_channels d') = map channel_name (ad_channels d)"
    and "ad_deduplicated_counters d' = ad_deduplicated_counters d"
proof -
  obtain results chans w1 where f: "fan_out (channel_send env now a) (ad_channels d) w = (results, chans, w1)"
    by (metis prod_cases3)
  have len: "length results = length (map channel_name (ad_channels d))" "map channel_name chans = map channel_name (ad_channels d)"
    using channels.fan_out_length [of env now a "ad_channels d" w] f by simp_all
  show "attempts d' n = attempts d n + count_list (map channel_name (ad_channels d)) n"
    using assms outcome_counts [OF len(1), of n]
    by (auto simp: send_all_def f Let_def attempts_def counted_channel_def counter_increments)
  show "counted_channel d' n" using assms by (auto simp: send_all_def f Let_def counted_channel_def map_of_increments)
  show "map channel_name (ad_channels d') = map channel_name (ad_channels d)"
    "ad_deduplicated_counters d' = ad_deduplicated_counters d"
    using assms(1) len(2) by (auto simp: send_all_def f Let_def)
qed

text \<open>One step of the dispatcher.\<close>

definition dispatcher_counts :: "AlertDispatcher \<Rightarrow> (Alert \<times> u64) list \<Rightarrow> bool list \<Rightarrow> AlertDispatcher \<Rightarrow> bool" where
  "dispatcher_counts d hs ds d' \<longleftrightarrow>
     (\<forall>rt. map_of (ad_deduplicated_counters d') rt =
        map_option (\<lambda>k. k + count_list (map al_rule_type (withheld hs ds)) rt) (map_of (ad_deduplicated_counters d) rt)) \<and>
     (\<forall>n. counted_channel d n \<longrightarrow> counted_channel d' n \<and>
        attempts d' n = attempts d n + length (let_through hs ds) * count_list (map channel_name (ad_channels d)) n) \<and>
     map channel_name (ad_channels d') = map channel_name (ad_channels d) \<and>
     (ad_metrics d \<and> ad_queue_depth d = length (ad_queue d) \<longrightarrow>
        ad_metrics d' \<and> ad_queue_depth d' = length (ad_queue d'))"

lemma dispatcher_counts_still: "dispatcher_counts d [] [] d"
  by (simp add: dispatcher_counts_def withheld_def let_through_def option.map_ident)

lemma dispatcher_counts_trans:
  assumes "dispatcher_counts d hs ds d1" and "dispatcher_counts d1 hs' ds' d2" and "length hs = length ds"
  shows "dispatcher_counts d (hs @ hs') (ds @ ds') d2"
proof -
  have "map_of (ad_deduplicated_counters d2) rt =
      map_option (\<lambda>k. k + (count_list (map al_rule_type (withheld hs ds)) rt + count_list (map al_rule_type (withheld hs' ds')) rt))
        (map_of (ad_deduplicated_counters d) rt)" for rt
    using assms(1,2) by (intro map_of_more) (simp_all add: dispatcher_counts_def)
  then show ?thesis
    using assms(1,2) unfolding dispatcher_counts_def withheld_append [OF assms(3)]
    by (simp add: add_mult_distrib)
qed

lemma record_metrics_counts [simp]:
  "ad_deduplicated_counters (record_metrics t b a d) = ad_deduplicated_counters d"
  "attempts (record_metrics t b a d) n = attempts d n" "counted_channel (record_metrics t b a d) n = counted_channel d n"
  "ad_channels (record_metrics t b a d) = ad_channels d" "ad_metrics (record_metrics t b a d) = ad_metrics d"
  "ad_queue_depth (record_metrics t b a d) = ad_queue_depth d"
  by (simp_all add: record_metrics_def attempts_def counted_channel_def)

lemma send_all_depth [simp]:
  "ad_metrics (fst (snd (send_all env now a d w))) = ad_metrics d"
  "ad_queue_depth (fst (snd (send_all env now a d w))) = ad_queue_depth d"
  by (simp_all add: send_all_def Let_def case_prod_unfold)

lemma handle_alert_counts:
  assumes "should_suppress (ad_deduplicator d) a now = (b, dd)"
  shows "dispatcher_counts d [(a, now)] [b] (fst (handle_alert env now s a d w))"
proof (cases b)
  case True
  then show ?thesis
    using assms
    by (simp add: handle_alert_def dispatcher_counts_def withheld_def let_through_def Let_def map_of_increment
        attempts_def counted_channel_def option.map_ident cong: option.map_cong)
next
  case False
  define d1 where "d1 = d\<lparr>ad_deduplicator := dd\<rparr>"
  obtain ok d2 w' where sent: "send_all env now a d1 w = (ok, d2, w')" by (metis prod_cases3)
  have same: "counted_channel d1 n = counted_channel d n" "attempts d1 n = attempts d n"
    "ad_channels d1 = ad_channels d" "ad_deduplicated_counters d1 = ad_deduplicated_counters d" for n
    by (simp_all add: d1_def counted_channel_def attempts_def)
  have frame: "ad_deduplicated_counters d2 = ad_deduplicated_counters d" "map channel_name (ad_channels d2) = map channel_name (ad_channels d)"
    using sent channels.fan_out_length [of env now a "ad_channels d1" w]
    by (auto simp: send_all_def Let_def case_prod_unfold same)
  have depth: "ad_metrics d2 = ad_metrics d" "ad_queue_depth d2 = ad_queue_depth d" "ad_queue d2 = ad_queue d"
    using send_all_depth [of env now a d1 w] send_all_queue(1) [of env now a d1 w] unfolding sent by (simp_all add: d1_def)
  have "fst (handle_alert env now s a d w) = record_metrics s ok a d2"
    using False assms sent by (simp add: handle_alert_def Let_def d1_def)
  then show ?thesis
    using send_all_counts [OF sent] same frame depth False
    by (auto simp: dispatcher_counts_def withheld_def let_through_def option.map_ident)
qed

lemma depth_only:
  "dispatcher_counts (d\<lparr>ad_heartbeat := h, ad_queue := q, ad_queue_depth := (if ad_metrics d then length q else k)\<rparr>) hs ds d' \<Longrightarrow>
   dispatcher_counts d hs ds d'"
  by (auto simp: dispatcher_counts_def counted_channel_def attempts_def)

lemma step_counts: "dispatcher_counts d (handled e d) (decision e d) (fst (dispatcher_step env e (d, w)))"
proof (cases e)
  case (E_turn tk)
  show ?thesis
  proof (cases "ad_exited d \<or> ad_queue d = []")
    case True
    then show ?thesis
      by (auto simp: E_turn dispatcher_turn_def Let_def dispatcher_counts_def withheld_def let_through_def
          counted_channel_def attempts_def option.map_ident)
  next
    case False
    then obtain a rest where q: "ad_queue d = a # rest" by (cases "ad_queue d") auto
    obtain b dd where "should_suppress (ad_deduplicator d) a (tk_now_ms tk) = (b, dd)" by fastforce
    note b = this
    let ?d = "d\<lparr>ad_heartbeat := map_option (heartbeat_record (tk_steady_ms tk)) (ad_heartbeat d),
        ad_queue := rest, ad_queue_depth := (if ad_metrics d then length rest else ad_queue_depth d)\<rparr>"
    have "dispatcher_counts d [(a, tk_now_ms tk)] [b] (fst (handle_alert env (tk_now_ms tk) (tk_now_s tk) a ?d w))"
      by (rule depth_only, rule handle_alert_counts) (simp add: b)
    moreover have "handled e d = [(a, tk_now_ms tk)]" "decision e d = [b]" using False q b by (simp_all add: E_turn)
    moreover have "fst (dispatcher_step env e (d, w)) = fst (handle_alert env (tk_now_ms tk) (tk_now_s tk) a ?d w)"
      using False q by (simp add: E_turn dispatcher_turn_def)
    ultimately show ?thesis by simp
  qed
qed (auto simp: dispatcher_counts_def withheld_def let_through_def counted_channel_def attempts_def option.map_ident
    dispatch_def dispatcher_start_def dispatcher_stop_def Let_def)

lemma decision_length: "length (handled e d) = length (decision e d)"
  by (cases e) simp_all

lemma run_counts:
  "dispatcher_counts (fst dw) (handled_run env es dw) (decision_run env es dw) (fst (dispatcher_run env es dw))"
proof (induction es arbitrary: dw)
  case Nil
  then show ?case by (simp add: dispatcher_run_def dispatcher_counts_still)
next
  case (Cons e es)
  obtain d w where dw: "dw = (d, w)" by fastforce
  from dispatcher_counts_trans [OF step_counts Cons.IH decision_length, of d e env w] show ?case
    by (simp add: dw dispatcher_run_def)
qed

section \<open>The event source's share of the ring buffer's gauge\<close>

definition depth_ok :: "('w \<Rightarrow> Signal list) \<Rightarrow> EventSource \<Rightarrow> 'w \<Rightarrow> bool" where
  "depth_ok pushed s w \<longleftrightarrow> es_metrics s \<and> es_ring_depth s = int (length (pushed w))"

lemma push_logs_depth:
  assumes tr: "tracks env pushed"
  shows "push_logs env ts logs (s, w) = Some (e, s', w') \<Longrightarrow> depth_ok pushed s w \<Longrightarrow> depth_ok pushed s' w'"
proof (induction logs arbitrary: s w)
  case (Cons raw raws)
  show ?case
  proof (cases "normalize_log (se_stack env w) raw (es_chain_id s) ts")
    case (Inl x)
    with Cons.prems show ?thesis by simp
  next
    case (Inr ev)
    obtain now w1 where now: "se_steady_ms env w = (now, w1)" by fastforce
    let ?ev = "ev\<lparr>sig_meta := (sig_meta ev)\<lparr>sm_internal_ingress_time_ms := now\<rparr>\<rparr>"
    obtain w2 where w2: "push_blocking env ?ev w1 = Some w2"
      and rest: "push_logs env ts raws (s\<lparr>es_signals_normalized := es_signals_normalized s + (if es_metrics s then 1 else 0),
          es_ring_depth := es_ring_depth s + (if es_metrics s then 1 else 0)\<rparr>, w2) = Some (e, s', w')"
      using Cons.prems(1) Inr now by (auto simp: Let_def split: option.splits)
    have "pushed w1 = pushed w" using tr now unfolding tracks_def by (metis snd_conv)
    then have "pushed w2 = pushed w @ [?ev]" using push_blocking_pushes [OF tr w2] by simp
    then show ?thesis using Cons.IH [OF rest] Cons.prems(2) by (simp add: depth_ok_def)
  qed
qed simp

lemma poll_batch_depth:
  assumes tr: "tracks env pushed" and poll: "poll_batch env (s, w) = Some (r, s', w')" and ok: "depth_ok pushed s w"
  shows "depth_ok pushed s' w'"
  using tr poll
proof (cases rule: poll_batch_parts)
  case (pushing ts logs k x s2 w2)
  then show ?thesis using push_logs_depth [OF tr pushing(1)] ok by (auto simp: depth_ok_def)
qed (use ok in \<open>simp add: depth_ok_def\<close>)

lemma refresh_head_depth:
  "refresh_head env (s, w) = (r, s', w') \<Longrightarrow> es_metrics s' = es_metrics s \<and> es_ring_depth s' = es_ring_depth s"
  by (auto simp: refresh_head_def Let_def split: if_splits prod.splits sum.splits)

lemma source_iter_depth:
  assumes tr: "tracks env pushed" and iter: "source_iter env stop (s, w) = Some (ended, s', w')" and ok: "depth_ok pushed s w"
  shows "depth_ok pushed s' w'"
proof (cases "s' = s \<and> w' = w")
  case False
  obtain now w1 where hb: "(case es_heartbeat s of None \<Rightarrow> (0, w) | Some h \<Rightarrow> se_steady_ms env w) = (now, w1)"
    by fastforce
  define s1 where "s1 = s\<lparr>es_heartbeat := map_option (heartbeat_record now) (es_heartbeat s)\<rparr>"
  obtain r where poll: "poll_once env (s1, w1) = Some (r, s', w')"
    using iter False hb by (auto simp: source_iter_def s1_def Let_def split: if_splits option.splits)
  have "pushed w1 = pushed w" using hb tr by (auto simp: tracks_def split: option.splits) (metis snd_conv)
  then have ok1: "depth_ok pushed s1 w1" using ok by (simp add: depth_ok_def s1_def)
  obtain r2 s2 w2 where head: "refresh_head env (s1, w1) = (r2, s2, w2)" by (metis prod_cases3)
  have "depth_ok pushed s2 w2"
    using refresh_head_depth [OF head] refresh_head_pushed [OF tr head] ok1 by (simp add: depth_ok_def)
  then show ?thesis
    using poll poll_batch_depth [OF tr, of s2 w2] by (auto simp: poll_once_def head split: option.splits if_splits)
qed (use ok in simp)

lemma source_run_depth:
  assumes tr: "tracks env pushed"
  shows "source_run env n (s, w) = Some (ended, s', w') \<Longrightarrow> depth_ok pushed s w \<Longrightarrow> depth_ok pushed s' w'"
proof (induction n arbitrary: s w)
  case (Suc n)
  obtain b s1 w1 where iter: "source_iter env False (s, w) = Some (b, s1, w1)"
    using Suc.prems(1) by (auto split: option.splits prod.splits)
  note ok1 = source_iter_depth [OF tr iter Suc.prems(2)]
  show ?case using Suc.prems(1) iter ok1 Suc.IH [of s1 w1] by (cases b) simp_all
qed simp

section \<open>A concrete run with metrics\<close>

definition metered_dispatcher :: AlertDispatcher where
  "metered_dispatcher = (case add_channel (Some C_Console) (new_dispatcher True sample_dedup [''large_transfer''] None) of
     Some d \<Rightarrow> d | None \<Rightarrow> new_dispatcher True sample_dedup [] None)"

lemma metered_dispatcher_facts:
  "ad_queue metered_dispatcher = []" "ad_metrics metered_dispatcher" "ad_queue_depth metered_dispatcher = 0"
  "map_of (ad_deduplicated_counters metered_dispatcher) ''large_transfer'' = Some 0"
  "counted_channel metered_dispatcher ''console''" "attempts metered_dispatcher ''console'' = 0"
  "count_list (map channel_name (ad_channels metered_dispatcher)) ''console'' = 1"
  by (simp_all add: metered_dispatcher_def add_channel_def new_dispatcher_def Let_def counted_channel_def attempts_def counter_def)

section \<open>Properties\<close>

lemma engine_counts_start:
  "engine_counts (register_all store (new_engine m h)) (start_pipeline q store m h d w)"
  by (simp add: engine_counts_def new_pipeline_def start_engine_def option.map_ident)

lemma start_depth:
  "re_metrics (register_all store (new_engine True h))" "re_ring_depth (register_all store (new_engine True h)) = 0"
  using register_rules_zeros [of "new_engine True h" store "[0..<length store]"]
  by (simp_all add: register_all_def new_engine_def zeros_def)

lemma split_counts:
  "length hs = length ds \<Longrightarrow> count_list (map (al_rule_type \<circ> fst) hs) rt =
     count_list (map al_rule_type (withheld hs ds)) rt + count_list (map al_rule_type (let_through hs ds)) rt"
  by (induction hs ds rule: list_induct2) (auto simp: withheld_def let_through_def)





end
