(* ===== verification/Row_Alerts.thy ===== *)
theory Row_Alerts
  imports App_Modules Pipeline
begin

text \<open>
  What the rows of the database promise the customers.  \<open>row_alerts\<close> is the reference: for one
  signal and those before it, the alerts that the rows of the six tables call for, read off the
  rows with the amounts as numbers; only the alerts on price updates depend on the earlier
  signals, through the last price of the feed.  The rules that start-up builds owe exactly these,
  in this order.
\<close>

section \<open>The reference\<close>

definition rows_of :: "'r list result \<Rightarrow> 'r list" where
  "rows_of query = (case query of Inl e \<Rightarrow> [] | Inr rows \<Rightarrow> rows)"

definition amount_of :: "EvmLogEvent \<Rightarrow> nat" where
  "amount_of evm = be_value (take 32 (evm_data evm))"

definition parse_large_transfer_row ::
  "(string \<Rightarrow> jvalue result) \<Rightarrow> (large_transfer_row, unit, LargeTransferRuleConfig) row_parser" where
  "parse_large_transfer_row parse_json r =
     bindE (lr_customer_id r) (\<lambda>customer_id.
     bindE (lr_params_jsonb r) (\<lambda>params_str.
       Inr (case large_transfer_config parse_json customer_id params_str of Inl e \<Rightarrow> None | Inr c \<Rightarrow> Some ((), c))))"

definition transfer_row_alerts :: "'w app_env \<Rightarrow> Signal \<Rightarrow> EvmLogEvent \<Rightarrow> Alert list" where
  "transfer_row_alerts env s evm =
     map (large_transfer_alert s evm)
       (filter (\<lambda>c. lt_chain_id c = evm_chain_id evm \<and> lt_token_address c = evm_address evm \<and>
            be_value (lt_threshold_be c) < amount_of evm)
         (rows_for (parse_large_transfer_row (av_parse_json env)) (rows_of (q_large_transfer (av_queries env))) ()))"

definition governance_row_alerts :: "'w app_env \<Rightarrow> Signal \<Rightarrow> GovernanceEvent \<Rightarrow> Alert list" where
  "governance_row_alerts env s g =
     map (governance_alert s g) (filter gc_enabled
       (rows_for parse_governance_row (rows_of (q_governance (av_queries env)))
          (gov_chain_id g, address_to_hex (gov_contract_address g))))"

definition mint_burn_row_alerts :: "'w app_env \<Rightarrow> Signal \<Rightarrow> MintBurnEvent \<Rightarrow> Alert list" where
  "mint_burn_row_alerts env s e =
     map (mint_burn_alert s e)
       (filter (\<lambda>c. mc_enabled c \<and>
            (case mb_direction e of MB_Unknown \<Rightarrow> False
             | MB_Mint \<Rightarrow> be_value (mc_mint_threshold_be c) \<le> be_value (mb_amount e)
             | MB_Burn \<Rightarrow> be_value (mc_burn_threshold_be c) \<le> be_value (mb_amount e)))
         (rows_for parse_mint_burn_row (rows_of (q_mint_burn (av_queries env)))
            (mb_chain_id e, address_to_hex (mb_token_address e))))"

definition approval_row_alerts :: "'w app_env \<Rightarrow> Signal \<Rightarrow> EvmLogEvent \<Rightarrow> Alert list" where
  "approval_row_alerts env s evm =
     map (approval_alert s evm)
       (filter (\<lambda>c. ac_enabled c \<and>
            (be_value (ac_threshold_be c) < amount_of evm \<or> ac_alert_on_infinite c \<and> amount_of evm = 2 ^ 256 - 1))
         (rows_for parse_approval_row (rows_of (q_approval (av_queries env)))
            (evm_chain_id evm, address_to_hex (evm_address evm))))"

text \<open>The bridges count only when all their rows are readable; the last name given to one wins.\<close>

definition bridge_of_row :: "bridge_contract_row \<Rightarrow> (address_key \<times> string) result" where
  "bridge_of_row r =
     bindE (cr_chain_id r) (\<lambda>chain_id.
     bindE (cr_address r) (\<lambda>address.
     bindE (cr_bridge_name r) (\<lambda>name.
     bindE (parse_hex_bytes 20 (lower address) (replicate 20 0)) (\<lambda>bytes. Inr ((chain_id, bytes), name)))))"

definition known_bridges :: "'w app_env \<Rightarrow> (address_key \<times> string) list" where
  "known_bridges env =
     (case mapE bridge_of_row (rows_of (q_bridge_contracts (av_queries env))) of Inl e \<Rightarrow> [] | Inr bridges \<Rightarrow> bridges)"

definition bridge_row_alerts :: "'w app_env \<Rightarrow> Signal \<Rightarrow> EvmLogEvent \<Rightarrow> Alert list" where
  "bridge_row_alerts env s evm =
     (if bridge_key evm \<notin> fst ` set (known_bridges env) then []
      else map (bridge_alert \<lparr>br_configs_by_key = [], br_bridge_addresses = [], br_bridge_names = rev (known_bridges env)\<rparr> s evm)
        (filter (\<lambda>c. be_value (bc_threshold_be c) < amount_of evm)
          (rows_for parse_bridge_row (rows_of (q_bridge_rules (av_queries env))) (evm_chain_id evm, evm_address evm))))"

text \<open>
  A feed that has rows follows its price: the last one that an update stated and that is
  a non-negative 64-bit number.
\<close>

definition feed_rows :: "'w app_env \<Rightarrow> feed_key \<Rightarrow> OracleRuleConfig list" where
  "feed_rows env = rows_for parse_oracle_row (rows_of (q_oracle (av_queries env)))"

definition stated_price :: "feed_key \<Rightarrow> Signal \<Rightarrow> nat option" where
  "stated_price key s =
     (case sig_payload s of
        P_OracleUpdateEvent u \<Rightarrow>
          if update_key u = key \<and> be_value (or_current_answer u) < 2 ^ 64 then Some (be_value (or_current_answer u)) else None
      | _ \<Rightarrow> None)"

definition last_price :: "'w app_env \<Rightarrow> Signal list \<Rightarrow> feed_key \<Rightarrow> nat option" where
  "last_price env past key =
     (if feed_rows env key = [] then None else fold (\<lambda>s p. case stated_price key s of None \<Rightarrow> p | v \<Rightarrow> v) past None)"

definition oracle_row_alerts :: "'w app_env \<Rightarrow> Signal list \<Rightarrow> Signal \<Rightarrow> OracleUpdateEvent \<Rightarrow> Alert list" where
  "oracle_row_alerts env past s u =
     (case (last_price env past (update_key u), stated_price (update_key u) s) of
        (Some p, Some v) \<Rightarrow>
          if p = 0 then []
          else map (oracle_alert s u (word_of_nat v) (word_of_nat (price_change v p)))
            (filter (\<lambda>c. oc_enabled c \<and>
                (unat (oc_spike_threshold_bps c) + 1) * p \<le> nat \<bar>int v - int p\<bar> * 10000) (feed_rows env (update_key u)))
      | _ \<Rightarrow> [])"

definition row_alerts :: "'w app_env \<Rightarrow> Signal list \<Rightarrow> Signal \<Rightarrow> Alert list" where
  "row_alerts env past s =
     (case sig_payload s of
        P_EvmLogEvent evm \<Rightarrow>
          if unusable_log evm then []
          else if sig_type s = ST_Transfer then transfer_row_alerts env s evm @ bridge_row_alerts env s evm
          else if sig_type s = ST_Approval then approval_row_alerts env s evm
          else []
      | P_GovernanceEvent g \<Rightarrow> governance_row_alerts env s g
      | P_MintBurnEvent e \<Rightarrow> mint_burn_row_alerts env s e
      | P_OracleUpdateEvent u \<Rightarrow> oracle_row_alerts env past s u
      | _ \<Rightarrow> [])"

text \<open>The alerts of a stream of signals.\<close>

primrec stream_alerts :: "'w app_env \<Rightarrow> Signal list \<Rightarrow> Signal list \<Rightarrow> Alert list" where
  "stream_alerts env past [] = []"
| "stream_alerts env past (s # ss) = row_alerts env past s @ stream_alerts env (past @ [s]) ss"

section \<open>What the loaders make of the rows\<close>

lemma large_transfer_loaded:
  "load_large_transfer_configs parse_json query = rows_for (parse_large_transfer_row parse_json) (rows_of query) ()"
proof -
  have "snd (load_rows (load_large_transfer_row parse_json) rows cs) = cs @ rows_for (parse_large_transfer_row parse_json) rows ()"
    for rows cs
  proof (induction rows arbitrary: cs)
    case (Cons r rows)
    then show ?case
      by (auto simp: load_large_transfer_row_def parse_large_transfer_row_def rows_for_Cons bindE_def
          split: sum.splits option.splits)
  qed simp
  from this [of _ "[]"] show ?thesis by (simp add: load_large_transfer_configs_def rows_of_def split: sum.splits)
qed

lemma buckets_loaded: "bucket (load_buckets parse query []) k = rows_for parse (rows_of query) k"
  by (simp add: load_buckets_exact rows_of_def split: sum.splits)

lemma load_bridge_contract_eq:
  "load_bridge_contract r st = bindE (bridge_of_row r) (\<lambda>(key, name).
     Inr (if key \<in> set (fst st) then fst st else fst st @ [key], AList.update key name (snd st)))"
  by (simp add: load_bridge_contract_def bridge_of_row_def bindE_def Let_def split: sum.splits)

lemma load_contracts:
  "case mapE bridge_of_row rows of
     Inl e \<Rightarrow> \<not> fst (load_rows load_bridge_contract rows st)
   | Inr bridges \<Rightarrow> (\<exists>addresses names. load_rows load_bridge_contract rows st = (True, addresses, names) \<and>
       set addresses = set (fst st) \<union> fst ` set bridges \<and> map_of names = map_of (snd st) ++ map_of (rev bridges))"
proof (induction rows arbitrary: st)
  case (Cons r rows)
  show ?case
  proof (cases "bridge_of_row r")
    case (Inl e)
    then show ?thesis by (simp add: load_bridge_contract_eq)
  next
    case (Inr kn)
    obtain key name where kn: "kn = (key, name)" by fastforce
    define st' where "st' = (if key \<in> set (fst st) then fst st else fst st @ [key], AList.update key name (snd st))"
    have step: "load_rows load_bridge_contract (r # rows) st = load_rows load_bridge_contract rows st'"
      by (simp add: load_bridge_contract_eq Inr kn st'_def)
    have st': "set (fst st') = insert key (set (fst st))" "map_of (snd st') = (map_of (snd st))(key \<mapsto> name)"
      by (auto simp: st'_def update_conv')
    show ?thesis
      using Cons.IH [of st'] unfolding step
      by (cases "mapE bridge_of_row rows") (auto simp: Inr kn st' bindE_def)
  qed
qed (auto intro: prod.collapse [symmetric])

lemma bridge_loaded:
  fixes env :: "'w app_env"
  defines "r \<equiv> load_bridge_configs (q_bridge_contracts (av_queries env)) (q_bridge_rules (av_queries env)) empty_bridge"
  shows "(if key \<in> set (br_bridge_addresses r) then bucket (br_configs_by_key r) k else []) =
       (if key \<in> fst ` set (known_bridges env)
        then rows_for parse_bridge_row (rows_of (q_bridge_rules (av_queries env))) k else []) \<and>
     (key \<in> fst ` set (known_bridges env) \<longrightarrow> map_of (br_bridge_names r) = map_of (rev (known_bridges env)))"
proof (cases "q_bridge_contracts (av_queries env)")
  case (Inl e)
  then show ?thesis by (simp add: r_def load_bridge_configs_def empty_bridge_def known_bridges_def rows_of_def)
next
  case (Inr rows)
  obtain finished addresses names where l: "load_rows load_bridge_contract rows ([], []) = (finished, addresses, names)"
    by (metis prod_cases3)
  show ?thesis
  proof (cases "mapE bridge_of_row rows")
    case (Inl e)
    then have "\<not> finished" using load_contracts [of rows "([], [])"] l by simp
    with Inl Inr l show ?thesis
      by (simp add: r_def load_bridge_configs_def empty_bridge_def known_bridges_def rows_of_def)
  next
    case r: (Inr bridges)
    then have "finished" "set addresses = fst ` set bridges" "map_of names = map_of (rev bridges)"
      using load_contracts [of rows "([], [])"] l by simp_all
    with Inr r l show ?thesis
      by (auto simp: r_def load_bridge_configs_def empty_bridge_def known_bridges_def rows_of_def buckets_loaded Let_def)
  qed
qed

section \<open>One signal\<close>

text \<open>Each rule that start-up builds, on a normalized signal of its type.\<close>

lemma transfer_rule_alerts:
  assumes "signal_wf s" and "sig_payload s = P_EvmLogEvent evm"
  shows "large_transfer_evaluate (load_large_transfer_configs (av_parse_json env) (q_large_transfer (av_queries env))) s [] =
     (if unusable_log evm then [] else transfer_row_alerts env s evm)"
proof -
  let ?cs = "load_large_transfer_configs (av_parse_json env) (q_large_transfer (av_queries env))"
  have "wf_evm evm" using assms by (simp add: signal_wf_def)
  moreover have "list_all (\<lambda>c. length (lt_threshold_be c) = 32) ?cs"
    using load_large_transfer_wf by (auto simp: list_all_iff)
  ultimately have "large_transfer_fires evm c \<longleftrightarrow> lt_chain_id c = evm_chain_id evm \<and> lt_token_address c = evm_address evm \<and>
      be_value (lt_threshold_be c) < amount_of evm" if "c \<in> set ?cs" for c
    using that by (auto simp: large_transfer_fires_iff amount_of_def list_all_iff)
  then have "filter (large_transfer_fires evm) ?cs = filter (\<lambda>c. lt_chain_id c = evm_chain_id evm \<and>
      lt_token_address c = evm_address evm \<and> be_value (lt_threshold_be c) < amount_of evm) ?cs"
    by (rule filter_cong [OF refl])
  then show ?thesis
    using assms(2)
    by (simp add: large_transfer.evaluate_eq large_transfer_event_def get_evm_def transfer_row_alerts_def
        large_transfer_loaded)
qed

lemma governance_rule_alerts:
  assumes "signal_wf s" and "sig_payload s = P_GovernanceEvent g"
  shows "governance_evaluate (load_governance_configs (q_governance (av_queries env)) []) s [] = governance_row_alerts env s g"
proof -
  let ?m = "load_governance_configs (q_governance (av_queries env)) []"
  have "gc_action_filter c = None" if "c \<in> set (bucket ?m k)" for c k
    using governance_loader.loaded_ok that unfolding load_governance_configs_def governance_entry_ok_def by blast
  then have "filter (governance_fires g) (bucket ?m k) = filter gc_enabled (bucket ?m k)" for k
    by (intro filter_cong refl) (simp add: governance_fires_def)
  then show ?thesis
    using assms
    by (simp add: governance.evaluate_eq governance_event_def governance_entries_def governance_row_alerts_def signal_wf_def)
       (simp add: load_governance_configs_def buckets_loaded)
qed

lemma mint_burn_rule_alerts:
  assumes "signal_wf s" and "sig_payload s = P_MintBurnEvent e"
  shows "mint_burn_evaluate (load_mint_burn_configs (q_mint_burn (av_queries env)) []) s [] = mint_burn_row_alerts env s e"
proof -
  let ?m = "load_mint_burn_configs (q_mint_burn (av_queries env)) []"
  have "mint_burn_fires e c \<longleftrightarrow> mc_enabled c \<and>
      (case mb_direction e of MB_Unknown \<Rightarrow> False
       | MB_Mint \<Rightarrow> be_value (mc_mint_threshold_be c) \<le> be_value (mb_amount e)
       | MB_Burn \<Rightarrow> be_value (mc_burn_threshold_be c) \<le> be_value (mb_amount e))" if "c \<in> set (bucket ?m k)" for c k
  proof -
    have "mint_burn_entry_ok k c"
      using mint_burn_loader.loaded_ok that unfolding load_mint_burn_configs_def by blast
    then show ?thesis
      using mint_burn_is_alert_iff [of e c] assms
      by (auto simp: mint_burn_fires_def mint_burn_entry_ok_def signal_wf_def split: MintBurnDirection.splits)
  qed
  then show ?thesis
    using assms
    by (simp add: mint_burn.evaluate_eq mint_burn_signal_def mint_burn_entries_def mint_burn_row_alerts_def signal_wf_def
        cong: filter_cong)
       (simp add: load_mint_burn_configs_def buckets_loaded)
qed

lemma approval_rule_alerts:
  assumes "signal_wf s" and "sig_payload s = P_EvmLogEvent evm" and "sig_type s = ST_Approval"
  shows "approval_evaluate (load_approval_configs (q_approval (av_queries env)) []) s [] =
     (if unusable_log evm then [] else approval_row_alerts env s evm)"
proof -
  let ?m = "load_approval_configs (q_approval (av_queries env)) []"
  have wf: "wf_evm evm" using assms by (simp add: signal_wf_def)
  have "length (ac_threshold_be c) = 32" if "c \<in> set (approval_entries ?m evm)" for c
    using approval_loader.loaded_ok that unfolding load_approval_configs_def approval_entries_def approval_entry_ok_def by blast
  then have "list_all (\<lambda>c. length (ac_threshold_be c) = 32) (approval_entries ?m evm)" by (simp add: list_all_iff)
  from approval_evaluate_exact [OF assms(3,2) wf this] show ?thesis
    by (simp add: approval_entries_def approval_row_alerts_def load_approval_configs_def buckets_loaded amount_of_def)
qed

lemma bridge_rule_alerts:
  assumes "signal_wf s" and "sig_payload s = P_EvmLogEvent evm" and "sig_type s = ST_Transfer"
  shows "bridge_evaluate (load_bridge_configs (q_bridge_contracts (av_queries env)) (q_bridge_rules (av_queries env)) empty_bridge) s [] =
     (if unusable_log evm then [] else bridge_row_alerts env s evm)"
proof -
  let ?r = "load_bridge_configs (q_bridge_contracts (av_queries env)) (q_bridge_rules (av_queries env)) empty_bridge"
  let ?rows = "rows_for parse_bridge_row (rows_of (q_bridge_rules (av_queries env))) (evm_chain_id evm, evm_address evm)"
  have wf: "wf_evm evm" using assms by (simp add: signal_wf_def)
  note loaded = bridge_loaded [of "bridge_key evm" env "(evm_chain_id evm, evm_address evm)"]
  have entries: "bridge_entries ?r evm = (if bridge_key evm \<in> fst ` set (known_bridges env) then ?rows else [])"
    using loaded by (simp add: bridge_entries_def)
  have "bridge_fires evm c \<longleftrightarrow> be_value (bc_threshold_be c) < amount_of evm" if "c \<in> set ?rows" for c
    using bridge_loader.rows_for_ok [OF that] bridge_fires_iff [OF wf] by (simp add: bridge_entry_ok_def amount_of_def)
  then have fires: "filter (bridge_fires evm) ?rows = filter (\<lambda>c. be_value (bc_threshold_be c) < amount_of evm) ?rows"
    by (rule filter_cong [OF refl])
  have "bridge_alert ?r s evm c = bridge_alert \<lparr>br_configs_by_key = [], br_bridge_addresses = [],
      br_bridge_names = rev (known_bridges env)\<rparr> s evm c" if "bridge_key evm \<in> fst ` set (known_bridges env)" for c
    using loaded that by (simp add: bridge_alert_def bridge_name_def)
  then show ?thesis
    using assms(2,3) by (simp add: bridge.evaluate_eq bridge_event_def get_evm_def entries fires bridge_row_alerts_def)
qed

lemma loaded_feeds: "map_of (load_buckets parse query []) k \<noteq> None \<longleftrightarrow> rows_for parse (rows_of query) k \<noteq> []"
  unfolding buckets_loaded [symmetric] bucket_def
  by (auto split: option.splits dest!: map_of_SomeD load_buckets_filled)

lemma oracle_rule_alerts:
  assumes "signal_wf s" and "sig_payload s = P_OracleUpdateEvent u" and "oracle_inv ou"
    and "ou_configs_by_feed ou = load_oracle_configs (q_oracle (av_queries env)) []"
    and "oracle_prices ou = last_price env past"
  shows "snd (oracle_evaluate ou s []) = oracle_row_alerts env past s u"
    and "oracle_prices (fst (oracle_evaluate ou s [])) = last_price env (past @ [s])"
proof -
  have u: "sig_type s = ST_OracleUpdate" "length (or_current_answer u) = 32"
    using assms(1,2) by (simp_all add: signal_wf_def)
  have accepts: "oracle_accepts (ou_configs_by_feed ou) k v \<longleftrightarrow> feed_rows env k \<noteq> [] \<and> v < 2 ^ 64" for k v
    unfolding oracle_accepts_def assms(4) load_oracle_configs_def loaded_feeds feed_rows_def ..
  have bucket: "bucket (ou_configs_by_feed ou) k = feed_rows env k" for k
    unfolding assms(4) load_oracle_configs_def buckets_loaded feed_rows_def ..
  show "snd (oracle_evaluate ou s []) = oracle_row_alerts env past s u"
    unfolding oracle_alerts_refine [OF assms(3) u(1) assms(2) u(2)] price_update_alerts_def price_alerts_def accepts bucket
      oracle_row_alerts_def assms(5)
    by (simp add: stated_price_def assms(2) last_price_def split: option.splits)
  show "oracle_prices (fst (oracle_evaluate ou s [])) = last_price env (past @ [s])"
    unfolding oracle_prices_refine [OF u(1) assms(2) u(2)] price_step_def accepts assms(5)
    by (auto simp: fun_eq_iff last_price_def stated_price_def assms(2))
qed

section \<open>A sequence of signals\<close>

text \<open>The five rules without memory, and the sixth, whose memory is the last price of each feed.\<close>

definition memoryless_rules :: "'w app_env \<Rightarrow> rule_store" where
  "memoryless_rules env =
     (let q = av_queries env in
     [R_LargeTransfer (load_large_transfer_configs (av_parse_json env) (q_large_transfer q)),
      R_Governance (load_governance_configs (q_governance q) []), R_MintBurn (load_mint_burn_configs (q_mint_burn q) []),
      R_Approval (load_approval_configs (q_approval q) []),
      R_BridgeTransfer (load_bridge_configs (q_bridge_contracts q) (q_bridge_rules q) empty_bridge)])"

definition knows_prices :: "'w app_env \<Rightarrow> Signal list \<Rightarrow> OracleUpdateRule \<Rightarrow> bool" where
  "knows_prices env past ou \<longleftrightarrow> oracle_inv ou \<and> ou_configs_by_feed ou = load_oracle_configs (q_oracle (av_queries env)) [] \<and>
     oracle_prices ou = last_price env past"

lemma db_rules_split:
  "\<exists>ou. db_rules env = memoryless_rules env @ [R_OracleUpdate ou] \<and> knows_prices env [] ou"
  by (simp add: db_rules_def memoryless_rules_def knows_prices_def Let_def oracle_inv_init oracle_prices_def last_price_def
      fun_eq_iff)

lemma interested_iff:
  "interested (R_LargeTransfer a) s \<longleftrightarrow> sig_type s = ST_Transfer"
  "interested (R_Governance b) s \<longleftrightarrow> sig_type s = ST_Governance"
  "interested (R_MintBurn c) s \<longleftrightarrow> sig_type s = ST_MintBurn"
  "interested (R_Approval d) s \<longleftrightarrow> sig_type s = ST_Approval"
  "interested (R_BridgeTransfer e) s \<longleftrightarrow> sig_type s = ST_Transfer"
  "interested (R_OracleUpdate f) s \<longleftrightarrow> sig_type s = ST_OracleUpdate"
  by (cases "sig_type s"; simp add: interested_def bit_make_mask large_transfer_interests_def governance_interests_def
      mint_burn_interests_def approval_interests_def bridge_interests_def oracle_interests_def)+

lemma store_alerts:
  assumes "signal_wf s" and "knows_prices env past ou"
  shows "signal_alerts (memoryless_rules env @ [R_OracleUpdate ou]) s = row_alerts env past s"
proof (cases "sig_payload s")
  case (P_EvmLogEvent evm)
  then show ?thesis
    using transfer_rule_alerts [OF assms(1) P_EvmLogEvent, of env] approval_rule_alerts [OF assms(1) P_EvmLogEvent, of env]
      bridge_rule_alerts [OF assms(1) P_EvmLogEvent, of env] oracle_evaluate_ignores [of s ou "[]"] assms(1)
    by (auto simp: signal_alerts_def memoryless_rules_def Let_def interested_iff row_alerts_def signal_wf_def)
next
  case (P_GovernanceEvent g)
  then show ?thesis
    using governance_rule_alerts [OF assms(1) P_GovernanceEvent, of env] assms(1)
    by (simp add: signal_alerts_def memoryless_rules_def Let_def interested_iff row_alerts_def signal_wf_def)
next
  case (P_MintBurnEvent e)
  then show ?thesis
    using mint_burn_rule_alerts [OF assms(1) P_MintBurnEvent, of env] assms(1)
    by (simp add: signal_alerts_def memoryless_rules_def Let_def interested_iff row_alerts_def signal_wf_def)
next
  case (P_OracleUpdateEvent u)
  then show ?thesis
    using oracle_rule_alerts(1) [OF assms(1) P_OracleUpdateEvent, of ou env past] assms
    by (simp add: signal_alerts_def memoryless_rules_def Let_def interested_iff row_alerts_def signal_wf_def knows_prices_def
        case_prod_unfold)
qed (use assms in \<open>simp_all add: signal_wf_def\<close>)

lemma knows_prices_step:
  assumes "signal_wf s" and "knows_prices env past ou"
  shows "\<exists>ou'. after_signal (memoryless_rules env @ [R_OracleUpdate ou]) s = memoryless_rules env @ [R_OracleUpdate ou'] \<and>
     knows_prices env (past @ [s]) ou'"
proof (cases "\<exists>u. sig_payload s = P_OracleUpdateEvent u")
  case True
  then obtain u where u: "sig_payload s = P_OracleUpdateEvent u" by blast
  with assms(1) have "sig_type s = ST_OracleUpdate" by (simp add: signal_wf_def)
  then show ?thesis
    using oracle_rule_alerts(2) [OF assms(1) u, of ou env past] assms oracle_inv_step [of ou s "[]"]
      oracle_evaluate_configs [of ou s "[]"]
    by (simp add: after_signal_def memoryless_rules_def Let_def case_prod_unfold interested_iff knows_prices_def)
next
  case False
  then have "fst (oracle_evaluate ou s []) = ou" using oracle_evaluate_ignores [of s ou "[]"] by auto
  moreover have "last_price env (past @ [s]) = last_price env past"
    using False by (auto simp: last_price_def stated_price_def fun_eq_iff split: SignalPayload.splits)
  ultimately show ?thesis
    using assms(2) by (simp add: after_signal_def memoryless_rules_def Let_def case_prod_unfold knows_prices_def)
qed

lemma deliver_rows:
  assumes "list_all signal_wf sigs" and "knows_prices env past ou"
  shows "snd (deliver sigs (memoryless_rules env @ [R_OracleUpdate ou], out)) = out @ stream_alerts env past sigs"
  using assms
proof (induction sigs arbitrary: ou past out)
  case (Cons s sigs)
  obtain ou' where ou': "after_signal (memoryless_rules env @ [R_OracleUpdate ou]) s = memoryless_rules env @ [R_OracleUpdate ou']"
    "knows_prices env (past @ [s]) ou'"
    using knows_prices_step Cons.prems by (metis list.pred_inject(2))
  then show ?case using Cons by (simp add: store_alerts)
qed simp

lemma owed_rows:
  "list_all signal_wf sigs \<Longrightarrow> owed (db_rules env) sigs = stream_alerts env [] sigs"
  using db_rules_split [of env] deliver_rows [of sigs env "[]" _ "[]"] by (auto simp: owed_def)

section \<open>Property\<close>

text \<open>
  C15: from rows to alerts.  After start-up, over any run of the engine on normalized signals, the
  alerts dispatched are exactly those the readable rows of the six tables call for: signal by
  signal, and within a signal in the order of the rules and of the rows.
\<close>

theorem rows_alert_exactly:
  assumes "started env app" and "app_risk_engine app = Some e" and "list_all signal_wf (taken False obs)"
  shows "et_dispatched (engine_run obs (start_engine (app_rules app) e)) = stream_alerts env [] (taken False obs)"
proof -
  have e: "e = register_all (db_rules env) (new_engine True (Some new_heartbeat))"
    using started_rules(2) [OF assms(1)] assms(2) by simp
  show ?thesis
    using owed_rows [OF assms(3), of env] unfolding started_rules(1) [OF assms(1)] e engine_run_start owed_def .
qed

theorem rows_alert_exactly_witness:
  "\<exists>app e. started (sample_app_env [sample_approval_row] :: unit app_env) app \<and> app_risk_engine app = Some e \<and>
     map al_customer_id (et_dispatched (engine_run [sample_obs (Some sample_approval)]
       (start_engine (app_rules app) e))) = [3]"
proof -
  obtain app e where s: "started (sample_app_env [sample_approval_row] :: unit app_env) app" "app_risk_engine app = Some e"
    using sample_started by blast
  have wf: "list_all signal_wf (taken False [sample_obs (Some sample_approval)])"
    by (simp only: sample_taken) (simp add: sample_approval_wf)
  have "rows_for parse_approval_row [sample_approval_row] (1, address_to_hex (replicate 20 1)) =
      [\<lparr>ac_customer_id = 3, ac_chain_id = 1, ac_token_address = replicate 20 1, ac_threshold_be = small_be 5,
        ac_alert_on_infinite = False, ac_enabled = True\<rparr>]"
    by (simp add: rows_for_Cons sample_row_parsed)
  then have "map al_customer_id (stream_alerts (sample_app_env [sample_approval_row] :: unit app_env) [] [sample_approval]) = [3]"
    by (simp add: row_alerts_def approval_row_alerts_def unusable_log_def sample_app_env_def sample_queries_def rows_of_def
        amount_of_def approval_alert_def)
  then have "map al_customer_id (et_dispatched (engine_run [sample_obs (Some sample_approval)]
      (start_engine (app_rules app) e))) = [3]"
    unfolding rows_alert_exactly [OF s wf] sample_taken .
  with s show ?thesis by (intro exI [of _ app] exI [of _ e] conjI)
qed

end
