(* ===== verification/Shutdown.thy ===== *)
theory Shutdown
  imports Backtest_App Observability Row_Alerts
begin

text \<open>
  The main thread and the pipeline together.  \<open>App::run\<close> and \<open>BacktestApp::run\<close> are functions over a
  world in which the other threads go on between any two of their actions (\<open>App_Lifecycle\<close>,
  \<open>Backtest_App\<close>); here that world contains a pipeline, and \<open>hosts\<close> says what the other threads may do
  to it meanwhile.  The lemmas turn a call of the main thread into a run of the pipeline, from which
  follow what a daemon that was stopped in order has delivered, and what a backtest has reported.
\<close>

section \<open>What the other threads do meanwhile\<close>

text \<open>
  The event source pushes normalized signals, the main thread the pill; engine and dispatcher take
  their turns, no stop token being set while the thread objects live.
\<close>

primrec quiet :: "pipeline_event \<Rightarrow> bool" where
  "quiet (PE_push s) = (signal_wf s \<or> is_poison_pill s)"
| "quiet (PE_engine stop_requested now_ms) = (\<not> stop_requested)"
| "quiet PE_emit = True"
| "quiet (PE_turn tk) = (\<not> tk_stop_requested tk)"
| "quiet PE_start_dispatcher = True"
| "quiet PE_stop_engine = False"
| "quiet PE_stop_dispatcher = False"

abbreviation meanwhile :: "'q spsc_queue \<Rightarrow> channel_env \<Rightarrow> 'q pipeline \<Rightarrow> 'q pipeline \<Rightarrow> bool" where
  "meanwhile sq tr \<equiv> reaches sq tr quiet"

definition stop_event :: "pipeline_thread \<Rightarrow> pipeline_event option" where
  "stop_event t = (case t of T_dispatcher \<Rightarrow> Some PE_stop_dispatcher | T_risk_engine \<Rightarrow> Some PE_stop_engine
     | T_event_source \<Rightarrow> None)"

definition hosts :: "'w life_env \<Rightarrow> 'q spsc_queue \<Rightarrow> channel_env \<Rightarrow> ('w \<Rightarrow> 'q pipeline) \<Rightarrow> bool" where
  "hosts env sq tr look \<longleftrightarrow>
     (\<forall>t w. meanwhile sq tr (look w) (look (snd (le_spawn env t w)))) \<and>
     (\<forall>w w'. le_wait_stop env w = Some w' \<longrightarrow> meanwhile sq tr (look w) (look w')) \<and>
     (\<forall>w. meanwhile sq tr (look w) (look (snd (le_steady_ns env w)))) \<and>
     (\<forall>ms w. meanwhile sq tr (look w) (look (le_sleep_ms env ms w))) \<and>
     (\<forall>w. meanwhile sq tr (look w) (look (snd (le_try_push env poison_pill w)))) \<and>
     (\<forall>w. meanwhile sq tr (look w) (look (snd (le_is_finished env w))) \<and>
        (fst (le_is_finished env w) \<longrightarrow> engine_finished (look (snd (le_is_finished env w))))) \<and>
     (\<forall>t w. \<exists>p p'. meanwhile sq tr (look w) p \<and>
        (case stop_event t of None \<Rightarrow> p' = p | Some e \<Rightarrow> pipeline_step sq tr e p p') \<and>
        meanwhile sq tr p' (look (le_stop env t w))) \<and>
     (\<forall>t w w'. le_join env t w = Some w' \<longrightarrow> meanwhile sq tr (look w) (look w') \<and>
        (t = T_risk_engine \<longrightarrow> engine_finished (look w')) \<and>
        (t = T_dispatcher \<longrightarrow> ad_exited (pl_dispatcher (look w'))))"

lemma quiet_calm: "quiet e \<Longrightarrow> calm e" and quiet_no_stop: "quiet e \<Longrightarrow> no_stop_call e"
  by (cases e; simp)+

text \<open>The calls of the main thread, as steps of the pipeline.\<close>

lemma hosts_calls:
  assumes "hosts env sq tr look"
  shows "meanwhile sq tr (look w) (look (snd (le_spawn env t w)))"
    and "le_wait_stop env w = Some w' \<Longrightarrow> meanwhile sq tr (look w) (look w')"
    and "meanwhile sq tr (look w) (look (snd (le_steady_ns env w)))"
    and "meanwhile sq tr (look w) (look (le_sleep_ms env ms w))"
    and "meanwhile sq tr (look w) (look (snd (le_try_push env poison_pill w)))"
    and "meanwhile sq tr (look w) (look (snd (le_is_finished env w)))"
    and "fst (le_is_finished env w) \<Longrightarrow> engine_finished (look (snd (le_is_finished env w)))"
    and "le_join env t w = Some w' \<Longrightarrow> meanwhile sq tr (look w) (look w')"
    and "le_join env T_risk_engine w = Some w' \<Longrightarrow> engine_finished (look w')"
    and "le_join env T_dispatcher w = Some w' \<Longrightarrow> ad_exited (pl_dispatcher (look w'))"
  using assms unfolding hosts_def by simp_all

abbreviation anything :: "'q spsc_queue \<Rightarrow> channel_env \<Rightarrow> 'q pipeline \<Rightarrow> 'q pipeline \<Rightarrow> bool" where
  "anything sq tr \<equiv> reaches sq tr (\<lambda>_. True)"

lemma hosts_stop:
  assumes "hosts env sq tr look" and "\<And>e. quiet e \<Longrightarrow> allowed e" and "\<And>e. stop_event t = Some e \<Longrightarrow> allowed e"
  shows "reaches sq tr allowed (look w) (look (le_stop env t w))"
proof -
  obtain p p' where p: "meanwhile sq tr (look w) p" "meanwhile sq tr p' (look (le_stop env t w))"
    "case stop_event t of None \<Rightarrow> p' = p | Some e \<Rightarrow> pipeline_step sq tr e p p'"
    using assms(1) unfolding hosts_def by blast
  have "reaches sq tr allowed p p'"
    using p(3) assms(3) by (cases "stop_event t") (auto intro: reaches_step)
  moreover have "reaches sq tr allowed (look w) p" "reaches sq tr allowed p' (look (le_stop env t w))"
    using p(1,2) assms(2) by (auto intro: reaches_mono)
  ultimately show ?thesis using reaches_trans by metis
qed

lemma stop_source_meanwhile: "hosts env sq tr look \<Longrightarrow> meanwhile sq tr (look w) (look (le_stop env T_event_source w))"
  by (rule hosts_stop) (simp_all add: stop_event_def)

lemma stop_engine_no_call: "hosts env sq tr look \<Longrightarrow> reaches sq tr no_stop_call (look w) (look (le_stop env T_risk_engine w))"
  by (rule hosts_stop) (auto simp: stop_event_def quiet_no_stop)

lemma stop_anything: "hosts env sq tr look \<Longrightarrow> anything sq tr (look w) (look (le_stop env t w))"
  by (rule hosts_stop) simp_all

lemma meanwhile_no_call: "meanwhile sq tr p p' \<Longrightarrow> reaches sq tr no_stop_call p p'"
  using quiet_no_stop by (auto intro: reaches_mono)

lemma reaches_anything: "reaches sq tr allowed p p' \<Longrightarrow> anything sq tr p p'"
  by (auto intro: reaches_mono)

text \<open>The waiting loops.\<close>

lemma poll_until_meanwhile:
  assumes hosts: "hosts env sq tr look" and attempt: "\<And>w. meanwhile sq tr (look w) (look (snd (attempt w)))"
    and good: "\<And>w. fst (attempt w) \<Longrightarrow> good (look (snd (attempt w)))"
    and returns: "poll_until env attempt ms start timeout w = Some r"
  shows "meanwhile sq tr (look w) (look (snd r)) \<and> (fst r \<longrightarrow> good (look (snd r)))"
proof -
  let ?P = "\<lambda>env' attempt' w r. env' = env \<longrightarrow> attempt' = attempt \<longrightarrow>
     meanwhile sq tr (look w) (look (snd r)) \<and> (fst r \<longrightarrow> good (look (snd r)))"
  have "?P env attempt w r"
  proof (rule poll_until.raw_induct [where P = "\<lambda>env' attempt' _ _ _. ?P env' attempt'", OF _ returns])
    fix poll env' attempt' ms start timeout w r
    assume IH: "\<And>env attempt ms start timeout w r. poll env attempt ms start timeout w = Some r \<Longrightarrow> ?P env attempt w r"
      and step: "(case le_steady_ns env' w of (now, w1) \<Rightarrow>
        if now - start < timeout then
          (case attempt' w1 of (ok, w2) \<Rightarrow> if ok then Some (True, w2) else poll env' attempt' ms start timeout (le_sleep_ms env' ms w2))
        else Some (False, w1)) = Some r"
    show "?P env' attempt' w r"
    proof (intro impI)
      assume same: "env' = env" "attempt' = attempt"
      let ?w1 = "snd (le_steady_ns env w)"
      let ?w2 = "snd (attempt ?w1)"
      let ?w3 = "le_sleep_ms env ms ?w2"
      note calls = hosts_calls(3) [OF hosts, of w] attempt [of ?w1] hosts_calls(4) [OF hosts, of ?w2 ms]
      consider "r = (False, ?w1)" | "fst (attempt ?w1)" "r = (True, ?w2)" | "poll env attempt ms start timeout ?w3 = Some r"
        using step unfolding same case_prod_beta by (metis option.inject)
      then show "meanwhile sq tr (look w) (look (snd r)) \<and> (fst r \<longrightarrow> good (look (snd r)))"
      proof cases
        case 1
        then show ?thesis using calls(1) by simp
      next
        case 2
        then show ?thesis using reaches_trans [OF calls(1,2)] good [of ?w1] by simp
      next
        case 3
        then show ?thesis using IH [OF 3] reaches_trans [OF reaches_trans [OF calls(1,2)] reaches_trans [OF calls(3)]] by simp
      qed
    qed
  qed
  then show ?thesis by simp
qed

lemma push_pill_meanwhile:
  assumes "hosts env sq tr look" and "push_pill env timeout w = Some (pushed, w')"
  shows "meanwhile sq tr (look w) (look w')"
proof -
  have "poll_until env (le_try_push env poison_pill) 1 (fst (le_steady_ns env w)) timeout (snd (le_steady_ns env w)) = Some (pushed, w')"
    using assms(2) by (simp add: push_pill_def case_prod_beta)
  from poll_until_meanwhile [where good = "\<lambda>_. True", OF assms(1) hosts_calls(5) [OF assms(1)] _ this]
  show ?thesis using reaches_trans [OF hosts_calls(3) [OF assms(1), of w]] by simp
qed

lemma await_drain_meanwhile:
  assumes "hosts env sq tr look" and "await_drain env timeout w = Some (drained, w')"
  shows "meanwhile sq tr (look w) (look w')" and "drained \<Longrightarrow> engine_finished (look w')"
proof -
  have "poll_until env (le_is_finished env) 50 (fst (le_steady_ns env w)) timeout (snd (le_steady_ns env w)) = Some (drained, w')"
    using assms(2) by (simp add: await_drain_def case_prod_beta)
  from poll_until_meanwhile [where good = engine_finished, OF assms(1) hosts_calls(6) [OF assms(1)] hosts_calls(7) [OF assms(1)] this]
  show "meanwhile sq tr (look w) (look w')" "drained \<Longrightarrow> engine_finished (look w')"
    using reaches_trans [OF hosts_calls(3) [OF assms(1), of w]] by simp_all
qed

section \<open>What was delivered\<close>

definition pushed_ok :: "'q pipeline \<Rightarrow> bool" where
  "pushed_ok p \<longleftrightarrow> list_all (\<lambda>s. signal_wf s \<or> is_poison_pill s) (pl_pushed p)"

lemma pushed_ok_step: "pipeline_step sq tr e p p' \<Longrightarrow> quiet e \<Longrightarrow> pushed_ok p \<Longrightarrow> pushed_ok p'"
  by (induction rule: pipeline_step.induct) (auto simp: pushed_ok_def)

lemma pushed_ok_run: "pipeline_run sq tr p es p' \<Longrightarrow> list_all quiet es \<Longrightarrow> pushed_ok p \<Longrightarrow> pushed_ok p'"
  by (induction rule: pipeline_run.induct) (auto intro: pushed_ok_step)

lemma run_of_reaches:
  assumes "reaches sq tr allowed p p'"
  obtains es where "pipeline_run sq tr p es p'" "list_all allowed es"
  using assms unfolding reaches_def by blast

text \<open>From the state in which the engine had finished to the state in which the dispatcher had.\<close>

lemma alerts_delivered:
  assumes laws: "spsc_laws sq contents capacity" and q: "contents q = []" and d: "ad_queue d = []" "\<not> ad_exited d"
    and run: "reaches sq tr no_stop_call (start_pipeline q store m h d out) p"
    and "engine_finished p" and "anything sq tr p p'" and "ad_exited (pl_dispatcher p')"
  shows "map fst (pl_handled p') = owed store (evaluated p')" and "pl_popped p' = pl_popped p"
proof -
  from run obtain es where es: "pipeline_run sq tr (start_pipeline q store m h d out) es p" "list_all no_stop_call es"
    by (rule run_of_reaches)
  have "awake (start_pipeline q store m h d out)" using d(2) by (simp add: awake_def new_pipeline_def)
  then have "\<not> ad_exited (pl_dispatcher p)" using awake_run [OF es] by (simp add: awake_def)
  moreover obtain es' where "pipeline_run sq tr p es' p'" using assms(7) by (rule run_of_reaches)
  ultimately show "map fst (pl_handled p') = owed store (evaluated p')" "pl_popped p' = pl_popped p"
    using engine_first_end [OF laws q d(1) es(1) assms(6)] assms(8) by blast+
qed

lemma signals_delivered:
  assumes laws: "spsc_laws sq contents capacity" and q: "contents q = []"
    and run: "meanwhile sq tr (start_pipeline q store m h d out) p"
    and "engine_finished p" and "anything sq tr p p'" and "pl_popped p' = pl_popped p"
  shows "prefix (takeWhile (\<lambda>s. \<not> is_poison_pill s) (pl_pushed p')) (evaluated p')" and "list_all signal_wf (evaluated p')"
proof -
  from run obtain es where es: "pipeline_run sq tr (start_pipeline q store m h d out) es p" "list_all quiet es"
    by (rule run_of_reaches)
  then have calm: "list_all calm es" using quiet_calm by (auto simp: list_all_iff)
  note drained = drained_evaluates [OF laws q es(1) calm assms(4)]
  from assms(5) obtain es' where es': "pipeline_run sq tr p es' p'" by (rule run_of_reaches)
  have "ring_inv contents capacity p'"
    using started_inv [OF laws q run_append [OF es' es(1)]] by (simp add: pipeline_inv_def)
  then show "prefix (takeWhile (\<lambda>s. \<not> is_poison_pill s) (pl_pushed p')) (evaluated p')"
    using drained(3) before_pill [of is_poison_pill "pl_popped p'"] assms(6) by (simp add: ring_inv_def evaluated_def)
  have "pushed_ok p" using pushed_ok_run [OF es] by (simp add: pushed_ok_def new_pipeline_def)
  then show "list_all signal_wf (evaluated p')"
    using set_mono_prefix [OF drained(2)] assms(6) by (auto simp: pushed_ok_def evaluated_def list_all_iff)
qed

section \<open>The daemon\<close>

lemma spawn_world: "snd (snd (spawn env t (p, w))) = snd (le_spawn env t w)"
  by (simp add: spawn_def split: prod.splits option.splits)

lemma start_threads_meanwhile:
  assumes "hosts env sq tr look" and "start_threads env (p, w) = (r, p', w')"
  shows "meanwhile sq tr (look w) (look w')"
proof -
  obtain r1 p1 w1 where 1: "spawn env T_dispatcher (p, w) = (r1, p1, w1)" by (metis prod_cases3)
  obtain r2 p2 w2 where 2: "spawn env T_risk_engine (p1, w1) = (r2, p2, w2)" by (metis prod_cases3)
  obtain r3 p3 w3 where 3: "spawn env T_event_source (p2, w2) = (r3, p3, w3)" by (metis prod_cases3)
  have one: "meanwhile sq tr (look w) (look w1)" and two: "meanwhile sq tr (look w1) (look w2)"
    and three: "meanwhile sq tr (look w2) (look w3)"
    using hosts_calls(1) [OF assms(1)] spawn_world 1 2 3 by (metis snd_conv)+
  note two = reaches_trans [OF one two] note three = reaches_trans [OF two three]
  have "w' \<in> {w1, w2, w3}" using assms(2) 1 2 3 by (auto simp: start_threads_def split: option.splits)
  with one two three show ?thesis by blast
qed

lemma stop_orderly_drained:
  assumes hosts: "hosts env sq tr look" and stop: "stop_orderly env (p, w) = Some (p', w')"
    and "A_drained True \<in> set (pr_trace p')" and "A_drained True \<notin> set (pr_trace p)"
  shows "\<exists>v. meanwhile sq tr (look w) (look v) \<and> engine_finished (look v) \<and> anything sq tr (look v) (look w')"
proof -
  let ?pw = "stop_source_phase env (stop_health_phase (p\<lparr>pr_app := (pr_app p)\<lparr>app_stopped := True\<rparr>\<rparr>), w)"
  have "\<not> app_stopped (pr_app p)" using stop assms(3,4) by (auto simp: stop_orderly_def)
  with stop obtain p2 w2 where pw2: "stop_engine_phase env ?pw = Some (p2, w2)"
    "(p', w') = stop_dispatcher_phase env (p2, w2)"
    by (auto simp: stop_orderly_def split: bind_splits)
  have w1: "meanwhile sq tr (look w) (look (snd ?pw))"
    using stop_source_meanwhile [OF hosts, of w] by (simp add: stop_source_phase_def split: option.splits)
  have w': "anything sq tr (look w2) (look w')"
    using pw2(2) stop_anything [OF hosts, of w2 T_dispatcher] by (auto simp: stop_dispatcher_phase_def split: option.splits)
  have trace: "pr_trace p' = pr_trace p2 @ (if app_dispatcher (pr_app p2) \<noteq> None then [A_stop_dispatcher] else [])"
    using pw2(2) stop_phases(16) [of env "(p2, w2)"] by (metis fst_conv)
  let ?timeout = "int (unat (cfg_shutdown_drain_timeout (app_cfg (pr_app (fst ?pw))))) * 1000000"
  have "A_drained True \<in> set (pr_trace p2)" "A_drained True \<notin> set (pr_trace (fst ?pw))"
    using assms(3,4) trace by (auto split: if_splits)
  then obtain pushed v1 v where v1: "push_pill env ?timeout (snd ?pw) = Some (pushed, v1)"
    "await_drain env ?timeout v1 = Some (True, v)" "w2 = le_stop env T_risk_engine v"
    using pw2(1) by (cases ?pw) (auto simp: stop_engine_phase_def Let_def split: option.splits if_splits bind_splits)
  have "meanwhile sq tr (look w) (look v)"
    using reaches_trans [OF w1] reaches_trans [OF push_pill_meanwhile [OF hosts v1(1)] await_drain_meanwhile(1) [OF hosts v1(2)]]
    by blast
  moreover have "anything sq tr (look v) (look w')"
    using reaches_trans [OF stop_anything [OF hosts, of v T_risk_engine]] w' v1(3) by blast
  ultimately show ?thesis using await_drain_meanwhile(2) [OF hosts v1(2)] by blast
qed

lemma join_thread_hosted:
  assumes "hosts env sq tr look" and "join_thread env t (p, w) = Some (p', w')"
  shows "meanwhile sq tr (look w) (look w')" and "t \<in> set (pr_joinable p) \<Longrightarrow> le_join env t w = Some w'"
  using assms(2) hosts_calls(8) [OF assms(1)] by (auto simp: join_thread_def split: if_splits bind_splits)

lemma join_threads_hosted:
  assumes hosts: "hosts env sq tr look" and "join_threads env (p, w) = Some (p', w')" and "T_dispatcher \<in> set (pr_joinable p)"
  shows "meanwhile sq tr (look w) (look w')" and "ad_exited (pl_dispatcher (look w'))"
proof -
  from assms(2) obtain p1 w1 p2 w2 where *: "join_thread env T_event_source (p, w) = Some (p1, w1)"
    "join_thread env T_risk_engine (p1, w1) = Some (p2, w2)" "join_thread env T_dispatcher (p2, w2) = Some (p', w')"
    by (auto simp: join_threads_def split: bind_splits)
  note steps = join_thread_hosted(1) [OF hosts *(1)] join_thread_hosted(1) [OF hosts *(2)] join_thread_hosted(1) [OF hosts *(3)]
  show "meanwhile sq tr (look w) (look w')" using reaches_trans [OF reaches_trans [OF steps(1,2)] steps(3)] .
  have "T_dispatcher \<in> set (pr_joinable p2)"
    using assms(3) join_thread_trace(1) [OF *(1)] join_thread_trace(1) [OF *(2)] by simp
  from hosts_calls(10) [OF hosts join_thread_hosted(2) [OF hosts *(3) this]] show "ad_exited (pl_dispatcher (look w'))" .
qed

lemma run_body_meanwhile:
  assumes hosts: "hosts env sq tr look" and "init_modules aenv (pr_app p) w = Some (None, app, w1)"
    and "run_body aenv env (p, w) = Some (None, p', w')"
  shows "meanwhile sq tr (look w1) (look w')"
proof -
  obtain r p2 w2 where start: "start_threads env (p\<lparr>pr_app := register_rules aenv app\<rparr>, w1) = (r, p2, w2)"
    by (metis prod_cases3)
  then have "le_wait_stop env w2 = Some w'"
    using assms(2,3) by (auto simp: run_body_def split: option.splits bind_splits)
  from reaches_trans [OF start_threads_meanwhile [OF hosts start] hosts_calls(2) [OF hosts this]] show ?thesis .
qed

section \<open>The backtest\<close>

lemma spawn_all_meanwhile:
  assumes "hosts env sq tr look"
  shows "spawn_all env ts running w = Some (None, w') \<Longrightarrow> meanwhile sq tr (look w) (look w')"
proof (induction ts arbitrary: running w)
  case (Cons t ts)
  obtain r w1 where w1: "le_spawn env t w = (r, w1)" by fastforce
  with Cons.prems have "spawn_all env ts (t # running) w1 = Some (None, w')"
    by (cases r) (auto split: bind_splits)
  from reaches_trans [OF _ Cons.IH [OF this]] hosts_calls(1) [OF assms, of w t] w1 show ?case by simp
qed simp

lemma backtest_drain_hosted:
  assumes hosts: "hosts env sq tr look" and "backtest_drain env w = Some (trace, w')"
  shows "\<exists>v. reaches sq tr no_stop_call (look w) (look v) \<and> engine_finished (look v) \<and> anything sq tr (look v) (look w') \<and>
     ad_exited (pl_dispatcher (look w'))" (is ?stopped)
    and "A_drained True \<in> set trace \<Longrightarrow>
     \<exists>v. meanwhile sq tr (look w) (look v) \<and> engine_finished (look v) \<and> anything sq tr (look v) (look w')"
proof -
  from assms(2) obtain w1 pushed w2 drained w3 w5 where
    1: "le_join env T_event_source w = Some w1" and
    2: "poll_until env (le_try_push env poison_pill) 1 (fst (le_steady_ns env w1)) kDrainTimeout (snd (le_steady_ns env w1)) = Some (pushed, w2)" and
    3: "poll_until env (le_is_finished env) 20 (fst (le_steady_ns env w2)) kDrainTimeout (snd (le_steady_ns env w2)) = Some (drained, w3)" and
    5: "le_join env T_risk_engine (le_stop env T_risk_engine (snd (le_is_finished env w3))) = Some w5" and
    6: "le_join env T_dispatcher (le_stop env T_dispatcher w5) = Some w'" and
    trace: "trace = [A_join T_event_source, A_push_pill pushed, A_drained drained, A_stop_engine, A_join T_risk_engine,
       A_stop_dispatcher, A_join T_dispatcher]"
    by (auto simp: backtest_drain_def case_prod_beta split: bind_splits)
  have "meanwhile sq tr (look w1) (look w2)"
    using reaches_trans [OF hosts_calls(3) [OF hosts, of w1]]
      poll_until_meanwhile [where good = "\<lambda>_. True", OF hosts hosts_calls(5) [OF hosts] _ 2] by simp
  moreover have "meanwhile sq tr (look w2) (look w3)" and fin: "drained \<longrightarrow> engine_finished (look w3)"
    using reaches_trans [OF hosts_calls(3) [OF hosts, of w2]]
      poll_until_meanwhile [where good = engine_finished, OF hosts hosts_calls(6) [OF hosts] hosts_calls(7) [OF hosts] 3] by simp_all
  ultimately have w3: "meanwhile sq tr (look w) (look w3)"
    using reaches_trans [OF hosts_calls(8) [OF hosts 1]] reaches_trans by metis
  let ?w4 = "snd (le_is_finished env w3)"
  have "reaches sq tr no_stop_call (look w3) (look w5)"
    using reaches_trans [OF meanwhile_no_call [OF hosts_calls(6) [OF hosts, of w3]] reaches_trans
      [OF stop_engine_no_call [OF hosts, of ?w4] meanwhile_no_call [OF hosts_calls(8) [OF hosts 5]]]] .
  moreover have rest: "anything sq tr (look w5) (look w')"
    using reaches_trans [OF stop_anything [OF hosts, of w5 T_dispatcher] reaches_anything [OF hosts_calls(8) [OF hosts 6]]] .
  ultimately show ?stopped
    using reaches_trans [OF meanwhile_no_call [OF w3]] hosts_calls(9) [OF hosts 5] hosts_calls(10) [OF hosts 6] by blast
  show "\<exists>v. meanwhile sq tr (look w) (look v) \<and> engine_finished (look v) \<and> anything sq tr (look v) (look w')"
    if "A_drained True \<in> set trace"
  proof -
    have "engine_finished (look w3)" using that fin by (auto simp: trace)
    moreover have "anything sq tr (look w3) (look w')"
      using reaches_trans [OF reaches_anything [OF \<open>reaches sq tr no_stop_call (look w3) (look w5)\<close>] rest] .
    ultimately show ?thesis using w3 by blast
  qed
qed

section \<open>The report\<close>

text \<open>A dispatcher whose only channel is a file writes there what the deduplicator lets through.\<close>

definition written :: "channel_env \<Rightarrow> Alert list \<Rightarrow> FileAlertChannel \<Rightarrow> FileAlertChannel" where
  "written tr alerts f = fold (\<lambda>a f. file_send tr f a) alerts f"

lemma step_writes:
  assumes "ad_channels d = [C_File f]"
  shows "ad_channels (fst (dispatcher_step tr e (d, w))) = [C_File (written tr (let_through (handled e d) (decision e d)) f)]"
proof (cases e)
  case (E_turn tk)
  show ?thesis
  proof (cases "ad_exited d \<or> ad_queue d = []")
    case True
    with assms show ?thesis by (auto simp: E_turn dispatcher_turn_def Let_def written_def let_through_def split: list.splits)
  next
    case False
    then obtain a rest where q: "ad_queue d = a # rest" by (cases "ad_queue d") auto
    with False assms show ?thesis
      by (simp add: E_turn dispatcher_turn_def Let_def written_def let_through_def handle_alert_def send_all_def
          channel_send_def record_metrics_def case_prod_unfold)
  qed
qed (use assms in \<open>simp_all add: written_def let_through_def dispatch_def dispatcher_start_def dispatcher_stop_def Let_def\<close>)

lemma run_writes:
  "ad_channels (fst dw) = [C_File f] \<Longrightarrow> ad_channels (fst (dispatcher_run tr es dw)) =
     [C_File (written tr (let_through (handled_run tr es dw) (decision_run tr es dw)) f)]"
proof (induction es arbitrary: dw f)
  case (Cons e es)
  obtain d w where dw: "dw = (d, w)" by fastforce
  note step = step_writes [of d f tr e w]
  show ?case
    using Cons.IH [OF step] Cons.prems
    by (simp add: dw dispatcher_run_def withheld_append(2) [OF decision_length] written_def)
qed (simp add: dispatcher_run_def written_def let_through_def)

lemma pipeline_writes:
  assumes "spsc_laws sq contents capacity" and "contents q = []"
    and "pipeline_run sq tr (start_pipeline q store m h d out) es p" and "ad_channels d = [C_File f]"
  shows "ad_channels (pl_dispatcher p) = [C_File (written tr
     (let_through (pl_handled p) (filter_run should_suppress (ad_deduplicator d) (pl_handled p))) f)]"
proof -
  from started_inv [OF assms(1-3)] obtain des where
    des: "dispatcher_run tr des (d, out) = (pl_dispatcher p, pl_outbox p)" "handled_run tr des (d, out) = pl_handled p"
    by (auto simp: pipeline_inv_def dispatcher_inv_def)
  with run_writes [of "(d, out)" f tr des] decision_run_eq [of tr des "(d, out)"] assms(4) show ?thesis by simp
qed

text \<open>On a disk that takes everything, the file is the numbered alerts, a line each.\<close>

primrec report_text :: "(json_object \<Rightarrow> string) \<Rightarrow> nat \<Rightarrow> Alert list \<Rightarrow> string" where
  "report_text dump n [] = []"
| "report_text dump n (a # as) =
     dump ((''alert_index'', J_uint (word_of_nat (n + 1))) # alert_payload a) @ nl @ report_text dump (n + 1) as"

lemma written_text:
  assumes "\<forall>content line. ce_write tr content line = (content @ line, True)" and "\<forall>j. ce_dump_ordered tr j = Inr (dump j)"
    and "fa_alert_count f = word_of_nat n"
  shows "fa_content (written tr as f) = fa_content f @ report_text dump n as \<and>
     fa_alert_count (written tr as f) = word_of_nat (n + length as)"
  using assms(3)
proof (induction as arbitrary: f n)
  case (Cons a as)
  have "fa_alert_count (file_send tr f a) = word_of_nat (n + 1)"
    "fa_content (file_send tr f a) = fa_content f @ dump ((''alert_index'', J_uint (word_of_nat (n + 1))) # alert_payload a) @ nl"
    using Cons.prems assms(1,2) by (simp_all add: file_send_def Let_def add.commute)
  with Cons.IH [of "file_send tr f a" "n + 1"] show ?case by (simp add: written_def add.assoc)
qed (simp add: written_def)

lemma backtest_init_dispatcher:
  assumes "backtest_init rpc fs cfg url w = (Some (Inr app), w')"
  shows "ad_queue (ba_dispatcher app) = []" and "\<not> ad_exited (ba_dispatcher app)"
    and "ad_deduplicator (ba_dispatcher app) = new_deduplicator backtest_dedup_cfg"
    and "ad_channels (ba_dispatcher app) =
       [C_File \<lparr>fa_output_path = bt_output_path cfg, fa_content = [], fa_alert_count = 0\<rparr>]"
  using assms
  by (auto simp: backtest_init_def new_event_source_def add_channel_def new_dispatcher_def new_file_channel_def
      split: sum.splits option.splits prod.splits if_splits)

section \<open>A concrete world\<close>

text \<open>
  A world with a clock and the pipeline once it has changed: the dispatcher enters \<open>run\<close> when its
  thread is created, the engine takes a turn after a push and when it is asked whether it has finished,
  the dispatcher when it is joined.
\<close>

type_synonym sample_world = "int \<times> Signal list pipeline option"

definition pipe :: "Signal list pipeline \<Rightarrow> sample_world \<Rightarrow> Signal list pipeline" where
  "pipe start w = (case snd w of None \<Rightarrow> start | Some p \<Rightarrow> p)"

definition act :: "channel_env \<Rightarrow> Signal list pipeline \<Rightarrow> pipeline_event \<Rightarrow> sample_world \<Rightarrow> sample_world" where
  "act tr start e w = (case pipeline_act (list_queue 1) tr e (pipe start w) of None \<Rightarrow> w | Some p \<Rightarrow> (fst w, Some p))"

definition sample_host :: "channel_env \<Rightarrow> Signal list pipeline \<Rightarrow> sample_world life_env" where
  "sample_host tr start =
     \<lparr>le_spawn = (\<lambda>t w. (None, if t = T_dispatcher then act tr start PE_start_dispatcher w else w)), le_wait_stop = Some,
      le_steady_ns = (\<lambda>w. (fst w, w)),
      le_try_push = (\<lambda>s w. let w1 = act tr start (PE_push s) w in
        (pl_pushed (pipe start w1) \<noteq> pl_pushed (pipe start w), act tr start (PE_engine False 0) w1)),
      le_is_finished = (\<lambda>w. let w1 = act tr start (PE_engine False 0) w in (engine_finished (pipe start w1), w1)),
      le_sleep_ms = (\<lambda>ms w. (fst w + ms * 1000000, snd w)),
      le_stop = (\<lambda>t w. case stop_event t of None \<Rightarrow> w | Some e \<Rightarrow> act tr start e w),
      le_join = (\<lambda>t w. let w1 = (if t = T_dispatcher then act tr start (PE_turn idle_tick) w else w) in
        if t = T_risk_engine \<and> \<not> engine_finished (pipe start w1) \<or>
           t = T_dispatcher \<and> \<not> ad_exited (pl_dispatcher (pipe start w1)) then None else Some w1)\<rparr>"

lemma pipe_clock: "pipe start (c, snd w) = pipe start w"
  by (simp add: pipe_def)

lemma pipe_start: "pipe start (c, None) = start"
  by (simp add: pipe_def)

lemma pipe_act: "pipe start (act tr start e w) =
   (case pipeline_act (list_queue 1) tr e (pipe start w) of None \<Rightarrow> pipe start w | Some p \<Rightarrow> p)"
  by (simp add: act_def pipe_def split: option.splits)

lemma fst_act: "fst (act tr start e w) = fst w"
  by (simp add: act_def split: option.splits)

lemma act_meanwhile: "quiet e \<Longrightarrow> meanwhile (list_queue 1) tr (pipe start w) (pipe start (act tr start e w))"
  by (auto simp: pipe_act step_iff_act intro: reaches_step split: option.splits)

lemma pill: "is_poison_pill poison_pill"
  by (simp add: is_poison_pill_def poison_pill_def)

lemma sample_host_hosts: "hosts (sample_host tr start) (list_queue 1) tr (pipe start)"
proof -
  note spent = act_meanwhile [of PE_start_dispatcher tr start] act_meanwhile [of "PE_engine False 0" tr start]
    act_meanwhile [of "PE_turn idle_tick" tr start]
  have push: "meanwhile (list_queue 1) tr (pipe start w) (pipe start (act tr start (PE_engine False 0) (act tr start (PE_push poison_pill) w)))"
    for w
    by (rule reaches_trans [OF act_meanwhile act_meanwhile]) (simp_all add: pill)
  have stop: "\<exists>p p'. meanwhile (list_queue 1) tr (pipe start w) p \<and>
      (case stop_event t of None \<Rightarrow> p' = p | Some e \<Rightarrow> pipeline_step (list_queue 1) tr e p p') \<and>
      meanwhile (list_queue 1) tr p' (pipe start (le_stop (sample_host tr start) t w))" for t w
    by (intro exI [of _ "pipe start w"] exI [of _ "pipe start (le_stop (sample_host tr start) t w)"])
       (cases t; simp add: sample_host_def stop_event_def pipe_act step_iff_act)
  have "quiet (PE_turn idle_tick)" by (simp add: idle_tick_def)
  with spent push stop show ?thesis
    unfolding hosts_def by (auto simp: sample_host_def Let_def pipe_clock simp del: split_paired_All split_paired_Ex)
qed

text \<open>An idle pipeline, and how it ends in this world.\<close>

definition idle :: "AlertDispatcher \<Rightarrow> Signal list pipeline \<Rightarrow> bool" where
  "idle d p \<longleftrightarrow> pl_dispatching p \<and> pl_dispatcher p = dispatcher_start d \<and> pl_ring p = [] \<and> pl_emitting p = [] \<and>
     engine_running p \<and> \<not> engine_finished p"

lemma host_spawns:
  fixes store m h d out
  defines "start \<equiv> start_pipeline [] store m h d out"
  shows "idle d (pipe start (snd (le_spawn (sample_host tr start) T_dispatcher (c, None))))"
  using start_engine_ok [of store m h]
  by (simp add: sample_host_def pipe_act pipe_start start_def idle_def new_pipeline_def engine_running_def engine_finished_def
      thread_ok_def)

definition engine_gone :: "AlertDispatcher \<Rightarrow> Signal list pipeline \<Rightarrow> bool" where
  "engine_gone d p \<longleftrightarrow> engine_finished p \<and> pl_dispatching p \<and> pl_dispatcher p = dispatcher_start d"

lemma host_pushes:
  assumes "idle d (pipe start w)"
  obtains w' where "le_try_push (sample_host tr start) poison_pill w = (True, w')" "fst w' = fst w" "idle d (pipe start w')"
    "et_drain_mode (pl_thread (pipe start w'))"
proof
  let ?w = "act tr start (PE_engine False 0) (act tr start (PE_push poison_pill) w)"
  show "le_try_push (sample_host tr start) poison_pill w = (True, ?w)" "fst ?w = fst w"
    using assms by (simp_all add: sample_host_def Let_def pipe_act fst_act idle_def list_queue_def)
  show "idle d (pipe start ?w)" "et_drain_mode (pl_thread (pipe start ?w))"
    using assms pill
    by (simp_all add: pipe_act idle_def list_queue_def engine_turn_def engine_iter_def handle_signal_def Let_def
        loop_entered_def engine_running_def engine_finished_def)
qed

lemma host_finishes:
  assumes "idle d (pipe start w)" and "et_drain_mode (pl_thread (pipe start w))"
  obtains w' where "le_is_finished (sample_host tr start) w = (True, w')" "engine_gone d (pipe start w')"
proof
  let ?w = "act tr start (PE_engine False 0) w"
  have ended: "engine_gone d (pipe start ?w)"
    using assms by (simp add: pipe_act engine_gone_def idle_def list_queue_def engine_turn_def engine_iter_def finish_def Let_def
        engine_running_def engine_finished_def)
  then show "le_is_finished (sample_host tr start) w = (True, ?w)" "engine_gone d (pipe start ?w)"
    by (simp_all add: sample_host_def Let_def engine_gone_def)
qed

lemma host_polls:
  assumes "attempt w = (True, w')" and "start_ns = fst w" and "0 < timeout"
  shows "poll_until (sample_host tr start) attempt ms start_ns timeout w = Some (True, w')"
  by (subst poll_until.simps) (use assms in \<open>simp add: sample_host_def\<close>)

lemma host_steady: "le_steady_ns (sample_host tr start) w = (fst w, w)"
  by (simp add: sample_host_def)

lemma host_joins:
  assumes "engine_gone d (pipe start w)" and "ad_queue d = []"
  obtains w1 w' where "le_join (sample_host tr start) T_risk_engine (le_stop (sample_host tr start) T_risk_engine w) = Some w1"
    "le_stop (sample_host tr start) T_dispatcher w1 = le_stop (sample_host tr start) T_dispatcher (le_stop (sample_host tr start) T_risk_engine w)"
    "le_join (sample_host tr start) T_risk_engine (le_stop (sample_host tr start) T_dispatcher w1) =
       Some (le_stop (sample_host tr start) T_dispatcher w1)"
    "le_join (sample_host tr start) T_dispatcher (le_stop (sample_host tr start) T_dispatcher w1) = Some w'"
proof -
  let ?w1 = "act tr start PE_stop_engine w"
  let ?w2 = "act tr start PE_stop_dispatcher ?w1"
  let ?w3 = "act tr start (PE_turn idle_tick) ?w2"
  have "engine_finished (pipe start ?w1)" "engine_finished (pipe start ?w2)"
    using assms(1) by (simp_all add: pipe_act engine_gone_def engine_finished_def engine_stop_def)
  moreover have "ad_exited (pl_dispatcher (pipe start ?w3))"
    using assms by (simp add: pipe_act engine_gone_def turn_of_dispatcher_def dispatcher_turn_def dispatcher_start_def dispatcher_stop_def
        Let_def case_prod_unfold)
  ultimately show thesis
    by (intro that [of ?w1 ?w3]) (simp_all add: sample_host_def stop_event_def Let_def)
qed

text \<open>Put together: the two waits succeed at once, and what follows them ends.\<close>

lemma host_looks: "engine_gone d (pipe start w) \<Longrightarrow> engine_gone d (pipe start (snd (le_is_finished (sample_host tr start) w)))"
  by (auto simp: engine_gone_def sample_host_def Let_def pipe_act engine_turn_def engine_iter_def engine_finished_def
      loop_entered_def split: option.splits)

lemma host_drains:
  assumes "idle d (pipe start w)" and "0 < timeout"
  obtains w1 w2 where "poll_until (sample_host tr start) (le_try_push (sample_host tr start) poison_pill) 1 (fst w) timeout w = Some (True, w1)"
    "poll_until (sample_host tr start) (le_is_finished (sample_host tr start)) ms (fst w1) timeout w1 = Some (True, w2)"
    "engine_gone d (pipe start w2)"
proof -
  obtain w1 where w1: "le_try_push (sample_host tr start) poison_pill w = (True, w1)" "idle d (pipe start w1)"
    "et_drain_mode (pl_thread (pipe start w1))"
    using host_pushes [OF assms(1), where tr = tr] by blast
  obtain w2 where w2: "le_is_finished (sample_host tr start) w1 = (True, w2)" "engine_gone d (pipe start w2)"
    using host_finishes [OF w1(2,3), where tr = tr] by blast
  show thesis by (rule that [of w1 w2]) (auto intro: host_polls assms(2) w1(1) w2)
qed

lemma host_backtest:
  fixes store m h d out
  defines "start \<equiv> start_pipeline [] store m h d out"
  assumes "ad_queue d = []"
  shows "\<exists>trace w. backtest_run (sample_host tr start) (c, None) = Some (Inr 0, trace, w) \<and> A_drained True \<in> set trace"
proof -
  let ?env = "sample_host tr start"
  define v where "v = snd (le_spawn ?env T_dispatcher (c, None))"
  have spawn: "spawn_all ?env [T_dispatcher, T_risk_engine, T_event_source] [] (c, None) = Some (None, v)"
    by (simp add: v_def sample_host_def)
  have source: "le_join ?env T_event_source v = Some v" by (simp add: sample_host_def Let_def)
  have timeout: "0 < kDrainTimeout" by (simp add: kDrainTimeout_def)
  have "idle d (pipe start v)" unfolding v_def start_def by (rule host_spawns)
  then obtain w1 w2 where polls: "poll_until ?env (le_try_push ?env poison_pill) 1 (fst v) kDrainTimeout v = Some (True, w1)"
    "poll_until ?env (le_is_finished ?env) 20 (fst w1) kDrainTimeout w1 = Some (True, w2)" and w2: "engine_gone d (pipe start w2)"
    using host_drains [OF _ timeout] by blast
  obtain w3 w where "le_join ?env T_risk_engine (le_stop ?env T_risk_engine (snd (le_is_finished ?env w2))) = Some w3"
    "le_join ?env T_dispatcher (le_stop ?env T_dispatcher w3) = Some w"
    using host_joins [OF host_looks [OF w2] assms(2)] by metis
  then have "backtest_drain ?env v = Some ([A_join T_event_source, A_push_pill True, A_drained True, A_stop_engine,
      A_join T_risk_engine, A_stop_dispatcher, A_join T_dispatcher], w)"
    by (simp add: backtest_drain_def source host_steady polls)
  then show ?thesis by (simp add: backtest_run_def spawn del: spawn_all.simps)
qed

lemma host_daemon:
  assumes "armed ((pr_app p)\<lparr>app_health_server := h\<rparr>)" and "0 < cfg_shutdown_drain_timeout (app_cfg (pr_app p))"
    and "idle d (pipe start w)" and "ad_queue d = []"
  shows "\<exists>p' w'. shut_down (sample_host tr start) (p, w) = Some (p', w') \<and> A_drained True \<in> set (pr_trace p')"
proof -
  let ?env = "sample_host tr start"
  let ?timeout = "int (unat (cfg_shutdown_drain_timeout (app_cfg (pr_app p)))) * 1000000"
  from assms(1) obtain es e d' where app: "app_event_source (pr_app p) = Some es" "app_risk_engine (pr_app p) = Some e"
    "app_dispatcher (pr_app p) = Some d'" "app_ring_buffer (pr_app p)" "\<not> app_stopped (pr_app p)"
    by (auto simp: armed_def)
  have "0 < ?timeout" using assms(2) by (simp add: word_less_def)
  then obtain w1 w2 where polls: "poll_until ?env (le_try_push ?env poison_pill) 1 (fst w) ?timeout w = Some (True, w1)"
    "poll_until ?env (le_is_finished ?env) 50 (fst w1) ?timeout w1 = Some (True, w2)" and w2: "engine_gone d (pipe start w2)"
    using host_drains [OF assms(3)] by blast
  have "le_stop ?env T_event_source w = w" by (simp add: sample_host_def stop_event_def)
  then obtain p1 where p1: "stop_source_phase ?env (stop_health_phase (p\<lparr>pr_app := (pr_app p)\<lparr>app_stopped := True\<rparr>\<rparr>), w) = (p1, w)"
    "app_cfg (pr_app p1) = app_cfg (pr_app p)" "app_risk_engine (pr_app p1) = Some e" "app_ring_buffer (pr_app p1)"
    "app_dispatcher (pr_app p1) = Some d'"
    using app(1-4) by (cases "app_health_server (pr_app p)") (simp_all add: stop_source_phase_def stop_health_phase_def)
  let ?w3 = "le_stop ?env T_dispatcher (le_stop ?env T_risk_engine w2)"
  obtain p2 where p2: "stop_orderly ?env (p, w) = Some (p2, ?w3)" "A_drained True \<in> set (pr_trace p2)"
    using app(5) p1 polls
    by (auto simp: stop_orderly_def stop_engine_phase_def stop_dispatcher_phase_def push_pill_def await_drain_def host_steady Let_def)
  obtain w4 where joins: "le_join ?env T_risk_engine ?w3 = Some ?w3" "le_join ?env T_dispatcher ?w3 = Some w4"
    using host_joins [OF w2 assms(4), where tr = tr] by metis
  have "le_join ?env T_event_source ?w3 = Some ?w3" by (simp add: sample_host_def Let_def)
  with joins have "\<exists>pw. join_threads ?env (p2, ?w3) = Some pw"
    by (simp add: join_threads_def join_thread_def del: split_paired_Ex)
  then obtain p' w' where joined: "join_threads ?env (p2, ?w3) = Some (p', w')" by (metis surj_pair)
  moreover have "A_drained True \<in> set (pr_trace p')" using join_threads_trace(3) [OF joined] p2(2) by simp
  ultimately show ?thesis by (simp add: shut_down_def p2(1))
qed

lemma host_runs:
  assumes "init_modules aenv (pr_app p) (c, None) = Some (None, app1, (c, None))"
  shows "\<exists>p1. run_body aenv (sample_host tr start) (p, (c, None)) =
       Some (None, p1, snd (le_spawn (sample_host tr start) T_dispatcher (c, None))) \<and> app_cfg (pr_app p1) = app_cfg app1"
proof -
  have cfg: "app_cfg (register_rules aenv app1) = app_cfg app1"
    by (simp add: register_rules_def split: option.splits prod.splits)
  show ?thesis
    by (auto simp: run_body_def assms start_threads_def spawn_def sample_host_def start_health_def cfg split: option.splits sum.splits)
qed

section \<open>Properties\<close>

text \<open>
  C2: a daemon stopped in order has delivered everything.  Let \<open>run\<close> get through start-up, start the
  threads on the rules, the engine and the dispatcher that start-up built, wait for the stop request and
  stop, while the other threads go on in any interleaving.  If the engine was seen drained before the
  time-out, then when \<open>run\<close> has joined the threads, the alerts handled are exactly those the readable rows
  of the database call for on the signals evaluated, and every signal pushed before the poison pill
  was evaluated.
\<close>

theorem daemon_stop_delivers:
  assumes "hosts env sq tr look" and "spsc_laws sq contents capacity" and "contents q = []"
    and "fresh (pr_app p0)" and "pr_trace p0 = []" and "pr_joinable p0 = []"
    and "init_modules aenv (pr_app p0) w0 = Some (None, app1, w1)" and "app = register_rules aenv app1"
    and "app_risk_engine app = Some e" and "app_dispatcher app = Some d"
    and "look w1 = new_pipeline q (app_rules app) e d out"
    and "run_body aenv env (p0, w0) = Some (None, p1, w2)" and "shut_down env (p1, w2) = Some (p, w)"
    and "A_drained True \<in> set (pr_trace p)"
  shows "map fst (pl_handled (look w)) = stream_alerts aenv [] (evaluated (look w)) \<and>
     prefix (takeWhile (\<lambda>s. \<not> is_poison_pill s) (pl_pushed (look w))) (evaluated (look w))"
proof -
  have started: "started aenv app" unfolding started_def using assms(4,7,8) by blast
  have e: "e = register_all (db_rules aenv) (new_engine True (Some new_heartbeat))"
    using started_rules(2) [OF started] assms(9) by simp
  have not_stopped: "\<not> app_stopped (pr_app p0)" using assms(4) by (simp add: fresh_def)
  from run_body_cases(3) [OF assms(12) not_stopped assms(5,6) refl] have
    p1: "A_drained True \<notin> set (pr_trace p1)" "T_dispatcher \<in> set (pr_joinable p1)" by auto
  from assms(13) obtain p2 w3 where stop: "stop_orderly env (p1, w2) = Some (p2, w3)"
    and join: "join_threads env (p2, w3) = Some (p, w)"
    by (auto simp: shut_down_def split: bind_splits)
  have p2: "A_drained True \<in> set (pr_trace p2)" using assms(14) join_threads_trace(3) [OF join] by auto
  have "T_dispatcher \<in> set (pr_joinable p2)"
    using stop_orderly_trace(1) [OF stop run_body_cases(1) [OF assms(12) not_stopped assms(5,6)]] p1(2) by simp
  note joined = join_threads_hosted [OF assms(1) join this]
  obtain v where v: "meanwhile sq tr (look w2) (look v)" "engine_finished (look v)" "anything sq tr (look v) (look w3)"
    using stop_orderly_drained [OF assms(1) stop p2 p1(1)] by blast
  have run: "meanwhile sq tr (start_pipeline q (db_rules aenv) True (Some new_heartbeat) d out) (look v)"
    using reaches_trans [OF run_body_meanwhile [OF assms(1,7,12)] v(1)] assms(11)
    unfolding started_rules(1) [OF started] e by simp
  have rest: "anything sq tr (look v) (look w)" using reaches_trans [OF v(3) reaches_anything [OF joined(1)]] .
  note alerts = alerts_delivered [OF assms(2,3) started_dispatcher(4,5) [OF started assms(10)] meanwhile_no_call [OF run]
      v(2) rest joined(2)]
  note signals = signals_delivered [OF assms(2,3) run v(2) rest alerts(2)]
  from alerts(1) owed_rows [OF signals(2), of aenv] signals(1) show ?thesis by simp
qed

theorem daemon_stop_delivers_witness:
  "\<exists>env look p1 w2 p (w :: sample_world).
     run_body (sample_app_env []) env (new_proc sample_config, (0, None)) = Some (None, p1, w2) \<and>
     shut_down env (p1, w2) = Some (p, w) \<and> A_drained True \<in> set (pr_trace p) \<and>
     map fst (pl_handled (look w)) = stream_alerts (sample_app_env [] :: sample_world app_env) [] (evaluated (look w :: Signal list pipeline)) \<and>
     prefix (takeWhile (\<lambda>s. \<not> is_poison_pill s) (pl_pushed (look w))) (evaluated (look w))"
proof -
  let ?aenv = "sample_app_env [] :: sample_world app_env"
  let ?p0 = "new_proc sample_config"
  let ?out = "\<lparr>ob_console = [], ob_posts = []\<rparr>"
  have fresh: "fresh (pr_app ?p0)" "pr_trace ?p0 = []" "pr_joinable ?p0 = []" by (simp_all add: new_proc_def new_app_fresh)
  obtain app1 where init: "init_modules ?aenv (pr_app ?p0) (0, None) = Some (None, app1, (0, None))" "app_cfg app1 = sample_config"
    using sample_modules [of "[]" "(0, None) :: sample_world"] by (auto simp: new_proc_def)
  define app where "app = register_rules ?aenv app1"
  have started: "started ?aenv app" unfolding started_def app_def using fresh(1) init(1) by blast
  have e: "app_risk_engine app = Some (register_all (db_rules ?aenv) (new_engine True (Some new_heartbeat)))"
    using started_rules(2) [OF started] .
  have not_stopped: "\<not> app_stopped (pr_app ?p0)" using fresh(1) by (simp add: fresh_def)
  obtain d where d: "app_dispatcher app = Some d"
    using init_modules_armed(2) [OF init(1) not_stopped] by (auto simp: armed_def app_def)
  define start where "start = start_pipeline ([] :: Signal list) (db_rules ?aenv) True (Some new_heartbeat) d ?out"
  let ?env = "sample_host sample_env start"
  have look: "pipe start (0, None) = new_pipeline [] (app_rules app) (register_all (db_rules ?aenv) (new_engine True (Some new_heartbeat))) d ?out"
    using started_rules(1) [OF started] by (simp add: pipe_start start_def)
  define v where "v = snd (le_spawn ?env T_dispatcher (0, None))"
  have idle: "idle d (pipe start v)" unfolding v_def start_def by (rule host_spawns)
  obtain p1 where p1: "run_body ?aenv ?env (?p0, (0, None)) = Some (None, p1, v)" "app_cfg (pr_app p1) = sample_config"
    using host_runs [OF init(1)] init(2) unfolding v_def by metis
  then have timeout: "0 < cfg_shutdown_drain_timeout (app_cfg (pr_app p1))" by (simp add: sample_config_def default_app_config_def)
  obtain h where armed: "armed ((pr_app p1)\<lparr>app_health_server := h\<rparr>)"
    using run_body_cases(3) [OF p1(1) not_stopped fresh(2,3) refl] by blast
  obtain p w where stop: "shut_down ?env (p1, v) = Some (p, w)" "A_drained True \<in> set (pr_trace p)"
    using host_daemon [OF armed timeout idle started_dispatcher(4) [OF started d]] by blast
  show ?thesis
    using daemon_stop_delivers [OF sample_host_hosts [of sample_env start] list_queue_laws [of 1] refl fresh init(1) app_def e d look p1(1) stop]
      p1(1) stop by blast
qed

text \<open>
  C3: the report of a backtest.  Let a backtest run from its configuration to its exit code 0, the
  threads interleaving in any way.  Then the alerts handled are exactly those that the six rules of the
  configuration owe for the signals evaluated, even if the engine had to be forced to stop; if it was seen
  drained, every signal pushed before the poison pill was evaluated; and on a disk that takes everything
  the file holds, numbered from one and in order, exactly the alerts that the deduplicator lets through.
\<close>

theorem backtest_reports:
  assumes "backtest_init rpc fs cfg url w0 = (Some (Inr app), w1)"
    and "hosts env sq tr look" and "spsc_laws sq contents capacity" and "contents q = []"
    and "look w2 = new_pipeline q (ba_rules app) (ba_risk_engine app) (ba_dispatcher app) out"
    and "backtest_run env w2 = Some (Inr 0, trace, w)"
    and "\<forall>content line. ce_write tr content line = (content @ line, True)" and "\<forall>j. ce_dump_ordered tr j = Inr (dump j)"
    and "hs = pl_handled (look w)" and "ds = filter_run should_suppress (new_deduplicator backtest_dedup_cfg) hs"
  shows "map fst hs = owed (config_rules cfg) (evaluated (look w)) \<and>
     (A_drained True \<in> set trace \<longrightarrow>
        prefix (takeWhile (\<lambda>s. \<not> is_poison_pill s) (pl_pushed (look w))) (evaluated (look w))) \<and>
     (\<exists>f. ad_channels (pl_dispatcher (look w)) = [C_File f] \<and> fa_content f = report_text dump 0 (let_through hs ds) \<and>
        fa_alert_count f = word_of_nat (length (let_through hs ds)))"
proof -
  note d = backtest_init_dispatcher [OF assms(1)]
  let ?start = "start_pipeline q (backtest_rules cfg) False None (ba_dispatcher app) out"
  have start: "look w2 = ?start" using assms(5) backtest_init_result(1,2) [OF assms(1)] by simp
  from assms(6) obtain w3 where spawn: "spawn_all env [T_dispatcher, T_risk_engine, T_event_source] [] w2 = Some (None, w3)"
    and drain: "backtest_drain env w3 = Some (trace, w)"
    by (auto simp: backtest_run_def simp del: spawn_all.simps split: bind_splits option.splits)
  have w3: "meanwhile sq tr ?start (look w3)" using spawn_all_meanwhile [OF assms(2) spawn] start by simp
  obtain v where v: "reaches sq tr no_stop_call (look w3) (look v)" "engine_finished (look v)" "anything sq tr (look v) (look w)"
    and exited: "ad_exited (pl_dispatcher (look w))"
    using backtest_drain_hosted(1) [OF assms(2) drain] by blast
  have to_v: "reaches sq tr no_stop_call ?start (look v)" using reaches_trans [OF meanwhile_no_call [OF w3] v(1)] .
  note alerts = alerts_delivered [OF assms(3,4) d(1,2) to_v v(2,3) exited]
  have "owed (backtest_rules cfg) sigs = owed (config_rules cfg) sigs" for sigs
    by (simp add: owed_def backtest_rules_active deliver_active)
  then have 1: "map fst hs = owed (config_rules cfg) (evaluated (look w))" using alerts(1) assms(9) by simp
  have 2: "prefix (takeWhile (\<lambda>s. \<not> is_poison_pill s) (pl_pushed (look w))) (evaluated (look w))"
    if drained: "A_drained True \<in> set trace"
  proof -
    obtain u where u: "meanwhile sq tr (look w3) (look u)" "engine_finished (look u)" "anything sq tr (look u) (look w)"
      using backtest_drain_hosted(2) [OF assms(2) drain drained] by blast
    have to_u: "meanwhile sq tr ?start (look u)" using reaches_trans [OF w3 u(1)] .
    show ?thesis
      using signals_delivered(1) [OF assms(3,4) to_u u(2,3)]
        alerts_delivered(2) [OF assms(3,4) d(1,2) meanwhile_no_call [OF to_u] u(2,3) exited] by blast
  qed
  obtain es where "pipeline_run sq tr ?start es (look w)"
    using reaches_trans [OF reaches_anything [OF to_v] v(3)] by (rule run_of_reaches)
  from pipeline_writes [OF assms(3,4) this d(4)] have "ad_channels (pl_dispatcher (look w)) = [C_File (written tr (let_through hs ds)
      \<lparr>fa_output_path = bt_output_path cfg, fa_content = [], fa_alert_count = 0\<rparr>)]"
    by (simp add: assms(9,10) d(3))
  with written_text [OF assms(7,8), of "\<lparr>fa_output_path = bt_output_path cfg, fa_content = [], fa_alert_count = 0\<rparr>" 0] 1 2
  show ?thesis by simp
qed

theorem backtest_reports_witness:
  "\<exists>app :: BacktestApp. \<exists>env look trace (w :: sample_world). backtest_run env (0, None) = Some (Inr 0, trace, w) \<and>
     map fst (pl_handled (look w)) =
       owed (config_rules (new_backtest_config\<lparr>bt_chain := ''ethereum''\<rparr>)) (evaluated (look w :: Signal list pipeline)) \<and>
     prefix (takeWhile (\<lambda>s. \<not> is_poison_pill s) (pl_pushed (look w))) (evaluated (look w))"
proof -
  let ?cfg = "new_backtest_config\<lparr>bt_chain := ''ethereum''\<rparr>"
  let ?tr = "sample_env\<lparr>ce_write := (\<lambda>content line. (content @ line, True)), ce_dump_ordered := (\<lambda>_. Inr [])\<rparr>"
  obtain app where app: "backtest_init (av_rpc (sample_app_env [])) sample_files ?cfg ''node'' (0, None) = (Some (Inr app), (0, None) :: sample_world)"
    using sample_backtest_init [of ?cfg "(0, None) :: sample_world"] by auto
  let ?out = "\<lparr>ob_console = [], ob_posts = []\<rparr>"
  define start where "start = start_pipeline ([] :: Signal list) (backtest_rules ?cfg) False None (ba_dispatcher app) ?out"
  have "pipe start (0, None) = new_pipeline [] (ba_rules app) (ba_risk_engine app) (ba_dispatcher app) ?out"
    using backtest_init_result(1,2) [OF app] by (simp add: pipe_start start_def)
  moreover obtain trace w where run: "backtest_run (sample_host ?tr start) (0, None) = Some (Inr 0, trace, w)" "A_drained True \<in> set trace"
    unfolding start_def using host_backtest [OF backtest_init_dispatcher(1) [OF app]] by blast
  ultimately show ?thesis
    using backtest_reports [OF app sample_host_hosts [of ?tr start] list_queue_laws [of 1] refl _ run(1) _ _ refl refl, of ?out "\<lambda>_. []"]
    by (intro exI [of _ app] exI [of _ "sample_host ?tr start"] exI [of _ "pipe start"] exI [of _ trace] exI [of _ w]) simp
qed

end
