(* ===== verification/Spec2Isabelle.thy ===== *)
theory Spec2Isabelle
  imports Command_Line Metrics Model_Json Shutdown
begin

text \<open>
  Verification of risk-sentinel, a monitor that follows an EVM chain, evaluates customer rules on
  its logs and sends alerts.

  \<^bold>\<open>The program.\<close>  Three threads form a pipeline.  The \<open>EventSource\<close> asks a chain adapter for the head
  and for logs in block ranges, normalizes each log into a \<open>Signal\<close> and pushes it into a
  single-producer single-consumer ring buffer.  The \<open>RiskEngine\<close> takes signals from the ring
  buffer, routes each by its type to the rules that declared interest, and hands the alerts the
  rules produce to the \<open>AlertDispatcher\<close>, whose thread deduplicates them and sends them over every
  channel (console, Telegram, webhooks, a file).  Shutdown pushes a poison pill through the ring
  buffer, waits for the engine to drain and then stops the dispatcher.  A health server reads
  the heartbeats of the three threads.  \<open>App\<close> loads the customers' rules from PostgreSQL, builds the
  pipeline and owns its life; \<open>BacktestApp\<close> replays a range of old blocks through the same pipeline
  with rules from a YAML file; \<open>main\<close> chooses between them and the admin command.

  \<^bold>\<open>Theories and sources\<close> (under \<open>src/include/sentinel\<close> and \<open>src/src\<close>).
  \<^item> \<open>Sentinel_Prelude\<close>: machine integers, exceptions as values (\<open>exn\<close>, \<open>bindE\<close>, \<open>mapE\<close>),
    \<open>std::to_string\<close> and \<open>std::stoull\<close>, big-endian byte strings as numbers, and association lists
    for \<open>std::unordered_map\<close>.
  \<^item> \<open>Hex\<close>: \<open>events/utils/hex.hpp\<close>, every function at its width.  Lemmas: exact domains and values
    of the parsers, decimal printing and parsing of 256-bit amounts, round trips.
  \<^item> \<open>Signal\<close>: \<open>risk/signal.hpp\<close>, \<open>events/RawLog.hpp\<close> and \<open>Alert\<close>; \<open>signal_wf\<close> is the type invariant
    of signals.
  \<^item> \<open>Normalize\<close>: \<open>events/normalize.cpp\<close>.  Lemmas: when it throws, the invariant of what it returns,
    and the exact classification.
  \<^item> \<open>Rule_Interface\<close>: the contract of \<open>IRiskRule\<close> as the locale \<open>risk_rule\<close>, and the locale
    \<open>bucket_rule\<close> of the five stateless rules, which scan the configurations of one contract.
    \<open>Rule_Large_Transfer\<close>, \<open>Rule_Governance\<close>, \<open>Rule_Mint_Burn\<close>, \<open>Rule_Approval\<close>,
    \<open>Rule_Bridge_Transfer\<close>, \<open>Rule_Oracle_Update\<close>: \<open>risk/rules\<close>, one theory each, with an
    interpretation and the exact set of alerts; the oracle rule also refines a table of prices.
  \<^item> \<open>Heartbeat\<close>, \<open>Health\<close>: \<open>health\<close>; the exact condition of readiness.
  \<^item> \<open>Risk_Engine\<close>: \<open>risk/risk_engine.cpp\<close>.  One iteration of the loop is \<open>engine_iter\<close>, given what
    the iteration observes; a run is a fold over any list of observations.  Lemmas: routing,
    independence of the rules, tenant isolation, draining.
  \<^item> \<open>Alert_Deduplicator\<close>: \<open>risk/alert_deduplicator.cpp\<close> as an interpretation of the locale
    \<open>alert_filter\<close>, which states when a filter withholds an alert.
  \<^item> \<open>Crypto\<close>: \<open>security/crypto.cpp\<close> and \<open>admin/encrypt_secret.cpp\<close> over an abstract OpenSSL; for which
    addresses the printed SQL statement stores what was given (\<open>sql_url_exact\<close>).
  \<^item> \<open>Alert_Formatter\<close>, \<open>Alert_Channels\<close>: texts, payloads, signatures and what each channel may
    send (locale \<open>alert_channel\<close>).
  \<^item> \<open>Alert_Dispatcher\<close>: \<open>risk/alert_dispatcher.cpp\<close>; histories are lists of atomic steps in any
    interleaving.
  \<^item> \<open>Event_Source\<close>: \<open>events/EventSource.cpp\<close> over an abstract adapter, ring buffer and clocks.
  \<^item> \<open>Json\<close>: JSON values and the accessors of the JSON library that the code uses.
  \<^item> \<open>Chain_Adapters\<close>: \<open>rpc/JsonRpcClient.cpp\<close> and both adapters as interpretations of the locale
    \<open>chain_adapter\<close>, over an abstract libcurl and JSON library.
  \<^item> \<open>Config_Loaders\<close>: the loaders of \<open>app/app.cpp\<close>, row by row, the row loops being interpretations of
    the locale \<open>config_loader\<close>; what is loaded, that it is well-formed (\<open>rule_wf\<close>), and the way of a
    provisioned secret into a webhook endpoint.
  \<^item> \<open>Checkpoint_Store\<close>: \<open>db_checkpoint_store.cpp\<close> as an interpretation of the locale \<open>block_store\<close>.
  \<^item> \<open>App_Modules\<close>: the start-up of \<open>App\<close> (\<open>init_db_\<close>, \<open>init_modules_\<close>, \<open>register_rules_\<close>); the engine and the
    dispatcher it builds from any content of the database.
  \<^item> \<open>Metrics\<close>: \<open>metrics/metrics.cpp\<close>, the constructor over an abstract Prometheus; the registry it
    leaves (\<open>metrics_constructed\<close>).
  \<^item> \<open>App_Lifecycle\<close>: \<open>App::run\<close>, the threads, the orderly stop, the destructor, as a trace of actions;
    order, exit codes and termination.
  \<^item> \<open>Backtest_Config\<close>, \<open>Backtest_App\<close>: \<open>backtest\<close>; what an accepted document satisfies, and that a
    backtest detects what the daemon detects.
  \<^item> \<open>Command_Line\<close>: \<open>main.cpp\<close> and \<open>log.cpp\<close>; commands, environment, exit codes, the signal thread.
  \<^item> \<open>Model_Json\<close>: \<open>model.hpp\<close>, \<open>json.hpp\<close> and \<open>events/NormalizedEvent.hpp\<close>, which the pipeline does not use;
    their JSON form loses nothing.

  The composition of the parts:
  \<^item> \<open>Pipeline\<close>: the threads of \<open>App::start_threads_\<close> over the shared ring buffer and alert queue, as the
    labelled step relation \<open>pipeline_step\<close>; invariants of all interleavings, what an orderly and a
    forced stop leave, that the pipeline can always finish once the pill is in the buffer, and that a
    stop before the dispatcher's thread has entered its loop is lost.
  \<^item> \<open>Block_Coverage\<close>: the life of an event source as a chain of fetched ranges (\<open>covers\<close>); no block
    is skipped.
  \<^item> \<open>Observability\<close>: the counters and gauges of the three threads against the signals and alerts of
    the pipeline.
  \<^item> \<open>Row_Alerts\<close>: a reference that reads the alerts of a signal off the rows of the database and, for
    price updates, the earlier signals (\<open>row_alerts\<close>), and that loaders, rules and engine together
    produce exactly these.
  \<^item> \<open>Shutdown\<close>: the calls of \<open>App::run\<close> and of \<open>BacktestApp::run\<close> on the threads joined to the steps of
    \<open>Pipeline\<close>: while one call is made, the other threads take any steps (\<open>hosts\<close>).  A daemon stopped
    in order has delivered every alert (\<open>daemon_stop_delivers\<close>), and the report of a backtest holds exactly
    the alerts that the deduplicator lets through (\<open>backtest_reports\<close>).
  \<^item> This theory: \<open>daemon_end_to_end\<close>, from the database and the chain to the alerts handled.

  \<^bold>\<open>Concurrency.\<close>  The rule objects, the engine's state and the deduplicator are each used by one
  thread.  The threads meet at the ring buffer and at the dispatcher's queue, guarded by a mutex,
  so a run of \<open>pipeline_step\<close> (a push, an iteration of the engine, the hand-over of one alert, a
  turn of the dispatcher, a start or stop) is an interleaving of the threads, and every interleaving
  of these steps is a run.  The atomics \<open>running_\<close> are fields that a step reads.  Memory-model effects
  inside the ring buffer belong to its library and are covered by its laws.

  \<^bold>\<open>Bounds and fuel.\<close>  Integers have their C++ width (\<open>u8\<close>, \<open>u32\<close>, \<open>u64\<close>), 128-bit intermediates are
  integers within range, clocks of the shutdown count nanoseconds as integers.  Loops that end are
  total functions; \<open>push_blocking\<close>, which may wait for ever, and the waiting loops of the stop are
  partial functions into options, the latter proved to return (\<open>run_terminates\<close>); \<open>source_run\<close> takes
  a number of iterations, and \<open>backtest_terminates\<close> gives a number that is enough.

  \<^bold>\<open>Outside the model.\<close>  Log output, the lengths of sleeps and time-outs of libcurl, the HTTP server,
  the text of the SQL statements (a query is the list of rows it returns) and of the messages on
  the console.  OpenSSL, libcurl, the JSON and YAML libraries, PostgreSQL, the file system, the
  threads and the clocks are parameters; what is relied on is a named hypothesis (\<open>gcm_laws\<close>, \<open>tracks\<close>,
  \<open>heads_below\<close>, \<open>roomy\<close>, \<open>benign\<close>, \<open>clock_laws\<close>, \<open>spsc_laws\<close>, \<open>prom_laws\<close>, \<open>hosts\<close>).  Of a histogram
  only the number of observations is kept.

  \<^bold>\<open>Not modelled.\<close>  What is left of the sources is declarations of what is modelled where it is defined,
  include directives, log lines, the usage text of the admin command, thread names and the content of the
  readiness file (its writing and removal are actions of the trace).
\<close>

section \<open>From the chain to the customers\<close>

text \<open>The event source never pushes a poison pill: a normalized log is no control signal.\<close>

lemma signal_of_no_pill: "signal_of c ts raw x \<Longrightarrow> \<not> is_poison_pill x"
  by (auto simp: signal_of_def is_poison_pill_def signal_wf_def dest!: normalize_log_wf)

lemma before_the_pill:
  assumes "from_logs c sigs" and "is_poison_pill pill"
  shows "takeWhile (\<lambda>x. \<not> is_poison_pill x) (sigs @ pill # rest) = sigs"
  using assms signal_of_no_pill by (subst takeWhile_append2) (auto simp: from_logs_def)

lemma pill_last:
  assumes "\<forall>x\<in>set xs. \<not> is_poison_pill x" and "is_poison_pill pill"
    and "prefix popped (xs @ [pill])" and "prefix xs (filter (\<lambda>x. \<not> is_poison_pill x) popped)"
  shows "filter (\<lambda>x. \<not> is_poison_pill x) popped = xs"
proof -
  obtain rest where "xs @ [pill] = popped @ rest" using assms(3) by (auto simp: prefix_def)
  then have "filter (\<lambda>x. \<not> is_poison_pill x) popped @ filter (\<lambda>x. \<not> is_poison_pill x) rest = xs"
    using assms(1,2) by (metis (no_types, lifting) append_Nil2 filter.simps filter_True filter_append)
  with assms(4) show ?thesis by (metis prefixI prefix_order.antisym)
qed

text \<open>A ring buffer with room for everything, and threads that end in order.\<close>

lemma pipeline_end:
  fixes sigs store m h d w
  defines "start \<equiv> start_pipeline [] store m h d w"
  assumes "list_ex is_poison_pill sigs" and "\<not> ad_exited d"
  shows "\<exists>es p es' p'. pipeline_run (list_queue (length sigs)) env start es p \<and> list_all calm es \<and>
     pl_pushed p = sigs \<and> engine_finished p \<and> \<not> ad_exited (pl_dispatcher p) \<and>
     pipeline_run (list_queue (length sigs)) env p es' p' \<and> ad_exited (pl_dispatcher p')"
proof -
  let ?sq = "list_queue (length sigs)"
  have st: "engine_running start" "\<not> engine_finished start" "\<not> ad_exited (pl_dispatcher start)" "pl_pushed start = []"
    "pl_ring start = []"
    using start_drains [of "[]" store m h] start_engine_ok [of store m h] assms(3)
    by (simp_all add: start_def drains_def engine_finished_def new_pipeline_def thread_ok_def)
  obtain p0 where p0: "pipeline_run ?sq env start (map PE_push sigs) p0" "pl_pushed p0 = sigs"
    "pl_thread p0 = pl_thread start" "pl_dispatcher p0 = pl_dispatcher start"
    using pushes_reach [OF list_queue_laws, of start sigs "length sigs" env] st by auto
  have "pipeline_inv env (\<lambda>q. q) (length sigs) store (d, w) p0"
    using started_inv [OF list_queue_laws refl p0(1) [unfolded start_def]] .
  then obtain p where p: "reaches ?sq env by_engine p0 p" "engine_finished p" "same_rest p0 p"
    using engine_drains_ring [OF list_queue_laws] p0 st assms(2)
    by (metis engine_finished_def engine_running_def)
  then obtain es where es: "list_all by_engine es" "pipeline_run ?sq env p0 es p" by (auto simp: reaches_def)
  have "list_all calm (map PE_push sigs @ es)"
    using es(1) by (auto simp: list_all_iff) (metis by_engine.simps calm.simps pipeline_event.exhaust)
  moreover obtain p' where "reaches ?sq env by_dispatcher p p'" "ad_exited (pl_dispatcher p')"
    using stop_reaches_exit [of p ?sq env] p(3) p0(4) st(3) by (auto simp: same_rest_def)
  ultimately show ?thesis
    using run_append [OF es(2) p0(1)] p p0 st(3) unfolding reaches_def same_rest_def by metis
qed

abbreviation sample_pill :: Signal where
  "sample_pill \<equiv> sample_signal ST_Control (P_ControlSignal Cmd_Stop)"

lemma sample_pill: "is_poison_pill sample_pill" "list_ex is_poison_pill (sigs @ [sample_pill])"
  by (simp_all add: is_poison_pill_def)

lemma from_logs_wf: "from_logs c sigs \<Longrightarrow> list_all signal_wf sigs"
proof -
  have meta: "signal_wf (ev\<lparr>sig_meta := m\<rparr>) = signal_wf ev" for ev :: Signal and m
    unfolding signal_wf_def by (cases "sig_payload ev") simp_all
  have "signal_of c ts raw x \<Longrightarrow> signal_wf x" for ts raw x
    by (auto simp: signal_of_def meta dest!: normalize_log_wf)
  then show "from_logs c sigs \<Longrightarrow> list_all signal_wf sigs" unfolding from_logs_def list_all_iff by blast
qed



end
